(* ===== verification/Fovea_Prelude.thy ===== *)
theory Fovea_Prelude
  imports Main "HOL-Library.Word"
begin

text \<open>
  Shared vocabulary of the development: fixed-width integers with the arithmetic that the Rust
  code selects explicitly (checked, saturating, wrapping), the \<open>Result\<close> plumbing (\<open>?\<close>,
  \<open>map_err\<close>, \<open>ok_or_else\<close>), calls on the outside world as state passing, and the
  \<^theory_text>\<open>named_theorems\<close> collections the component proofs use.
\<close>

named_theorems result_simps \<open>unfolding of the Result combinators\<close>
named_theorems text_eval \<open>definitions to unfold when a closed text is evaluated\<close>

section \<open>Machine integers\<close>

type_synonym u8 = "8 word"
type_synonym u32 = "32 word"
type_synonym u64 = "64 word"
type_synonym usize = "64 word"

text \<open>A process id is an \<open>i32\<close>. No arithmetic is done on it, so it is the integer it denotes;
  every pid that is parsed passes the range check of \<open>i32::from_str\<close>.\<close>

type_synonym i32 = int

definition checked_add :: "'a::len word \<Rightarrow> 'a word \<Rightarrow> 'a word option" where
  "checked_add x y = (if uint x + uint y < 2 ^ LENGTH('a) then Some (x + y) else None)"

definition checked_sub :: "'a::len word \<Rightarrow> 'a word \<Rightarrow> 'a word option" where
  "checked_sub x y = (if y \<le> x then Some (x - y) else None)"

definition saturating_add :: "'a::len word \<Rightarrow> 'a word \<Rightarrow> 'a word" where
  "saturating_add x y = (case checked_add x y of None \<Rightarrow> - 1 | Some z \<Rightarrow> z)"

definition saturating_sub :: "'a::len word \<Rightarrow> 'a word \<Rightarrow> 'a word" where
  "saturating_sub x y = (case checked_sub x y of None \<Rightarrow> 0 | Some z \<Rightarrow> z)"

definition saturating_mul :: "'a::len word \<Rightarrow> 'a word \<Rightarrow> 'a word" where
  "saturating_mul x y = (if uint x * uint y < 2 ^ LENGTH('a) then x * y else - 1)"

lemma int_less_pow_iff: "int m < 2 ^ k \<longleftrightarrow> m < 2 ^ k"
  using of_nat_less_iff [of m "2 ^ k", where 'a = int] by simp

lemma uint_sum_less_iff: "uint x + uint y < 2 ^ LENGTH('a) \<longleftrightarrow> unat x + unat y < 2 ^ LENGTH('a)"
  for x y :: "'a::len word"
  by (simp only: uint_nat of_nat_add [symmetric] int_less_pow_iff)

lemma uint_prod_less_iff: "uint x * uint y < 2 ^ LENGTH('a) \<longleftrightarrow> unat x * unat y < 2 ^ LENGTH('a)"
  for x y :: "'a::len word"
  by (simp only: uint_nat of_nat_mult [symmetric] int_less_pow_iff)

lemma unat_max_word: "unat (- 1 :: 'a::len word) = 2 ^ LENGTH('a) - 1"
  by (simp add: unsigned_minus_1_eq_mask mask_eq_exp_minus_1)

lemma unat_add_small: "unat x + unat y < 2 ^ LENGTH('a) \<Longrightarrow> unat (x + y) = unat x + unat y"
  for x y :: "'a::len word"
  by (simp add: unat_word_ariths)

lemma checked_add_Some_iff:
  "checked_add x y = Some z \<longleftrightarrow> unat x + unat y < 2 ^ LENGTH('a) \<and> z = x + y"
  for x y :: "'a::len word"
  by (auto simp: checked_add_def uint_sum_less_iff)

lemma checked_add_SomeD: "checked_add x y = Some z \<Longrightarrow> unat z = unat x + unat y"
  by (auto simp: checked_add_Some_iff unat_add_small)

lemma checked_add_None_iff: "checked_add x y = None \<longleftrightarrow> 2 ^ LENGTH('a) \<le> unat x + unat y"
  for x y :: "'a::len word"
  by (auto simp: checked_add_def uint_sum_less_iff)

lemma checked_sub_SomeD: "checked_sub x y = Some z \<Longrightarrow> unat z = unat x - unat y \<and> unat y \<le> unat x"
  by (auto simp: checked_sub_def unat_sub word_le_nat_alt split: if_splits)

lemma checked_sub_None_iff: "checked_sub x y = None \<longleftrightarrow> x < y"
  by (auto simp: checked_sub_def)

lemma unat_saturating_add:
  "unat (saturating_add x y) = min (unat x + unat y) (2 ^ LENGTH('a) - 1)"
  for x y :: "'a::len word"
  by (auto simp: saturating_add_def checked_add_def uint_sum_less_iff unat_max_word unat_add_small min_def)

lemma unat_saturating_sub: "unat (saturating_sub x y) = unat x - unat y"
  by (auto simp: saturating_sub_def checked_sub_def unat_sub word_le_nat_alt)

lemma unat_saturating_mul:
  "unat (saturating_mul x y) = min (unat x * unat y) (2 ^ LENGTH('a) - 1)"
  for x y :: "'a::len word"
  by (simp add: saturating_mul_def uint_prod_less_iff unat_max_word unat_word_ariths)

section \<open>Results\<close>

text \<open>\<open>Result<T, E>\<close> is \<open>'e + 't\<close>: \<open>Inl\<close> is \<open>Err\<close>, \<open>Inr\<close> is \<open>Ok\<close>. The operator \<open>?\<close> is
  \<open>rbind\<close>: the first error ends the computation.\<close>

definition rbind :: "'e + 'a \<Rightarrow> ('a \<Rightarrow> 'e + 'b) \<Rightarrow> 'e + 'b" where
  "rbind m f = (case m of Inl e \<Rightarrow> Inl e | Inr x \<Rightarrow> f x)"

definition map_err :: "('e \<Rightarrow> 'f) \<Rightarrow> 'e + 'a \<Rightarrow> 'f + 'a" where
  "map_err g m = (case m of Inl e \<Rightarrow> Inl (g e) | Inr x \<Rightarrow> Inr x)"

definition ok_or :: "'e \<Rightarrow> 'a option \<Rightarrow> 'e + 'a" where
  "ok_or e m = (case m of None \<Rightarrow> Inl e | Some x \<Rightarrow> Inr x)"

definition ensure :: "'e \<Rightarrow> bool \<Rightarrow> 'e + unit" where
  "ensure e b = (if b then Inr () else Inl e)"

lemma rbind_simps [simp, result_simps]:
  "rbind (Inl e) f = Inl e" "rbind (Inr x) f = f x"
  by (simp_all add: rbind_def)

lemma map_err_simps [simp, result_simps]:
  "map_err g (Inl e) = Inl (g e)" "map_err g (Inr x) = Inr x"
  by (simp_all add: map_err_def)

lemma ok_or_simps [simp, result_simps]:
  "ok_or e None = Inl e" "ok_or e (Some x) = Inr x"
  by (simp_all add: ok_or_def)

lemma ensure_simps [simp, result_simps]: "ensure e True = Inr ()" "ensure e False = Inl e"
  by (simp_all add: ensure_def)

lemma rbind_Inr_iff: "rbind m f = Inr y \<longleftrightarrow> (\<exists>x. m = Inr x \<and> f x = Inr y)"
  by (cases m) simp_all

lemma rbind_Inl_iff: "rbind m f = Inl e \<longleftrightarrow> m = Inl e \<or> (\<exists>x. m = Inr x \<and> f x = Inl e)"
  by (cases m) simp_all

lemma map_err_Inr_iff: "map_err g m = Inr y \<longleftrightarrow> m = Inr y"
  by (cases m) simp_all

lemma map_err_Inl_iff: "map_err g m = Inl e \<longleftrightarrow> (\<exists>e'. m = Inl e' \<and> e = g e')"
  by (cases m) auto

lemma ok_or_Inr_iff: "ok_or e m = Inr y \<longleftrightarrow> m = Some y"
  by (cases m) simp_all

lemma ok_or_Inl_iff: "ok_or e m = Inl e' \<longleftrightarrow> m = None \<and> e' = e"
  by (cases m) auto

lemma ensure_Inr_iff: "ensure e b = Inr u \<longleftrightarrow> b"
  by (cases b) simp_all

lemma ensure_Inl_iff: "ensure e b = Inl e' \<longleftrightarrow> \<not> b \<and> e' = e"
  by (cases b) auto

lemmas result_iffs = rbind_Inr_iff rbind_Inl_iff map_err_Inr_iff map_err_Inl_iff
  ok_or_Inr_iff ok_or_Inl_iff ensure_Inr_iff ensure_Inl_iff

definition is_err :: "'e + 'a \<Rightarrow> bool" where
  "is_err r = (case r of Inl e \<Rightarrow> True | Inr x \<Rightarrow> False)"

lemma not_is_errD: "\<not> is_err r \<Longrightarrow> \<exists>x. r = Inr x"
  by (cases r) (auto simp: is_err_def)

lemma not_is_err_fstD: "\<not> is_err (fst p) \<Longrightarrow> \<exists>x w. p = (Inr x, w)"
  by (cases p) (auto dest: not_is_errD)

section \<open>Calls on the outside world\<close>

text \<open>A fallible call on the environment (the operating system, an injected port) takes the
  world and returns its answer with the world after the call. Sequencing with \<open>io_bind\<close> stops
  at the first error, in the world in which the error was answered.\<close>

type_synonym ('w, 'e, 'a) io = "'w \<Rightarrow> ('e + 'a) \<times> 'w"

definition io_ok :: "'a \<Rightarrow> ('w, 'e, 'a) io" where
  "io_ok x = (\<lambda>w. (Inr x, w))"

definition io_err :: "'e \<Rightarrow> ('w, 'e, 'a) io" where
  "io_err e = (\<lambda>w. (Inl e, w))"

definition io_lift :: "'e + 'a \<Rightarrow> ('w, 'e, 'a) io" where
  "io_lift r = (\<lambda>w. (r, w))"

definition io_bind :: "('w, 'e, 'a) io \<Rightarrow> ('a \<Rightarrow> ('w, 'e, 'b) io) \<Rightarrow> ('w, 'e, 'b) io" where
  "io_bind m f = (\<lambda>w. case m w of (Inl e, w') \<Rightarrow> (Inl e, w') | (Inr x, w') \<Rightarrow> f x w')"

lemma io_run_simps [simp, result_simps]:
  "io_ok x w = (Inr x, w)" "io_err e w = (Inl e, w)" "io_lift r w = (r, w)"
  by (simp_all add: io_ok_def io_err_def io_lift_def)

lemma io_bind_Inr_iff:
  "io_bind m f w = (Inr y, w'') \<longleftrightarrow> (\<exists>x w'. m w = (Inr x, w') \<and> f x w' = (Inr y, w''))"
  by (auto simp: io_bind_def split: prod.splits sum.splits)

lemma io_bind_Inl_iff:
  "io_bind m f w = (Inl e, w'') \<longleftrightarrow>
     m w = (Inl e, w'') \<or> (\<exists>x w'. m w = (Inr x, w') \<and> f x w' = (Inl e, w''))"
  by (auto simp: io_bind_def split: prod.splits sum.splits)

lemma io_bind_eval:
  "m w = (Inr x, w') \<Longrightarrow> io_bind m f w = f x w'"
  "m w = (Inl e, w') \<Longrightarrow> io_bind m f w = (Inl e, w')"
  by (simp_all add: io_bind_def)

lemmas io_iffs = io_bind_Inr_iff io_bind_Inl_iff

section \<open>Lists\<close>

lemma takeWhile_all: "\<forall>x\<in>set xs. P x \<Longrightarrow> takeWhile P (xs @ ys) = xs @ takeWhile P ys"
  by (induction xs) auto

lemma dropWhile_all: "\<forall>x\<in>set xs. P x \<Longrightarrow> dropWhile P (xs @ ys) = dropWhile P ys"
  by (induction xs) auto

lemma takeWhile_stop: "\<forall>x\<in>set xs. P x \<Longrightarrow> \<not> P y \<Longrightarrow> takeWhile P (xs @ y # ys) = xs"
  by (induction xs) auto

lemma dropWhile_stop: "\<forall>x\<in>set xs. P x \<Longrightarrow> \<not> P y \<Longrightarrow> dropWhile P (xs @ y # ys) = y # ys"
  by (induction xs) auto

lemma dropWhile_fix: "(xs = [] \<or> \<not> P (hd xs)) \<Longrightarrow> dropWhile P xs = xs"
  by (cases xs) auto

end
