(* ===== verification/Rust_Text.thy ===== *)
theory Rust_Text
  imports Fovea_Prelude
begin

text \<open>
  The part of Rust's \<open>str\<close>, \<open>char\<close> and integer parsing and formatting that the program
  uses. A \<open>str\<close> is the list of its Unicode scalar values, so \<open>chars()\<close> is the list itself;
  \<open>len()\<close> counts UTF-8 bytes and is \<open>byte_len\<close>. Positions that the code only uses to slice
  at a character it has just found are kept as list positions.
\<close>

section \<open>Characters and strings\<close>

type_synonym rchar = int
type_synonym str = "rchar list"

definition asc :: "string \<Rightarrow> str" where
  "asc s = map of_char s"

abbreviation ch :: "char \<Rightarrow> rchar" where
  "ch c \<equiv> of_char c"

lemma asc_simps [simp]: "asc [] = []" "asc (c # s) = ch c # asc s"
  by (simp_all add: asc_def)

declare asc_simps(2) [simp del]
lemmas asc_eval [text_eval] = asc_simps

text \<open>\<open>char::is_whitespace\<close>: the Unicode property \<open>White_Space\<close>.\<close>

definition is_whitespace :: "rchar \<Rightarrow> bool" where
  "is_whitespace c \<longleftrightarrow> 9 \<le> c \<and> c \<le> 13 \<or> c = 32 \<or> c = 133 \<or> c = 160 \<or> c = 5760
     \<or> 8192 \<le> c \<and> c \<le> 8202 \<or> c = 8232 \<or> c = 8233 \<or> c = 8239 \<or> c = 8287 \<or> c = 12288"

definition trim_start :: "str \<Rightarrow> str" where
  "trim_start s = dropWhile is_whitespace s"

definition trim_end :: "str \<Rightarrow> str" where
  "trim_end s = rev (dropWhile is_whitespace (rev s))"

definition trim :: "str \<Rightarrow> str" where
  "trim s = trim_end (trim_start s)"

lemmas trim_eval [text_eval] = is_whitespace_def trim_start_def trim_end_def trim_def

definition no_ws :: "str \<Rightarrow> bool" where
  "no_ws s \<longleftrightarrow> (\<forall>c\<in>set s. \<not> is_whitespace c)"

lemma no_ws_simps [simp]:
  "no_ws []" "no_ws (c # s) \<longleftrightarrow> \<not> is_whitespace c \<and> no_ws s" "no_ws (s @ t) \<longleftrightarrow> no_ws s \<and> no_ws t"
  by (auto simp: no_ws_def)

lemma is_whitespace_consts [simp]:
  "is_whitespace 32" "is_whitespace 10" "is_whitespace 9" "is_whitespace 13"
  by (simp_all add: is_whitespace_def)

lemma dropWhile_no_ws [simp]: "no_ws s \<Longrightarrow> dropWhile is_whitespace s = s"
  by (cases s) auto

lemma no_ws_rev [simp]: "no_ws (rev s) = no_ws s"
  by (simp add: no_ws_def)

lemma trim_no_ws [simp]: "no_ws s \<Longrightarrow> trim s = s"
  by (simp add: trim_def trim_start_def trim_end_def)

lemma trim_start_id: "s = [] \<or> \<not> is_whitespace (hd s) \<Longrightarrow> trim_start s = s"
  by (cases s) (auto simp: trim_start_def)

lemma trim_end_id: "s = [] \<or> \<not> is_whitespace (last s) \<Longrightarrow> trim_end s = s"
  by (cases s rule: rev_cases) (auto simp: trim_end_def)

lemma trim_id: "s \<noteq> [] \<Longrightarrow> \<not> is_whitespace (hd s) \<Longrightarrow> \<not> is_whitespace (last s) \<Longrightarrow> trim s = s"
  by (simp add: trim_def trim_start_id trim_end_id)

lemma trim_snoc_ws: "is_whitespace c \<Longrightarrow> trim (s @ [c]) = trim s"
proof (cases "\<forall>d\<in>set s. is_whitespace d")
  case True
  moreover assume "is_whitespace c"
  ultimately show ?thesis
    by (auto simp: trim_def trim_start_def trim_end_def dropWhile_all dropWhile_eq_Nil_conv
        dest: set_dropWhileD)
next
  case False
  moreover assume "is_whitespace c"
  ultimately show ?thesis by (auto simp: trim_def trim_start_def trim_end_def)
qed

lemma trim_end_snoc [simp]:
  "trim_end (s @ [c]) = (if is_whitespace c then trim_end s else s @ [c])"
  by (simp add: trim_end_def)

lemma trim_end_all_ws: "\<forall>c\<in>set t. is_whitespace c \<Longrightarrow> trim_end (s @ t) = trim_end s"
  by (induction t rule: rev_induct) (auto simp flip: append_assoc)

lemma trim_Nil_iff: "trim s = [] \<longleftrightarrow> (\<forall>c\<in>set s. is_whitespace c)"
proof -
  have "trim_end t = [] \<longleftrightarrow> (\<forall>c\<in>set t. is_whitespace c)" for t
    by (auto simp: trim_end_def dropWhile_eq_Nil_conv)
  moreover have "(\<forall>c\<in>set (trim_start s). is_whitespace c) \<longleftrightarrow> (\<forall>c\<in>set s. is_whitespace c)"
    by (induction s) (auto simp: trim_start_def)
  ultimately show ?thesis by (simp add: trim_def)
qed

text \<open>\<open>str::split_whitespace\<close>: the maximal runs of non-white characters.\<close>

fun split_whitespace :: "str \<Rightarrow> str list" where
  "split_whitespace [] = []"
| "split_whitespace (c # cs) =
     (if is_whitespace c then split_whitespace cs
      else case cs of
          [] \<Rightarrow> [[c]]
        | d # ds \<Rightarrow> if is_whitespace d then [c] # split_whitespace cs
            else (case split_whitespace cs of [] \<Rightarrow> [[c]] | t # ts \<Rightarrow> (c # t) # ts))"

lemma split_whitespace_token:
  "t \<noteq> [] \<Longrightarrow> no_ws t \<Longrightarrow> is_whitespace c \<Longrightarrow>
     split_whitespace (t @ c # s) = t # split_whitespace s"
proof (induction t)
  case (Cons a t)
  then show ?case by (cases t) auto
qed simp

lemma split_whitespace_last: "t \<noteq> [] \<Longrightarrow> no_ws t \<Longrightarrow> split_whitespace t = [t]"
proof (induction t)
  case (Cons a t)
  then show ?case by (cases t) auto
qed simp

lemma split_whitespace_skip: "\<forall>c\<in>set w. is_whitespace c \<Longrightarrow> split_whitespace (w @ s) = split_whitespace s"
  by (induction w) auto

lemma split_whitespace_tokens: "t \<in> set (split_whitespace s) \<Longrightarrow> t \<noteq> [] \<and> no_ws t"
proof (induction s arbitrary: t)
  case (Cons c cs)
  then show ?case
    by (cases "split_whitespace cs"; cases cs) (auto split: if_splits)
qed simp

lemma split_whitespace_Nil_iff: "split_whitespace s = [] \<longleftrightarrow> (\<forall>c\<in>set s. is_whitespace c)"
proof (induction s)
  case (Cons c cs)
  then show ?case by (cases "split_whitespace cs"; cases cs) auto
qed simp

lemma split_whitespace_fields_append:
  assumes "s \<noteq> []" "is_whitespace (hd s)"
  shows "\<forall>f\<in>set fs. f \<noteq> [] \<and> no_ws f \<Longrightarrow>
    split_whitespace (concat (map (\<lambda>f. 32 # f) fs) @ s) = fs @ split_whitespace s"
proof (induction fs)
  case (Cons f fs)
  obtain c t where "concat (map (\<lambda>f. 32 # f) fs) @ s = c # t" "is_whitespace c"
    using assms by (cases fs; cases s) auto
  with Cons show ?case using split_whitespace_token [of f c t] by simp
qed simp

lemma split_whitespace_fields:
  "\<forall>f\<in>set fs. f \<noteq> [] \<and> no_ws f \<Longrightarrow> split_whitespace (concat (map (\<lambda>f. 32 # f) fs)) = fs"
proof (cases fs rule: rev_cases)
  case (snoc gs g)
  moreover assume "\<forall>f\<in>set fs. f \<noteq> [] \<and> no_ws f"
  ultimately show ?thesis
    using split_whitespace_fields_append [of "32 # g" gs] by (simp add: split_whitespace_last)
qed simp

text \<open>\<open>str::split_inclusive\<close> on the newline and \<open>str::lines\<close>: a line ends at a newline, one
  carriage return before that newline is dropped, and the text after the last newline is a
  line of its own only when it is not empty.\<close>

fun split_inclusive_nl :: "str \<Rightarrow> str list" where
  "split_inclusive_nl [] = []"
| "split_inclusive_nl (c # cs) =
     (if c = 10 then [c] # split_inclusive_nl cs
      else case split_inclusive_nl cs of [] \<Rightarrow> [[c]] | l # ls \<Rightarrow> (c # l) # ls)"

definition strip_line_end :: "str \<Rightarrow> str" where
  "strip_line_end l =
     (if l \<noteq> [] \<and> last l = 10
      then (let m = butlast l in if m \<noteq> [] \<and> last m = 13 then butlast m else m)
      else l)"

definition lines :: "str \<Rightarrow> str list" where
  "lines s = map strip_line_end (split_inclusive_nl s)"

lemmas lines_eval [text_eval] = lines_def strip_line_end_def

definition plain_line :: "str \<Rightarrow> bool" where
  "plain_line l \<longleftrightarrow> 10 \<notin> set l \<and> (l = [] \<or> last l \<noteq> 13)"

lemma split_inclusive_nl_line:
  "10 \<notin> set l \<Longrightarrow> split_inclusive_nl (l @ 10 # s) = (l @ [10]) # split_inclusive_nl s"
  by (induction l) auto

lemma lines_Cons_line: "plain_line l \<Longrightarrow> lines (l @ 10 # s) = l # lines s"
  by (auto simp: lines_def plain_line_def split_inclusive_nl_line strip_line_end_def Let_def)

lemma lines_Nil [simp]: "lines [] = []"
  by (simp add: lines_def)

lemma lines_concat: "\<forall>l\<in>set ls. plain_line l \<Longrightarrow> lines (concat (map (\<lambda>l. l @ [10]) ls)) = ls"
  by (induction ls) (auto simp: lines_Cons_line)

text \<open>Prefixes, searches and splits.\<close>

definition starts_with :: "str \<Rightarrow> str \<Rightarrow> bool" where
  "starts_with p s \<longleftrightarrow> take (length p) s = p"

definition strip_prefix :: "str \<Rightarrow> str \<Rightarrow> str option" where
  "strip_prefix p s = (if starts_with p s then Some (drop (length p) s) else None)"

lemmas prefix_eval [text_eval] = starts_with_def strip_prefix_def

lemma strip_prefix_append [simp]: "strip_prefix p (p @ s) = Some s"
  by (simp add: strip_prefix_def starts_with_def)

lemma strip_prefix_Some_iff: "strip_prefix p s = Some r \<longleftrightarrow> s = p @ r"
  by (auto simp: strip_prefix_def starts_with_def) (metis append_take_drop_id)

fun find_char :: "rchar \<Rightarrow> str \<Rightarrow> nat option" where
  "find_char c [] = None"
| "find_char c (d # s) = (if d = c then Some 0 else map_option Suc (find_char c s))"

definition rfind_char :: "rchar \<Rightarrow> str \<Rightarrow> nat option" where
  "rfind_char c s = map_option (\<lambda>i. length s - 1 - i) (find_char c (rev s))"

lemma find_char_None_iff: "find_char c s = None \<longleftrightarrow> c \<notin> set s"
  by (induction s) auto

lemma find_char_append: "c \<notin> set p \<Longrightarrow> find_char c (p @ c # s) = Some (length p)"
  by (induction p) auto

lemma rfind_char_append: "c \<notin> set s \<Longrightarrow> rfind_char c (p @ c # s) = Some (length p)"
  using find_char_append [of c "rev s" "rev p"] by (simp add: rfind_char_def)

lemma rfind_char_None_iff: "rfind_char c s = None \<longleftrightarrow> c \<notin> set s"
  by (simp add: rfind_char_def find_char_None_iff)

text \<open>\<open>split_once\<close> and the two uses of \<open>splitn\<close>: at most \<open>n\<close> fields, the last one unsplit.\<close>

definition split_once :: "rchar \<Rightarrow> str \<Rightarrow> (str \<times> str) option" where
  "split_once c s = map_option (\<lambda>i. (take i s, drop (Suc i) s)) (find_char c s)"

fun splitn :: "nat \<Rightarrow> rchar \<Rightarrow> str \<Rightarrow> str list" where
  "splitn 0 c s = []"
| "splitn (Suc 0) c s = [s]"
| "splitn (Suc (Suc n)) c s =
     (case split_once c s of None \<Rightarrow> [s] | Some (a, b) \<Rightarrow> a # splitn (Suc n) c b)"

lemmas split_eval [text_eval] = split_once_def rfind_char_def

lemma split_once_append [simp]: "c \<notin> set p \<Longrightarrow> split_once c (p @ c # s) = Some (p, s)"
  by (simp add: split_once_def find_char_append)

lemma split_once_None_iff: "split_once c s = None \<longleftrightarrow> c \<notin> set s"
  by (simp add: split_once_def find_char_None_iff)

text \<open>\<open>nth\<close> of an iterator or \<open>slice::get\<close>: \<open>None\<close> out of range.\<close>

definition get_at :: "'a list \<Rightarrow> nat \<Rightarrow> 'a option" where
  "get_at xs i = (if i < length xs then Some (xs ! i) else None)"

declare get_at_def [text_eval]

end
