(* ===== verification/Rust_Utf8.thy ===== *)
theory Rust_Utf8
  imports Rust_Text
begin

text \<open>
  UTF-8 as the standard library reads and writes it: the encoding of a scalar value,
  \<open>str::len\<close>, the chunk decoder behind \<open>str::from_utf8\<close> and \<open>String::from_utf8_lossy\<close> (one
  U+FFFD per maximal ill-formed prefix), and \<open>is_char_boundary\<close>. The round-trip lemmas
  show that lossy decoding is the identity exactly on well-formed input.
\<close>

section \<open>Encoding\<close>

type_synonym bytes = "u8 list"

definition scalar :: "rchar \<Rightarrow> bool" where
  "scalar c \<longleftrightarrow> 0 \<le> c \<and> c < 55296 \<or> 57344 \<le> c \<and> c < 1114112"

definition valid_str :: "str \<Rightarrow> bool" where
  "valid_str s \<longleftrightarrow> (\<forall>c\<in>set s. scalar c)"

definition char_width :: "rchar \<Rightarrow> nat" where
  "char_width c = (if c < 128 then 1 else if c < 2048 then 2 else if c < 65536 then 3 else 4)"

text \<open>\<open>str::len\<close>: the number of UTF-8 bytes.\<close>

definition byte_len :: "str \<Rightarrow> nat" where
  "byte_len s = sum_list (map char_width s)"

definition byte_of :: "int \<Rightarrow> u8" where
  "byte_of n = word_of_int n"

definition encode_char :: "rchar \<Rightarrow> bytes" where
  "encode_char c =
     (if c < 128 then [byte_of c]
      else if c < 2048 then [byte_of (192 + c div 64), byte_of (128 + c mod 64)]
      else if c < 65536 then
        [byte_of (224 + c div 4096), byte_of (128 + c div 64 mod 64), byte_of (128 + c mod 64)]
      else
        [byte_of (240 + c div 262144), byte_of (128 + c div 4096 mod 64),
         byte_of (128 + c div 64 mod 64), byte_of (128 + c mod 64)])"

definition encode_utf8 :: "str \<Rightarrow> bytes" where
  "encode_utf8 s = concat (map encode_char s)"

section \<open>Decoding\<close>

text \<open>One step of the chunk decoder on a non-empty input: the scalar value it reads, or
  \<open>None\<close> for an ill-formed sequence, and the number of bytes that belong to it. A missing byte
  is read as 0, which continues nothing.\<close>

definition peek :: "bytes \<Rightarrow> nat \<Rightarrow> int" where
  "peek bs i = (if i < length bs then uint (bs ! i) else 0)"

definition continuation :: "int \<Rightarrow> bool" where
  "continuation b \<longleftrightarrow> 128 \<le> b \<and> b \<le> 191"

definition second_ok3 :: "int \<Rightarrow> int \<Rightarrow> bool" where
  "second_ok3 a b \<longleftrightarrow> continuation b \<and> (a = 224 \<longrightarrow> 160 \<le> b) \<and> (a = 237 \<longrightarrow> b \<le> 159)"

definition second_ok4 :: "int \<Rightarrow> int \<Rightarrow> bool" where
  "second_ok4 a b \<longleftrightarrow> continuation b \<and> (a = 240 \<longrightarrow> 144 \<le> b) \<and> (a = 244 \<longrightarrow> b \<le> 143)"

definition utf8_step :: "bytes \<Rightarrow> rchar option \<times> nat" where
  "utf8_step bs =
     (let a = peek bs 0; b = peek bs 1; c = peek bs 2; d = peek bs 3
      in if a < 128 then (Some a, 1)
         else if 194 \<le> a \<and> a \<le> 223 then
           (if continuation b then (Some ((a - 192) * 64 + (b - 128)), 2) else (None, 1))
         else if 224 \<le> a \<and> a \<le> 239 then
           (if \<not> second_ok3 a b then (None, 1)
            else if \<not> continuation c then (None, 2)
            else (Some ((a - 224) * 4096 + (b - 128) * 64 + (c - 128)), 3))
         else if 240 \<le> a \<and> a \<le> 244 then
           (if \<not> second_ok4 a b then (None, 1)
            else if \<not> continuation c then (None, 2)
            else if \<not> continuation d then (None, 3)
            else (Some ((a - 240) * 262144 + (b - 128) * 4096 + (c - 128) * 64 + (d - 128)), 4))
         else (None, 1))"

lemma utf8_step_pos: "0 < snd (utf8_step bs)"
  by (simp add: utf8_step_def Let_def)

function utf8_chunks :: "bytes \<Rightarrow> rchar option list" where
  "utf8_chunks bs =
     (if bs = [] then [] else fst (utf8_step bs) # utf8_chunks (drop (snd (utf8_step bs)) bs))"
  by pat_completeness auto
termination
  by (relation "measure length") (auto simp: utf8_step_pos)

declare utf8_chunks.simps [simp del]

definition replacement :: rchar where
  "replacement = 65533"

lemma utf8_chunks_Nil [simp]: "utf8_chunks [] = []"
  by (simp add: utf8_chunks.simps)

text \<open>\<open>String::from_utf8_lossy\<close> and \<open>str::from_utf8\<close>.\<close>

definition from_utf8_lossy :: "bytes \<Rightarrow> str" where
  "from_utf8_lossy bs = map (\<lambda>c. case c of None \<Rightarrow> replacement | Some x \<Rightarrow> x) (utf8_chunks bs)"

definition is_utf8 :: "bytes \<Rightarrow> bool" where
  "is_utf8 bs \<longleftrightarrow> None \<notin> set (utf8_chunks bs)"

definition from_utf8 :: "bytes \<Rightarrow> str option" where
  "from_utf8 bs = (if is_utf8 bs then Some (from_utf8_lossy bs) else None)"

lemmas utf8_eval [text_eval] = peek_def continuation_def second_ok3_def second_ok4_def
  utf8_step_def utf8_chunks.simps from_utf8_lossy_def is_utf8_def from_utf8_def replacement_def
  char_width_def byte_len_def encode_char_def encode_utf8_def byte_of_def

section \<open>Round trips\<close>

lemma uint_byte_of: "0 \<le> n \<Longrightarrow> n < 256 \<Longrightarrow> uint (byte_of n) = n"
  by (simp add: byte_of_def uint_word_of_int_eq take_bit_int_eq_self)

lemma byte_of_uint [simp]: "byte_of (uint b) = b"
  by (simp add: byte_of_def)

lemma byte_range: "0 \<le> uint (b :: u8) \<and> uint b < 256"
  using uint_bounded [of b] by simp

lemma length_encode_char [simp]: "length (encode_char c) = char_width c"
  by (simp add: encode_char_def char_width_def)

lemma length_encode_utf8: "length (encode_utf8 s) = byte_len s"
  by (simp add: encode_utf8_def byte_len_def length_concat o_def)

lemma byte_len_simps [simp]:
  "byte_len [] = 0" "byte_len (c # s) = char_width c + byte_len s"
  "byte_len (s @ t) = byte_len s + byte_len t"
  by (simp_all add: byte_len_def)

lemma char_width_bounds: "1 \<le> char_width c \<and> char_width c \<le> 4"
  by (simp add: char_width_def)

lemma byte_len_ge_length: "length s \<le> byte_len s"
proof (induction s)
  case (Cons c s)
  then show ?case using char_width_bounds [of c] by simp
qed simp

lemma peek_simps [simp]:
  "peek (b # bs) 0 = uint b" "peek (b # bs) (Suc n) = peek bs n"
  by (simp_all add: peek_def)

lemma peek_numerals [simp]:
  "peek (b # bs) 1 = peek bs 0" "peek (b # bs) 2 = peek bs 1" "peek (b # bs) 3 = peek bs 2"
  by (simp_all add: numeral_2_eq_2 numeral_3_eq_3)

lemma utf8_step_encode:
  assumes "scalar c"
  shows "utf8_step (encode_char c @ bs) = (Some c, char_width c)"
proof -
  consider (w1) "0 \<le> c" "c < 128" | (w2) "128 \<le> c" "c < 2048"
    | (w3) "2048 \<le> c" "c < 65536" | (w4) "65536 \<le> c" "c < 1114112"
    using assms unfolding scalar_def by linarith
  then show ?thesis
  proof cases
    case w1
    then show ?thesis by (simp add: encode_char_def utf8_step_def char_width_def uint_byte_of)
  next
    case w2
    then have "uint (byte_of (192 + c div 64)) = 192 + c div 64" "194 \<le> 192 + c div 64"
      "192 + c div 64 \<le> 223" "uint (byte_of (128 + c mod 64)) = 128 + c mod 64"
      by (auto simp: uint_byte_of)
    with w2 show ?thesis
      by (simp add: encode_char_def utf8_step_def char_width_def continuation_def)
  next
    case w3
    define q where "q = c div 64"
    have q: "c div 4096 = q div 64" by (simp add: q_def div_mult2_eq [symmetric])
    have qr: "32 \<le> q" "q < 1024" and sur: "q < 864 \<or> 896 \<le> q"
      using w3 assms by (auto simp: q_def scalar_def)
    have "uint (byte_of (224 + q div 64)) = 224 + q div 64" "224 + q div 64 \<le> 239"
      "uint (byte_of (128 + q mod 64)) = 128 + q mod 64"
      "uint (byte_of (128 + c mod 64)) = 128 + c mod 64"
      using qr by (auto simp: uint_byte_of)
    moreover have "second_ok3 (224 + q div 64) (128 + q mod 64)"
      using qr sur unfolding second_ok3_def continuation_def by presburger
    moreover have "q div 64 * 4096 + q mod 64 * 64 + c mod 64 = c"
      unfolding q_def by presburger
    moreover have "0 \<le> q div 64" "c mod 64 \<le> 63"
      using qr by (simp, presburger)
    ultimately show ?thesis using w3 qr
      by (simp add: encode_char_def utf8_step_def char_width_def continuation_def Let_def q
          flip: q_def)
  next
    case w4
    define q where "q = c div 64"
    define p where "p = q div 64"
    have e: "c div 4096 = p" "c div 262144 = p div 64"
      by (simp_all add: p_def q_def div_mult2_eq [symmetric])
    have pr: "16 \<le> p" "p < 272" using w4 by (auto simp: p_def q_def)
    have "uint (byte_of (240 + p div 64)) = 240 + p div 64" "240 + p div 64 \<le> 244"
      "uint (byte_of (128 + p mod 64)) = 128 + p mod 64"
      "uint (byte_of (128 + q mod 64)) = 128 + q mod 64"
      "uint (byte_of (128 + c mod 64)) = 128 + c mod 64"
      using pr by (auto simp: uint_byte_of)
    moreover have "second_ok4 (240 + p div 64) (128 + p mod 64)"
      using pr unfolding second_ok4_def continuation_def by presburger
    moreover have "p div 64 * 262144 + p mod 64 * 4096 + q mod 64 * 64 + c mod 64 = c"
      unfolding p_def q_def by presburger
    moreover have "0 \<le> p div 64" "c mod 64 \<le> 63" "q mod 64 \<le> 63"
      using pr by (simp, presburger, presburger)
    ultimately show ?thesis using w4 pr
      by (simp add: encode_char_def utf8_step_def char_width_def continuation_def Let_def e
          flip: q_def)
  qed
qed

lemma encode_char_nonempty [simp]: "encode_char c \<noteq> []"
  by (simp add: encode_char_def)

lemma utf8_chunks_encode_Cons:
  "scalar c \<Longrightarrow> utf8_chunks (encode_char c @ bs) = Some c # utf8_chunks bs"
  by (subst utf8_chunks.simps) (simp add: utf8_step_encode)

lemma utf8_chunks_encode: "valid_str s \<Longrightarrow> utf8_chunks (encode_utf8 s) = map Some s"
proof (induction s)
  case Nil
  show ?case by (simp add: encode_utf8_def utf8_chunks.simps)
next
  case (Cons c s)
  then show ?case by (simp add: encode_utf8_def utf8_chunks_encode_Cons valid_str_def)
qed

lemma from_utf8_encode [simp]: "valid_str s \<Longrightarrow> from_utf8 (encode_utf8 s) = Some s"
  by (auto simp: from_utf8_def is_utf8_def from_utf8_lossy_def utf8_chunks_encode o_def)

text \<open>Conversely a well-formed chunk is the encoding of the scalar value it yields.\<close>

lemma continuation_peek: "continuation (peek bs i) \<Longrightarrow> i < length bs"
  by (auto simp: peek_def continuation_def split: if_splits)

lemma take_peek:
  "i < length bs \<Longrightarrow> take (Suc i) bs = take i bs @ [byte_of (peek bs i)]"
  by (simp add: peek_def take_Suc_conv_app_nth)

lemma peek_range: "0 \<le> peek bs i \<and> peek bs i < 256"
  using byte_range by (simp add: peek_def)

lemma split64: "0 \<le> b \<Longrightarrow> b < 64 \<Longrightarrow> (a * 64 + b) div 64 = a \<and> (a * 64 + b) mod 64 = b"
  for a b :: int
  by auto

lemma utf8_step_decode:
  assumes "bs \<noteq> []" "utf8_step bs = (Some c, n)"
  shows "scalar c \<and> n \<le> length bs \<and> encode_char c = take n bs"
proof -
  define x y z u where "x = peek bs 0" "y = peek bs (Suc 0)" "z = peek bs 2" "u = peek bs 3"
  have l0: "0 < length bs" using assms by simp
  have t1: "take 1 bs = [byte_of x]" using take_peek [OF l0] by (simp add: x_y_z_u_def)
  have t2: "continuation y \<Longrightarrow> take 2 bs = [byte_of x, byte_of y] \<and> 2 \<le> length bs"
    using take_peek [of 1 bs] t1 continuation_peek [of bs 1]
    by (simp add: x_y_z_u_def numeral_2_eq_2)
  have t3: "continuation y \<Longrightarrow> continuation z \<Longrightarrow>
      take 3 bs = [byte_of x, byte_of y, byte_of z] \<and> 3 \<le> length bs"
    using take_peek [of 2 bs] t2 continuation_peek [of bs 2]
    by (simp add: x_y_z_u_def numeral_3_eq_3 numeral_2_eq_2)
  have t4: "continuation y \<Longrightarrow> continuation z \<Longrightarrow> continuation u \<Longrightarrow>
      take 4 bs = [byte_of x, byte_of y, byte_of z, byte_of u] \<and> 4 \<le> length bs"
    using take_peek [of 3 bs] t3 continuation_peek [of bs 3]
    by (simp add: x_y_z_u_def eval_nat_numeral)
  have x: "0 \<le> x" using peek_range by (simp add: x_y_z_u_def)
  consider (w1) "x < 128" "c = x" "n = 1"
    | (w2) "194 \<le> x" "x \<le> 223" "continuation y" "c = (x - 192) * 64 + (y - 128)" "n = 2"
    | (w3) "224 \<le> x" "x \<le> 239" "second_ok3 x y" "continuation z"
        "c = (x - 224) * 4096 + (y - 128) * 64 + (z - 128)" "n = 3"
    | (w4) "240 \<le> x" "x \<le> 244" "second_ok4 x y" "continuation z" "continuation u"
        "c = (x - 240) * 262144 + (y - 128) * 4096 + (z - 128) * 64 + (u - 128)" "n = 4"
    using assms(2) by (simp add: utf8_step_def Let_def flip: x_y_z_u_def split: if_splits)
  then show ?thesis
  proof cases
    case w1
    with x t1 l0 show ?thesis by (simp add: scalar_def encode_char_def Suc_le_eq)
  next
    case w2
    have "c div 64 = x - 192 \<and> c mod 64 = y - 128"
      using w2 by (simp only: w2(4)) (rule split64, simp_all add: continuation_def)
    moreover have "128 \<le> c" "c < 2048" using w2 by (auto simp: continuation_def)
    ultimately show ?thesis using w2 t2 by (simp add: scalar_def encode_char_def)
  next
    case w3
    then have y: "continuation y" by (simp add: second_ok3_def)
    define q where "q = (x - 224) * 64 + (y - 128)"
    have c: "c = q * 64 + (z - 128)" by (simp add: q_def w3)
    have "c div 64 = q \<and> c mod 64 = z - 128"
      unfolding c using w3 by (intro split64) (simp_all add: continuation_def)
    moreover have "q div 64 = x - 224 \<and> q mod 64 = y - 128"
      unfolding q_def using y by (intro split64) (simp_all add: continuation_def)
    moreover have "c div 4096 = c div 64 div 64" by (simp add: div_mult2_eq [symmetric])
    moreover have "2048 \<le> c" "c < 65536"
      using w3 y by (auto simp: continuation_def second_ok3_def)
    moreover have "c < 55296 \<or> 57344 \<le> c"
    proof (cases "x \<le> 236 \<or> 238 \<le> x")
      case True
      with w3 y show ?thesis by (auto simp: continuation_def)
    next
      case False
      then have "x = 237" by simp
      with w3 y show ?thesis by (simp add: continuation_def second_ok3_def)
    qed
    ultimately show ?thesis using w3 t3 y by (auto simp: encode_char_def scalar_def)
  next
    case w4
    then have y: "continuation y" by (simp add: second_ok4_def)
    define p where "p = (x - 240) * 64 + (y - 128)"
    define q where "q = p * 64 + (z - 128)"
    have c: "c = q * 64 + (u - 128)" by (simp add: q_def p_def w4)
    have "c div 64 = q \<and> c mod 64 = u - 128"
      unfolding c using w4 by (intro split64) (simp_all add: continuation_def)
    moreover have "q div 64 = p \<and> q mod 64 = z - 128"
      unfolding q_def using w4 by (intro split64) (simp_all add: continuation_def)
    moreover have "p div 64 = x - 240 \<and> p mod 64 = y - 128"
      unfolding p_def using y by (intro split64) (simp_all add: continuation_def)
    moreover have "c div 4096 = c div 64 div 64" "c div 262144 = c div 64 div 64 div 64"
      by (simp_all add: div_mult2_eq [symmetric])
    moreover have lo: "65536 \<le> c"
      using w4 y by (cases "x = 240") (simp_all add: continuation_def second_ok4_def)
    ultimately have e: "encode_char c = [byte_of x, byte_of y, byte_of z, byte_of u]"
      by (simp add: encode_char_def)
    have hi: "c < 1114112"
      using w4 y by (cases "x = 244") (simp_all add: continuation_def second_ok4_def)
    from t4 y w4(4,5) have "take n bs = [byte_of x, byte_of y, byte_of z, byte_of u]" "n \<le> length bs"
      by (simp_all add: w4(7))
    with e lo hi show ?thesis by (simp add: scalar_def)
  qed
qed

lemma is_utf8_decode:
  "is_utf8 bs \<Longrightarrow> valid_str (from_utf8_lossy bs) \<and> encode_utf8 (from_utf8_lossy bs) = bs"
proof (induction bs rule: utf8_chunks.induct)
  case (1 bs)
  show ?case
  proof (cases "bs = []")
    case True
    then show ?thesis
      by (simp add: from_utf8_lossy_def valid_str_def encode_utf8_def)
  next
    case False
    let ?n = "snd (utf8_step bs)"
    have ch: "utf8_chunks bs = fst (utf8_step bs) # utf8_chunks (drop ?n bs)"
      using False by (subst utf8_chunks.simps) simp
    from "1.prems" ch obtain c where c: "fst (utf8_step bs) = Some c" and r: "is_utf8 (drop ?n bs)"
      by (cases "fst (utf8_step bs)") (auto simp: is_utf8_def)
    have "scalar c \<and> ?n \<le> length bs \<and> encode_char c = take ?n bs"
      using False c by (intro utf8_step_decode) (simp_all add: prod_eq_iff)
    with "1.IH" [OF False r] ch c show ?thesis
      by (simp add: from_utf8_lossy_def valid_str_def encode_utf8_def)
  qed
qed

lemma from_utf8_lossy_valid: "valid_str (from_utf8_lossy bs)"
proof (induction bs rule: utf8_chunks.induct)
  case (1 bs)
  show ?case
  proof (cases "bs = []")
    case False
    then have "scalar (case fst (utf8_step bs) of None \<Rightarrow> replacement | Some x \<Rightarrow> x)"
      using utf8_step_decode [OF False]
      by (auto simp: replacement_def scalar_def prod_eq_iff split: option.split)
    with 1 [OF False] False show ?thesis
      by (simp add: from_utf8_lossy_def valid_str_def utf8_chunks.simps [of bs])
  qed (simp add: from_utf8_lossy_def valid_str_def)
qed

lemma from_utf8_Some: "from_utf8 bs = Some s \<longleftrightarrow> valid_str s \<and> encode_utf8 s = bs"
  using is_utf8_decode [of bs] from_utf8_encode [of s] by (auto simp: from_utf8_def split: if_splits)

lemma is_utf8_iff: "is_utf8 bs \<longleftrightarrow> (\<exists>s. valid_str s \<and> encode_utf8 s = bs)"
  using from_utf8_Some by (metis from_utf8_def option.distinct(1))

end
