(* ===== verification/Rust_Float.thy ===== *)
theory Rust_Float
  imports Complex_Main "HOL-Library.Log_Nat"
begin

text \<open>
  IEEE 754 binary32 and binary64 arithmetic as Rust's \<open>f32\<close> and \<open>f64\<close> use it: every operation
  is the exact rational result, rounded to the nearest representable value with ties to even,
  and an infinity beyond the range. Only the sign of a zero is not represented: no value the
  program computes is negative, and nothing it does tells the two zeros apart.
\<close>

section \<open>Rounding\<close>

definition pow2 :: "int \<Rightarrow> rat" where
  "pow2 k = (if 0 \<le> k then 2 ^ nat k else 1 / 2 ^ nat (- k))"

text \<open>The exponent \<open>e\<close> with \<open>2^e \<le> x < 2^(e+1)\<close>, for a positive \<open>x\<close>.\<close>

definition exponent :: "rat \<Rightarrow> int" where
  "exponent x =
     (case quotient_of x of (n, d) \<Rightarrow>
        (let k = bitlen n - bitlen d in if pow2 k \<le> x then k else k - 1))"

definition round_half_even :: "rat \<Rightarrow> int" where
  "round_half_even x =
     (let f = \<lfloor>x\<rfloor>; r = x - of_int f
      in if r < 1 / 2 then f else if 1 / 2 < r then f + 1 else if even f then f else f + 1)"

record float_format =
  precision :: int   \<comment> \<open>bits of the significand\<close>
  min_exp :: int     \<comment> \<open>exponent of the least positive value\<close>
  max_exp :: int     \<comment> \<open>every finite value is below 2 to this power\<close>

definition binary32 :: float_format where
  "binary32 = \<lparr>precision = 24, min_exp = -149, max_exp = 128\<rparr>"

definition binary64 :: float_format where
  "binary64 = \<lparr>precision = 53, min_exp = -1074, max_exp = 1024\<rparr>"

definition quantum :: "float_format \<Rightarrow> rat \<Rightarrow> int" where
  "quantum fmt x = max (exponent x - precision fmt + 1) (min_exp fmt)"

definition round_pos :: "float_format \<Rightarrow> rat \<Rightarrow> rat" where
  "round_pos fmt x = (let q = pow2 (quantum fmt x) in of_int (round_half_even (x / q)) * q)"

definition round_rat :: "float_format \<Rightarrow> rat \<Rightarrow> rat" where
  "round_rat fmt x =
     (if x = 0 then 0 else if 0 < x then round_pos fmt x else - round_pos fmt (- x))"

section \<open>Values and operations\<close>

datatype fl = Fin rat | PInf | NInf | NaN

definition to_float :: "float_format \<Rightarrow> rat \<Rightarrow> fl" where
  "to_float fmt x =
     (let r = round_rat fmt x
      in if pow2 (max_exp fmt) \<le> r then PInf else if r \<le> - pow2 (max_exp fmt) then NInf else Fin r)"

fun fl_add :: "float_format \<Rightarrow> fl \<Rightarrow> fl \<Rightarrow> fl" where
  "fl_add fmt (Fin a) (Fin b) = to_float fmt (a + b)"
| "fl_add fmt NaN y = NaN"
| "fl_add fmt x NaN = NaN"
| "fl_add fmt PInf NInf = NaN"
| "fl_add fmt NInf PInf = NaN"
| "fl_add fmt PInf y = PInf"
| "fl_add fmt NInf y = NInf"
| "fl_add fmt x PInf = PInf"
| "fl_add fmt x NInf = NInf"

text \<open>Infinity with the sign of a rational, undefined for 0.\<close>

definition signed_inf :: "rat \<Rightarrow> fl" where
  "signed_inf s = (if s = 0 then NaN else if 0 < s then PInf else NInf)"

fun fl_sign :: "fl \<Rightarrow> rat" where
  "fl_sign (Fin a) = sgn a"
| "fl_sign PInf = 1"
| "fl_sign NInf = -1"
| "fl_sign NaN = 0"

fun fl_mul :: "float_format \<Rightarrow> fl \<Rightarrow> fl \<Rightarrow> fl" where
  "fl_mul fmt (Fin a) (Fin b) = to_float fmt (a * b)"
| "fl_mul fmt NaN y = NaN"
| "fl_mul fmt x NaN = NaN"
| "fl_mul fmt x y = signed_inf (fl_sign x * fl_sign y)"

fun fl_div :: "float_format \<Rightarrow> fl \<Rightarrow> fl \<Rightarrow> fl" where
  "fl_div fmt (Fin a) (Fin b) = (if b = 0 then signed_inf a else to_float fmt (a / b))"
| "fl_div fmt NaN y = NaN"
| "fl_div fmt x NaN = NaN"
| "fl_div fmt (Fin a) y = Fin 0"
| "fl_div fmt x (Fin b) = signed_inf (fl_sign x * (if b < 0 then -1 else 1))"
| "fl_div fmt x y = NaN"

text \<open>\<open>as f32\<close> and \<open>as f64\<close> from an integer and from a float, \<open>is_finite\<close>, \<open>clamp\<close>.\<close>

definition fl_of_int :: "float_format \<Rightarrow> int \<Rightarrow> fl" where
  "fl_of_int fmt n = to_float fmt (of_int n)"

fun fl_cast :: "float_format \<Rightarrow> fl \<Rightarrow> fl" where
  "fl_cast fmt (Fin a) = to_float fmt a"
| "fl_cast fmt x = x"

fun is_finite :: "fl \<Rightarrow> bool" where
  "is_finite (Fin a) = True"
| "is_finite x = False"

fun fl_less :: "fl \<Rightarrow> fl \<Rightarrow> bool" where
  "fl_less (Fin a) (Fin b) = (a < b)"
| "fl_less NaN y = False"
| "fl_less x NaN = False"
| "fl_less x NInf = False"
| "fl_less PInf y = False"
| "fl_less x y = True"

definition fl_le :: "fl \<Rightarrow> fl \<Rightarrow> bool" where
  "fl_le x y \<longleftrightarrow> fl_less x y \<or> x = y \<and> x \<noteq> NaN"

definition fl_clamp :: "fl \<Rightarrow> fl \<Rightarrow> fl \<Rightarrow> fl" where
  "fl_clamp x lo hi = (if fl_less x lo then lo else if fl_less hi x then hi else x)"

section \<open>Rounding is monotone and exact on representable values\<close>

lemma pow2_powi: "pow2 k = 2 powi k"
  by (simp add: pow2_def power_int_def inverse_eq_divide power_one_over)

lemma pow2_pos [simp]: "0 < pow2 k" "0 \<le> pow2 k" "pow2 k \<noteq> 0"
  by (simp_all add: pow2_powi)

lemma pow2_add: "pow2 (a + b) = pow2 a * pow2 b"
  by (simp add: pow2_powi power_int_add)

lemma pow2_diff: "pow2 (a - b) = pow2 a / pow2 b"
  by (simp add: pow2_powi power_int_diff)

lemma pow2_mono: "a \<le> b \<Longrightarrow> pow2 a \<le> pow2 b"
  by (simp add: pow2_powi power_int_increasing)

lemma pow2_less_iff: "pow2 a < pow2 b \<longleftrightarrow> a < b"
proof
  show "pow2 a < pow2 b \<Longrightarrow> a < b" using pow2_mono [of b a] by (meson not_le)
  show "a < b \<Longrightarrow> pow2 a < pow2 b" by (simp add: pow2_powi power_int_strict_increasing)
qed

lemma pow2_nat: "0 \<le> k \<Longrightarrow> pow2 k = of_int (2 ^ nat k)"
  by (simp add: pow2_def)

lemma bitlen_powi:
  assumes "0 < n"
  shows "pow2 (bitlen n - 1) \<le> of_int n" "of_int n < pow2 (bitlen n)"
proof -
  have b: "2 ^ nat (bitlen n - 1) \<le> n" "n < 2 ^ nat (bitlen n)" "0 < bitlen n"
    using bitlen_bounds [OF assms] bitlen_eq_zero_iff [of n] bitlen_nonneg [of n] assms by auto
  have "of_int (2 ^ nat (bitlen n - 1)) \<le> (of_int n :: rat)" using b(1) by (simp only: of_int_le_iff)
  moreover have "(of_int n :: rat) < of_int (2 ^ nat (bitlen n))" using b(2) by (simp only: of_int_less_iff)
  ultimately show "pow2 (bitlen n - 1) \<le> of_int n" "of_int n < pow2 (bitlen n)"
    using b(3) by (simp_all add: pow2_nat)
qed

lemma exponent_bounds:
  assumes "0 < x"
  shows "pow2 (exponent x) \<le> x" "x < pow2 (exponent x + 1)"
proof -
  obtain n d where q: "quotient_of x = (n, d)" by (cases "quotient_of x")
  have d: "0 < d" using quotient_of_denom_pos [OF q] .
  have x: "x = of_int n / of_int d" using quotient_of_div [OF q] .
  have n: "0 < n" using assms d by (simp add: x zero_less_divide_iff)
  define k where "k = bitlen n - bitlen d"
  have "x < pow2 (bitlen n) / pow2 (bitlen d - 1)"
    unfolding x using bitlen_powi [OF n] bitlen_powi [OF d] d n by (intro frac_less) auto
  then have up: "x < pow2 (k + 1)" by (simp add: k_def flip: pow2_diff) (simp add: algebra_simps)
  have "pow2 (bitlen n - 1) / pow2 (bitlen d) \<le> x"
    unfolding x using bitlen_powi [OF n] bitlen_powi [OF d] d n by (intro frac_le) auto
  then have lo: "pow2 (k - 1) \<le> x" by (simp add: k_def flip: pow2_diff) (simp add: algebra_simps)
  show "pow2 (exponent x) \<le> x" "x < pow2 (exponent x + 1)"
    using up lo by (auto simp: exponent_def q Let_def simp flip: k_def)
qed

lemma exponent_less: "0 < x \<Longrightarrow> x < pow2 k \<Longrightarrow> exponent x < k"
  using exponent_bounds(1) [of x] pow2_less_iff [of "exponent x" k] by linarith

lemma exponent_ge: "0 < x \<Longrightarrow> pow2 k \<le> x \<Longrightarrow> k \<le> exponent x"
  using exponent_bounds(2) [of x] pow2_less_iff [of k "exponent x + 1"] by linarith

lemma exponent_mono: "0 < x \<Longrightarrow> x \<le> y \<Longrightarrow> exponent x \<le> exponent y"
  using exponent_bounds(1) [of x] by (intro exponent_ge) auto

lemma round_half_even_int [simp]: "round_half_even (of_int n) = n"
  by (simp add: round_half_even_def)

lemma round_half_even_bounds: "\<lfloor>x\<rfloor> \<le> round_half_even x \<and> round_half_even x \<le> \<lfloor>x\<rfloor> + 1"
  by (simp add: round_half_even_def Let_def)

lemma round_half_even_mono: "x \<le> y \<Longrightarrow> round_half_even x \<le> round_half_even y"
proof -
  assume le: "x \<le> y"
  show ?thesis
  proof (cases "\<lfloor>x\<rfloor> = \<lfloor>y\<rfloor>")
    case True
    with le show ?thesis by (auto simp: round_half_even_def Let_def)
  next
    case False
    with floor_mono [OF le] have "\<lfloor>x\<rfloor> + 1 \<le> \<lfloor>y\<rfloor>" by linarith
    with round_half_even_bounds [of x] round_half_even_bounds [of y] show ?thesis by linarith
  qed
qed

text \<open>A value with a significand that fits and an exponent in range is rounded to itself.\<close>

definition representable :: "float_format \<Rightarrow> rat \<Rightarrow> bool" where
  "representable fmt x \<longleftrightarrow> (\<exists>m q. x = of_int m * pow2 q \<and> \<bar>x\<bar> < pow2 (precision fmt + q) \<and> min_exp fmt \<le> q)"

lemma round_pos_at: "quantum fmt x \<le> q \<Longrightarrow> y = of_int m * pow2 q \<Longrightarrow> 
    of_int (round_half_even (y / pow2 (quantum fmt x))) * pow2 (quantum fmt x) = y"
proof -
  assume q: "quantum fmt x \<le> q" and y: "y = of_int m * pow2 q"
  let ?u = "quantum fmt x"
  have "y / pow2 ?u = of_int m * pow2 (q - ?u)" by (simp add: y pow2_diff)
  also have "\<dots> = of_int (m * 2 ^ nat (q - ?u))" using q by (simp add: pow2_nat)
  finally have "round_half_even (y / pow2 ?u) = m * 2 ^ nat (q - ?u)"
    by (simp only: round_half_even_int)
  then have "of_int (round_half_even (y / pow2 ?u)) * pow2 ?u = of_int m * (pow2 (q - ?u) * pow2 ?u)"
    using q by (simp add: pow2_nat)
  then show ?thesis by (simp add: y flip: pow2_add)
qed

lemma round_pos_representable: "0 < x \<Longrightarrow> representable fmt x \<Longrightarrow> round_pos fmt x = x"
proof -
  assume x: "0 < x" and r: "representable fmt x"
  from r obtain m q where m: "x = of_int m * pow2 q" "x < pow2 (precision fmt + q)" "min_exp fmt \<le> q"
    using x by (auto simp: representable_def)
  from exponent_less [OF x m(2)] m(3) have "quantum fmt x \<le> q" by (simp add: quantum_def)
  from round_pos_at [OF this m(1)] show ?thesis by (simp add: round_pos_def Let_def)
qed

lemma round_pos_mono:
  assumes "0 < x" "x \<le> y" "0 < precision fmt"
  shows "round_pos fmt x \<le> round_pos fmt y"
proof (cases "quantum fmt x = quantum fmt y")
  case True
  with assms show ?thesis
    by (simp add: round_pos_def Let_def round_half_even_mono divide_right_mono)
next
  case False
  let ?e = "exponent x + 1"
  have exy: "exponent x \<le> exponent y" using exponent_mono assms by blast
  with False have less: "?e \<le> exponent y" and qx: "quantum fmt x \<le> exponent y"
    and qy: "quantum fmt y = exponent y - precision fmt + 1"
    using assms(3) by (auto simp: quantum_def max_def split: if_splits)
  have q_le: "quantum fmt x \<le> exponent y" "quantum fmt y \<le> exponent y"
    using qx qy assms(3) by auto
  have y0: "0 < y" using assms by linarith
  have "x \<le> pow2 (exponent y)"
    using exponent_bounds(2) [OF assms(1)] pow2_mono [OF less] by linarith
  then have "round_pos fmt x \<le> of_int (round_half_even (pow2 (exponent y) / pow2 (quantum fmt x)))
      * pow2 (quantum fmt x)"
    by (simp add: round_pos_def Let_def round_half_even_mono divide_right_mono)
  also have "\<dots> = pow2 (exponent y)"
    by (rule round_pos_at [OF q_le(1), where m = 1]) simp
  also have "\<dots> = of_int (round_half_even (pow2 (exponent y) / pow2 (quantum fmt y)))
      * pow2 (quantum fmt y)"
    by (rule round_pos_at [OF q_le(2), where m = 1, symmetric]) simp
  also have "\<dots> \<le> round_pos fmt y"
    using exponent_bounds(1) [OF y0]
    by (simp add: round_pos_def Let_def round_half_even_mono divide_right_mono)
  finally show ?thesis .
qed

lemma round_pos_nonneg: "0 < x \<Longrightarrow> 0 \<le> round_pos fmt x"
proof -
  assume "0 < x"
  then have "0 \<le> \<lfloor>x / pow2 (quantum fmt x)\<rfloor>" by simp
  with round_half_even_bounds [of "x / pow2 (quantum fmt x)"]
  have "0 \<le> round_half_even (x / pow2 (quantum fmt x))" by linarith
  then show ?thesis by (simp add: round_pos_def Let_def)
qed

lemma round_rat_mono:
  assumes "x \<le> y" "0 < precision fmt"
  shows "round_rat fmt x \<le> round_rat fmt y"
proof -
  consider "0 < x" | "x \<le> 0" "0 \<le> y" | "y < 0" using assms by linarith
  then show ?thesis
  proof cases
    case 1
    with assms show ?thesis by (simp add: round_rat_def round_pos_mono)
  next
    case 2
    then have "round_rat fmt x \<le> 0" "0 \<le> round_rat fmt y"
      using round_pos_nonneg [of "- x" fmt] round_pos_nonneg [of y fmt] by (auto simp: round_rat_def)
    then show ?thesis by linarith
  next
    case 3
    with assms round_pos_mono [of "- y" "- x" fmt] show ?thesis by (simp add: round_rat_def)
  qed
qed

lemma round_rat_representable: "representable fmt x \<Longrightarrow> round_rat fmt x = x"
proof -
  assume r: "representable fmt x"
  then have "representable fmt (- x)"
    unfolding representable_def by (metis abs_minus_cancel minus_mult_left of_int_minus)
  with r show ?thesis
    using round_pos_representable [of x fmt] round_pos_representable [of "- x" fmt]
    by (auto simp: round_rat_def)
qed

lemma round_rat_0 [simp]: "round_rat fmt 0 = 0"
  by (simp add: round_rat_def)

lemma round_rat_nonneg: "0 \<le> x \<Longrightarrow> 0 < precision fmt \<Longrightarrow> 0 \<le> round_rat fmt x"
  using round_rat_mono [of 0 x fmt] by simp

lemma representable_int:
  assumes "\<bar>n\<bar> < 2 ^ nat (precision fmt)" "0 \<le> precision fmt" "min_exp fmt \<le> 0"
  shows "representable fmt (of_int n)"
proof -
  have "(of_int \<bar>n\<bar> :: rat) < of_int (2 ^ nat (precision fmt))"
    using assms(1) by (simp only: of_int_less_iff)
  then have "\<bar>of_int n :: rat\<bar> < pow2 (precision fmt + 0)"
    using assms(2) by (simp add: pow2_nat)
  then show ?thesis using assms(3) unfolding representable_def
    by (intro exI [of _ n] exI [of _ 0]) (simp add: pow2_def)
qed

section \<open>Results of bounded operands are finite\<close>

lemma representable_pow2: "0 < precision fmt \<Longrightarrow> min_exp fmt \<le> k \<Longrightarrow> representable fmt (pow2 k)"
  unfolding representable_def
  by (intro exI [of _ 1] exI [of _ k]) (simp add: pow2_less_iff)

lemma to_float_le_pow2:
  assumes "0 \<le> x" "x \<le> pow2 k" "k < max_exp fmt" "min_exp fmt \<le> k" "0 < precision fmt"
  shows "\<exists>r. to_float fmt x = Fin r \<and> 0 \<le> r \<and> r \<le> pow2 k"
proof -
  from round_rat_mono [OF assms(2,5)] round_rat_representable [OF representable_pow2 [OF assms(5,4)]]
  have le: "round_rat fmt x \<le> pow2 k" by simp
  moreover have "pow2 k < pow2 (max_exp fmt)" using assms(3) by (simp add: pow2_less_iff)
  moreover have "0 \<le> round_rat fmt x" using round_rat_nonneg assms(1,5) by blast
  moreover have "- pow2 (max_exp fmt) < 0" by simp
  ultimately show ?thesis by (auto simp: to_float_def Let_def simp del: neg_less_0_iff_less)
qed

lemma binary64_bounds [simp]: "max_exp binary64 = 1024" "min_exp binary64 = - 1074" "0 < precision binary64"
  by (simp_all add: binary64_def)

lemma binary32_bounds [simp]: "max_exp binary32 = 128" "min_exp binary32 = - 149" "0 < precision binary32"
  by (simp_all add: binary32_def)

end
