(* ===== verification/Schema.thy ===== *)
theory Schema
  imports Rust_Utf8 Rust_Float
begin

text \<open>
  The data contract that crosses the host/guest boundary (\<open>crates/introspect-schema\<close>):
  \<open>Level0\<close> and everything in it, one record or datatype per Rust type, with the operations of
  \<open>RunState\<close> and \<open>SymbolConfidence\<close>. Fields carry a prefix of their type because record
  fields share one name space. A Rust \<open>f32\<close> is a value of \<open>fl\<close>.
\<close>

type_synonym f32 = fl

section \<open>Run states\<close>

datatype run_state = RS_R | RS_S | RS_D | RS_Z | RS_T | TracingStop | RS_X | RS_P | RS_I | Unknown rchar

fun as_char :: "run_state \<Rightarrow> rchar" where
  "as_char RS_R = ch CHR ''R''"
| "as_char RS_S = ch CHR ''S''"
| "as_char RS_D = ch CHR ''D''"
| "as_char RS_Z = ch CHR ''Z''"
| "as_char RS_T = ch CHR ''T''"
| "as_char TracingStop = ch CHR ''t''"
| "as_char RS_X = ch CHR ''X''"
| "as_char RS_P = ch CHR ''P''"
| "as_char RS_I = ch CHR ''I''"
| "as_char (Unknown c) = c"

definition from_char :: "rchar \<Rightarrow> run_state" where
  "from_char c =
     (if c = ch CHR ''R'' then RS_R
      else if c = ch CHR ''S'' then RS_S
      else if c = ch CHR ''D'' then RS_D
      else if c = ch CHR ''Z'' then RS_Z
      else if c = ch CHR ''T'' then RS_T
      else if c = ch CHR ''t'' then TracingStop
      else if c = ch CHR ''X'' then RS_X
      else if c = ch CHR ''P'' then RS_P
      else if c = ch CHR ''I'' then RS_I
      else Unknown c)"

text \<open>The states \<open>from_char\<close> can produce: \<open>Unknown\<close> never wraps a known character.\<close>

definition canonical_state :: "run_state \<Rightarrow> bool" where
  "canonical_state s \<longleftrightarrow> (\<forall>c. s = Unknown c \<longrightarrow> from_char c = Unknown c)"

lemma as_char_from_char [simp]: "as_char (from_char c) = c"
  by (simp add: from_char_def)

lemma from_char_canonical: "canonical_state (from_char c)"
  unfolding canonical_state_def by (metis as_char.simps(10) as_char_from_char)

lemma from_char_as_char: "canonical_state s \<Longrightarrow> from_char (as_char s) = s"
  by (cases s) (auto simp: canonical_state_def from_char_def)

lemma as_char_inj: "canonical_state s \<Longrightarrow> canonical_state t \<Longrightarrow> as_char s = as_char t \<longleftrightarrow> s = t"
  using from_char_as_char by metis

text \<open>The run state is coded as its character, whatever the format; the character codec of the format is
  a parameter.\<close>

definition run_state_serialize :: "(rchar \<Rightarrow> 'e + 'j) \<Rightarrow> run_state \<Rightarrow> 'e + 'j" where
  "run_state_serialize serialize_char state = serialize_char (as_char state)"

definition run_state_deserialize :: "('j \<Rightarrow> 'e + rchar) \<Rightarrow> 'j \<Rightarrow> 'e + run_state" where
  "run_state_deserialize deserialize_char input = rbind (deserialize_char input) (\<lambda>c. Inr (from_char c))"

lemma run_state_round_trip:
  assumes "run_state_serialize serialize_char state = Inr coded" "deserialize_char coded = Inr (as_char state)"
  shows "\<exists>state'. run_state_deserialize deserialize_char coded = Inr state' \<and> canonical_state state' \<and>
    as_char state' = as_char state \<and> (canonical_state state \<longrightarrow> state' = state)"
  using assms by (simp add: run_state_deserialize_def from_char_canonical from_char_as_char)

section \<open>Symbol confidence\<close>

datatype symbol_confidence = Dwarf | Kallsyms | Dynsym | Disasm | NoConfidence

fun score_rat :: "symbol_confidence \<Rightarrow> rat" where
  "score_rat Dwarf = 1"
| "score_rat Kallsyms = 3 / 4"
| "score_rat Dynsym = 1 / 2"
| "score_rat Disasm = 1 / 4"
| "score_rat NoConfidence = 0"

definition score :: "symbol_confidence \<Rightarrow> f32" where
  "score c = Fin (score_rat c)"

lemma score_rat_inj: "score_rat c = score_rat d \<longleftrightarrow> c = d"
  by (cases c; cases d) simp_all

lemma score_rat_bounds: "0 \<le> score_rat c" "score_rat c \<le> 1"
  by (cases c; simp)+

text \<open>The scores order the grades; \<open>Dwarf\<close> is the greatest.\<close>

instantiation symbol_confidence :: linorder
begin

definition less_eq_symbol_confidence :: "symbol_confidence \<Rightarrow> symbol_confidence \<Rightarrow> bool" where
  "less_eq_symbol_confidence c d \<longleftrightarrow> score_rat c \<le> score_rat d"

definition less_symbol_confidence :: "symbol_confidence \<Rightarrow> symbol_confidence \<Rightarrow> bool" where
  "less_symbol_confidence c d \<longleftrightarrow> score_rat c < score_rat d"

instance
  by standard (auto simp: less_eq_symbol_confidence_def less_symbol_confidence_def
      score_rat_inj [symmetric])

end

section \<open>Memory shape\<close>

datatype map_kind = Heap | Stack | Anon | File | XLib

text \<open>\<open>kind as i32\<close>: the discriminant, in declaration order.\<close>

fun kind_index :: "map_kind \<Rightarrow> int" where
  "kind_index Heap = 0"
| "kind_index Stack = 1"
| "kind_index Anon = 2"
| "kind_index File = 3"
| "kind_index XLib = 4"

lemma kind_index_inj: "kind_index k = kind_index l \<longleftrightarrow> k = l"
  by (cases k; cases l) simp_all

instantiation map_kind :: linorder
begin

definition less_eq_map_kind :: "map_kind \<Rightarrow> map_kind \<Rightarrow> bool" where
  "less_eq_map_kind k l \<longleftrightarrow> kind_index k \<le> kind_index l"

definition less_map_kind :: "map_kind \<Rightarrow> map_kind \<Rightarrow> bool" where
  "less_map_kind k l \<longleftrightarrow> kind_index k < kind_index l"

instance
  by standard (auto simp: less_eq_map_kind_def less_map_kind_def kind_index_inj [symmetric])

end

record map_kind_bucket =
  mb_kind :: map_kind
  mb_count :: u64
  mb_total_size :: u64

record top_map =
  tm_start :: str
  tm_end :: str
  tm_size :: u64
  tm_kind :: map_kind
  tm_backing :: "str option"

record mem_shape =
  ms_histogram :: "map_kind_bucket list"
  ms_top_n :: "top_map list"

section \<open>Identity, state and resources\<close>

record cmdline =
  cl_short :: str
  cl_full_len :: nat

record identity =
  id_pid :: i32
  id_comm :: str
  id_exe :: "str option"
  id_cmdline :: cmdline
  id_uid :: u32
  id_cgroup :: "str option"

record symbolized =
  sy_name :: str
  sy_source :: symbol_confidence

record proc_state =
  pr_run_state :: run_state
  pr_last_cpu :: u32
  pr_nr_threads :: u32
  pr_wchan :: "symbolized option"

record ctxt_switches =
  cs_voluntary :: u64
  cs_nonvoluntary :: u64

record resource =
  re_rss_bytes :: u64
  re_vsz_bytes :: u64
  re_nr_fds :: u32
  re_pct_cpu :: f32
  re_ctxt_switches :: ctxt_switches

section \<open>Hotspot, events, confidence\<close>

record stack_frame =
  sf_idx :: nat
  sf_addr :: str
  sf_symbol :: "symbolized option"
  sf_confidence :: "symbol_confidence option"

datatype hotspot = NotBlocked | Blocked "stack_frame list"

text \<open>A timestamp (\<open>chrono::DateTime<Utc>\<close>) is the number of nanoseconds since the epoch.\<close>

type_synonym timestamp = int

record recorder_event =
  ev_ts :: timestamp
  ev_type :: str

datatype recent_events = RecorderOff | EmptyEvents | Sample "recorder_event list"

record low_confidence_field =
  lf_path :: str
  lf_confidence :: "symbol_confidence option"
  lf_reason :: str

record confidence_summary =
  cf_overall :: f32
  cf_low_fields :: "low_confidence_field list"

section \<open>Handles, cost and the whole of Level 0\<close>

datatype handle = Handle str

record handles =
  ha_threads :: "handle option"
  ha_maps :: "handle option"
  ha_stack :: "handle option"
  ha_fds :: "handle option"
  ha_env :: "handle option"
  ha_symbols :: "handle option"

definition default_handles :: handles where
  "default_handles = \<lparr>ha_threads = None, ha_maps = None, ha_stack = None, ha_fds = None,
     ha_env = None, ha_symbols = None\<rparr>"

record cost_hint =
  ch_token :: u32
  ch_api_cost :: "f32 option"
  ch_overhead_est_ns :: u64

record level0 =
  l0_identity :: identity
  l0_state :: proc_state
  l0_resource :: resource
  l0_mem_shape :: mem_shape
  l0_hotspot :: hotspot
  l0_snapshot_span_ms :: u64
  l0_recent :: recent_events
  l0_confidence :: confidence_summary
  l0_handles :: handles
  l0_cost_hint :: cost_hint

datatype level1_view = ViewMaps | ViewThreads | ViewStack | ViewFds | ViewCmdline | ViewEnv | ViewSymbols

end
