(* ===== verification/Rust_Num.thy ===== *)
theory Rust_Num
  imports Rust_Text
begin

text \<open>
  Rust's integer parsing (\<open>from_str\<close>, \<open>from_str_radix\<close>) with its four error kinds, and the
  integer formats the program prints (\<open>{}\<close>, \<open>{:x}\<close>, \<open>{:016x}\<close>, \<open>{:#x}\<close>), with the round
  trips between the two.
\<close>

section \<open>Parsing\<close>

datatype int_error = IntEmpty | IntInvalidDigit | IntPosOverflow | IntNegOverflow

text \<open>The \<open>Display\<close> text of \<open>std::num::ParseIntError\<close>.\<close>

fun int_error_text :: "int_error \<Rightarrow> str" where
  "int_error_text IntEmpty = asc ''cannot parse integer from empty string''"
| "int_error_text IntInvalidDigit = asc ''invalid digit found in string''"
| "int_error_text IntPosOverflow = asc ''number too large to fit in target type''"
| "int_error_text IntNegOverflow = asc ''number too small to fit in target type''"

text \<open>\<open>char::to_digit\<close> for a radix up to 36.\<close>

definition to_digit :: "int \<Rightarrow> rchar \<Rightarrow> int option" where
  "to_digit r c =
     (let v = (if 48 \<le> c \<and> c \<le> 57 then c - 48
               else if 97 \<le> c \<and> c \<le> 122 then c - 87
               else if 65 \<le> c \<and> c \<le> 90 then c - 55 else r)
      in if v < r then Some v else None)"

text \<open>The digit loop: a character that is no digit is reported before an overflow at that
  character; the first failing character decides.\<close>

fun parse_digits :: "int \<Rightarrow> int \<Rightarrow> int \<Rightarrow> str \<Rightarrow> int_error + int" where
  "parse_digits r hi acc [] = Inr acc"
| "parse_digits r hi acc (c # cs) =
     (case to_digit r c of
        None \<Rightarrow> Inl IntInvalidDigit
      | Some d \<Rightarrow> if hi < acc * r + d then Inl IntPosOverflow else parse_digits r hi (acc * r + d) cs)"

fun parse_neg_digits :: "int \<Rightarrow> int \<Rightarrow> int \<Rightarrow> str \<Rightarrow> int_error + int" where
  "parse_neg_digits r lo acc [] = Inr acc"
| "parse_neg_digits r lo acc (c # cs) =
     (case to_digit r c of
        None \<Rightarrow> Inl IntInvalidDigit
      | Some d \<Rightarrow> if acc * r - d < lo then Inl IntNegOverflow else parse_neg_digits r lo (acc * r - d) cs)"

definition lone_sign :: "str \<Rightarrow> bool" where
  "lone_sign s \<longleftrightarrow> s = [43] \<or> s = [45]"

text \<open>An unsigned type accepts a leading plus; a leading minus is an invalid digit.\<close>

definition parse_unsigned :: "int \<Rightarrow> int \<Rightarrow> str \<Rightarrow> int_error + int" where
  "parse_unsigned r hi s =
     (if s = [] then Inl IntEmpty
      else if lone_sign s then Inl IntInvalidDigit
      else if hd s = 43 then parse_digits r hi 0 (tl s)
      else parse_digits r hi 0 s)"

definition parse_signed :: "int \<Rightarrow> int \<Rightarrow> int \<Rightarrow> str \<Rightarrow> int_error + int" where
  "parse_signed r lo hi s =
     (if s = [] then Inl IntEmpty
      else if lone_sign s then Inl IntInvalidDigit
      else if hd s = 43 then parse_digits r hi 0 (tl s)
      else if hd s = 45 then parse_neg_digits r lo 0 (tl s)
      else parse_digits r hi 0 s)"

definition parse_word :: "int \<Rightarrow> str \<Rightarrow> int_error + 'a::len word" where
  "parse_word r s = rbind (parse_unsigned r (2 ^ LENGTH('a) - 1) s) (\<lambda>n. Inr (word_of_int n))"

definition parse_u64 :: "str \<Rightarrow> int_error + u64" where
  "parse_u64 s = parse_word 10 s"

definition parse_u32 :: "str \<Rightarrow> int_error + u32" where
  "parse_u32 s = parse_word 10 s"

definition parse_hex_u64 :: "str \<Rightarrow> int_error + u64" where
  "parse_hex_u64 s = parse_word 16 s"

definition parse_i32 :: "str \<Rightarrow> int_error + i32" where
  "parse_i32 s = parse_signed 10 (- (2 ^ 31)) (2 ^ 31 - 1) s"

lemmas parse_num_eval [text_eval] = to_digit_def lone_sign_def parse_unsigned_def parse_signed_def
  parse_word_def parse_u64_def parse_u32_def parse_hex_u64_def parse_i32_def Let_def

section \<open>Formatting\<close>

definition digit_char :: "int \<Rightarrow> rchar" where
  "digit_char d = (if d < 10 then 48 + d else 87 + d)"

function show_radix :: "int \<Rightarrow> int \<Rightarrow> str" where
  "show_radix r n =
     (if r < 2 \<or> n < r then [digit_char n] else show_radix r (n div r) @ [digit_char (n mod r)])"
  by pat_completeness auto
termination
proof (relation "measure (\<lambda>(r, n). nat n)")
  show "wf (measure (\<lambda>(r :: int, n). nat n))" by simp
  fix r n :: int
  assume "\<not> (r < 2 \<or> n < r)"
  then have "n div r < n" by (simp add: int_div_less_self)
  with \<open>\<not> (r < 2 \<or> n < r)\<close> show "((r, n div r), (r, n)) \<in> measure (\<lambda>(r, n). nat n)" by simp
qed

declare show_radix.simps [simp del]

text \<open>\<open>{}\<close> and \<open>{:x}\<close> of an unsigned value, \<open>{}\<close> of an \<open>i32\<close>.\<close>

definition fmt_dec :: "int \<Rightarrow> str" where
  "fmt_dec n = show_radix 10 n"

definition fmt_i32 :: "i32 \<Rightarrow> str" where
  "fmt_i32 n = (if n < 0 then 45 # show_radix 10 (- n) else show_radix 10 n)"

definition fmt_hex :: "int \<Rightarrow> str" where
  "fmt_hex n = show_radix 16 n"

definition fmt_hex016 :: "u64 \<Rightarrow> str" where
  "fmt_hex016 w = (let s = fmt_hex (uint w) in replicate (16 - length s) 48 @ s)"

definition fmt_addr :: "u64 \<Rightarrow> str" where
  "fmt_addr w = asc ''0x'' @ fmt_hex (uint w)"

lemmas fmt_eval [text_eval] = fmt_dec_def fmt_i32_def fmt_hex_def fmt_hex016_def fmt_addr_def
  show_radix.simps digit_char_def

section \<open>Round trips and bounds\<close>

lemma to_digit_range: "to_digit r c = Some d \<Longrightarrow> 0 \<le> d \<and> d < r"
  by (auto simp: to_digit_def Let_def split: if_splits)

lemma to_digit_digit_char: "0 \<le> d \<Longrightarrow> d < r \<Longrightarrow> r \<le> 36 \<Longrightarrow> to_digit r (digit_char d) = Some d"
  by (auto simp: to_digit_def digit_char_def Let_def)

lemma parse_digits_append:
  "parse_digits r hi a (s @ t) = rbind (parse_digits r hi a s) (\<lambda>b. parse_digits r hi b t)"
  by (induction s arbitrary: a) (auto split: option.splits)

lemma parse_digits_range:
  "parse_digits r hi a s = Inr n \<Longrightarrow> 0 \<le> a \<Longrightarrow> a \<le> hi \<Longrightarrow> 0 \<le> r \<Longrightarrow> 0 \<le> n \<and> n \<le> hi"
  by (induction s arbitrary: a) (fastforce split: option.splits if_splits dest: to_digit_range)+

lemma parse_digits_show:
  "2 \<le> r \<Longrightarrow> r \<le> 36 \<Longrightarrow> 0 \<le> n \<Longrightarrow> n \<le> hi \<Longrightarrow> parse_digits r hi 0 (show_radix r n) = Inr n"
proof (induction r n rule: show_radix.induct)
  case (1 r n)
  show ?case
  proof (cases "n < r")
    case True
    with "1.prems" show ?thesis by (simp add: show_radix.simps [of r n] to_digit_digit_char)
  next
    case False
    with "1.prems" have n: "0 < n" and d: "n div r \<le> n" by (auto simp: int_div_less_self le_less)
    have "parse_digits r hi 0 (show_radix r (n div r)) = Inr (n div r)"
      using False "1.prems" d by (intro "1.IH") (auto simp: pos_imp_zdiv_nonneg_iff)
    moreover have "n div r * r + n mod r = n" by simp
    ultimately show ?thesis using False "1.prems"
      by (simp add: show_radix.simps [of r n] parse_digits_append to_digit_digit_char)
  qed
qed

lemma digit_char_bounds: "0 \<le> d \<Longrightarrow> d < 36 \<Longrightarrow> 48 \<le> digit_char d \<and> digit_char d \<le> 122"
  by (auto simp: digit_char_def)

lemma show_radix_chars:
  "2 \<le> r \<Longrightarrow> r \<le> 36 \<Longrightarrow> 0 \<le> n \<Longrightarrow> \<forall>c\<in>set (show_radix r n). 48 \<le> c \<and> c \<le> 122"
proof (induction r n rule: show_radix.induct)
  case (1 r n)
  have m: "0 \<le> n mod r" "n mod r < 36" using "1.prems" by (auto intro: less_le_trans [OF pos_mod_bound])
  show ?case
  proof (cases "n < r")
    case True
    with "1.prems" show ?thesis by (simp add: show_radix.simps [of r n] digit_char_bounds)
  next
    case False
    with "1.prems" have "\<forall>c\<in>set (show_radix r (n div r)). 48 \<le> c \<and> c \<le> 122"
      by (intro "1.IH") (auto simp: pos_imp_zdiv_nonneg_iff)
    with False m "1.prems" show ?thesis by (auto simp: show_radix.simps [of r n] digit_char_bounds)
  qed
qed

lemma show_radix_alnum:
  "2 \<le> r \<Longrightarrow> 0 \<le> n \<Longrightarrow> c \<in> set (show_radix r n) \<Longrightarrow> 48 \<le> c \<and> c \<le> 57 \<or> 97 \<le> c"
proof (induction r n rule: show_radix.induct)
  case (1 r n)
  then have c: "c \<in> set (if r < 2 \<or> n < r then [digit_char n] else show_radix r (n div r) @ [digit_char (n mod r)])"
    by (simp only: show_radix.simps [of r n])
  show ?case
  proof (cases "n < r")
    case True
    with c 1 show ?thesis by (auto simp: digit_char_def)
  next
    case False
    have "digit_char (n mod r) \<le> 57 \<or> 97 \<le> digit_char (n mod r)" "48 \<le> digit_char (n mod r)"
      using "1.prems" by (auto simp: digit_char_def)
    moreover have "0 \<le> n div r" using 1 by (simp add: pos_imp_zdiv_nonneg_iff)
    ultimately show ?thesis using False c 1 by auto
  qed
qed

lemma show_radix_nonempty [simp]: "show_radix r n \<noteq> []"
  by (subst show_radix.simps) simp

lemma show_radix_no_sign:
  "2 \<le> r \<Longrightarrow> r \<le> 36 \<Longrightarrow> 0 \<le> n \<Longrightarrow> hd (show_radix r n) \<noteq> 43 \<and> hd (show_radix r n) \<noteq> 45"
  using show_radix_chars [of r n] hd_in_set [OF show_radix_nonempty, of r n] by fastforce

lemma parse_unsigned_show:
  assumes "2 \<le> r" "r \<le> 36" "0 \<le> n" "n \<le> hi"
  shows "parse_unsigned r hi (show_radix r n) = Inr n"
  using parse_digits_show [OF assms] show_radix_no_sign [OF assms(1-3)]
  by (auto simp: parse_unsigned_def lone_sign_def)

lemma parse_digits_zeros: "2 \<le> r \<Longrightarrow> 0 \<le> hi \<Longrightarrow> parse_digits r hi 0 (replicate k 48 @ s) = parse_digits r hi 0 s"
  by (induction k) (auto simp: to_digit_def)

lemma parse_word_show:
  assumes "2 \<le> r" "r \<le> 36"
  shows "parse_word r (show_radix r (uint w)) = Inr (w :: 'a::len word)"
proof -
  have "uint w \<le> 2 ^ LENGTH('a) - 1" using uint_bounded [of w] by simp
  with assms show ?thesis by (simp add: parse_word_def parse_unsigned_show)
qed

lemma fmt_dec_inj: "fmt_dec (int m) = fmt_dec (int n) \<Longrightarrow> m = n"
proof -
  assume eq: "fmt_dec (int m) = fmt_dec (int n)"
  have "parse_digits 10 (int k + int l) 0 (fmt_dec (int k)) = Inr (int k)" for k l
    unfolding fmt_dec_def by (rule parse_digits_show) simp_all
  from this [of m n] this [of n m] eq show ?thesis by (simp add: add.commute)
qed

lemma fmt_dec_digits: "fmt_dec (int n) \<noteq> []" "c \<in> set (fmt_dec (int n)) \<Longrightarrow> 48 \<le> c \<and> c \<le> 57 \<or> 97 \<le> c \<and> c \<le> 122"
  using show_radix_alnum [of 10 "int n" c] show_radix_chars [of 10 "int n"] by (auto simp: fmt_dec_def)

lemma parse_u64_fmt [simp]: "parse_u64 (fmt_dec (uint w)) = Inr w"
  by (simp add: parse_u64_def fmt_dec_def parse_word_show)

lemma parse_u32_fmt [simp]: "parse_u32 (fmt_dec (uint w)) = Inr w"
  by (simp add: parse_u32_def fmt_dec_def parse_word_show)

lemma parse_hex_u64_fmt [simp]: "parse_hex_u64 (fmt_hex (uint w)) = Inr w"
  by (simp add: parse_hex_u64_def fmt_hex_def parse_word_show)

lemma parse_hex_u64_zeros: "parse_hex_u64 (replicate k 48 @ fmt_hex (uint w)) = Inr w"
proof (cases k)
  case (Suc k)
  have "uint w \<le> 2 ^ 64 - 1" using uint_bounded [of w] by simp
  then have "parse_digits 16 (2 ^ 64 - 1) 0 (fmt_hex (uint w)) = Inr (uint w)"
    by (simp add: fmt_hex_def parse_digits_show)
  then have z: "parse_digits 16 (2 ^ 64 - 1) 0 (replicate (Suc k) 48 @ fmt_hex (uint w)) = Inr (uint w)"
    by (subst parse_digits_zeros) simp_all
  with Suc show ?thesis by (simp add: parse_hex_u64_def parse_word_def parse_unsigned_def lone_sign_def)
qed simp

lemma parse_hex_u64_fmt016 [simp]: "parse_hex_u64 (fmt_hex016 w) = Inr w"
  by (simp add: fmt_hex016_def parse_hex_u64_zeros Let_def)

lemma parse_neg_digits_mirror:
  "parse_digits r (- lo) a s = Inr n \<Longrightarrow> parse_neg_digits r lo (- a) s = Inr (- n)"
proof (induction s arbitrary: a)
  case (Cons c s)
  then obtain d where d: "to_digit r c = Some d" "a * r + d \<le> - lo"
    and rest: "parse_digits r (- lo) (a * r + d) s = Inr n"
    by (auto split: option.splits if_splits)
  have "- a * r - d = - (a * r + d)" by simp
  with Cons.IH [OF rest] d show ?case by simp
qed simp

lemma parse_i32_fmt:
  assumes "- (2 ^ 31) \<le> n" "n < 2 ^ 31"
  shows "parse_i32 (fmt_i32 n) = Inr n"
proof (cases "n < 0")
  case True
  with assms have "parse_digits 10 (2 ^ 31) 0 (show_radix 10 (- n)) = Inr (- n)"
    by (intro parse_digits_show) simp_all
  then have "parse_neg_digits 10 (- (2 ^ 31)) 0 (show_radix 10 (- n)) = Inr n"
    using parse_neg_digits_mirror [of 10 "- (2 ^ 31)" 0] by simp
  with True show ?thesis by (simp add: parse_i32_def fmt_i32_def parse_signed_def lone_sign_def)
next
  case False
  with assms have "parse_digits 10 (2 ^ 31 - 1) 0 (show_radix 10 n) = Inr n"
    by (intro parse_digits_show) simp_all
  moreover have "hd (show_radix 10 n) \<noteq> 43 \<and> hd (show_radix 10 n) \<noteq> 45"
    using False by (intro show_radix_no_sign) simp_all
  ultimately show ?thesis
    using False by (auto simp: parse_i32_def fmt_i32_def parse_signed_def lone_sign_def)
qed

lemma parse_signed_range:
  assumes "parse_signed r lo hi s = Inr n" "lo \<le> 0" "0 \<le> hi" "0 \<le> r"
  shows "lo \<le> n \<and> n \<le> hi"
proof -
  have neg: "parse_neg_digits r lo a t = Inr m \<Longrightarrow> a \<le> 0 \<Longrightarrow> lo \<le> a \<Longrightarrow> lo \<le> m \<and> m \<le> 0" for a t m
  proof (induction t arbitrary: a)
    case (Cons c t)
    then obtain d where d: "to_digit r c = Some d" "lo \<le> a * r - d"
      and rest: "parse_neg_digits r lo (a * r - d) t = Inr m"
      by (auto split: option.splits if_splits)
    have "a * r \<le> 0" using Cons.prems(2) assms(4) by (simp add: mult_nonpos_nonneg)
    with to_digit_range [OF d(1)] Cons.IH [OF rest] d(2) show ?case by simp
  qed simp
  show ?thesis
    using assms neg [of 0] parse_digits_range [of r hi 0]
    by (fastforce simp: parse_signed_def split: if_splits)
qed

lemma parse_i32_range: "parse_i32 s = Inr n \<Longrightarrow> - (2 ^ 31) \<le> n \<and> n < 2 ^ 31"
  using parse_signed_range [of 10 "- (2 ^ 31)" "2 ^ 31 - 1" s n] by (simp add: parse_i32_def)

end
