(* ===== verification/Proc_Error.thy ===== *)
theory Proc_Error
  imports Schema Rust_Num
begin

text \<open>
  The structured procfs failures of \<open>proc_source.rs\<close> with their two renderings (the \<open>Display\<close>
  text and the public error report), and the degradation record of \<open>degradation.rs\<close>.
\<close>

record proc_degradation =
  dg_path :: str
  dg_reason :: str

definition new_degradation :: "str \<Rightarrow> str \<Rightarrow> proc_degradation" where
  "new_degradation path reason = \<lparr>dg_path = path, dg_reason = reason\<rparr>"

datatype proc_error =
    InvalidPid i32
  | ProcNotFound i32
  | Permission
  | ReadError str str
  | ParseError str str
  | UnsupportedPlatform
  | InvalidPageSize
  | CpuSampleFailed
  | NotImplemented

fun proc_error_text :: "proc_error \<Rightarrow> str" where
  "proc_error_text (InvalidPid pid) = (asc ''pid '') @ fmt_i32 pid @ (asc '' '' @ [26080, 25928])"
| "proc_error_text (ProcNotFound pid) = (asc ''pid '') @ fmt_i32 pid @ (asc '' '' @ [19981, 23384, 22312])"
| "proc_error_text Permission = ([35835] @ asc '' /proc '' @ [26435, 38480, 19981, 36275])"
| "proc_error_text (ReadError what reason) =
     ([35835, 21462] @ asc '' '') @ what @ (asc '' '' @ [22833, 36133, 65306]) @ reason"
| "proc_error_text (ParseError what reason) =
     ([35299, 26512] @ asc '' '') @ what @ (asc '' '' @ [22833, 36133, 65306]) @ reason"
| "proc_error_text UnsupportedPlatform =
     ([24403, 21069, 24179, 21488, 19981, 25903, 25345] @ asc '' proc introspection'')"
| "proc_error_text InvalidPageSize = [36816, 34892, 26102, 39029, 22823, 23567, 26080, 25928]"
| "proc_error_text CpuSampleFailed = (asc ''CPU '' @ [30701, 37319, 26679, 35835, 21462, 22833, 36133])"
| "proc_error_text NotImplemented = ([23578, 26410, 23454, 29616, 65288] @ asc ''M1 '' @ [31532, 20108, 20992, 65289])"

text \<open>Which \<open>what\<close> labels may appear in a public report: a fixed list, and \<open>stat.x\<close> or
  \<open>status.x\<close> for an ASCII identifier \<open>x\<close>.\<close>

definition exact_fields :: "str list" where
  "exact_fields = map asc [''stat'', ''status'', ''maps'', ''cgroup'', ''proc_stat.cpu'',
     ''proc_stat.logical_cpus'', ''fd entry'']"

definition ascii_alphanumeric :: "rchar \<Rightarrow> bool" where
  "ascii_alphanumeric c \<longleftrightarrow> 48 \<le> c \<and> c \<le> 57 \<or> 65 \<le> c \<and> c \<le> 90 \<or> 97 \<le> c \<and> c \<le> 122"

definition named_field :: "str \<Rightarrow> str \<Rightarrow> bool" where
  "named_field what prefix =
     (case strip_prefix prefix what of
        None \<Rightarrow> False
      | Some field \<Rightarrow> field \<noteq> [] \<and> list_all (\<lambda>c. ascii_alphanumeric c \<or> c = 95) field)"

definition public_proc_field :: "str \<Rightarrow> str option" where
  "public_proc_field what =
     (if what \<in> set exact_fields \<or> list_ex (named_field what) [asc ''stat.'', asc ''status.'']
      then Some what else None)"

lemmas public_field_eval [text_eval] = exact_fields_def ascii_alphanumeric_def named_field_def
  public_proc_field_def

fun to_error_report :: "proc_error \<Rightarrow> str \<times> str \<times> str option" where
  "to_error_report (InvalidPid pid) =
     (asc ''proc_invalid_pid'', (asc ''pid '') @ fmt_i32 pid @ (asc '' '' @ [26080, 25928]),
      Some ([20256, 20837, 22823, 20110, 31561, 20110] @ asc '' 1 '' @ [30340, 36827, 31243] @ asc '' ID''))"
| "to_error_report (ProcNotFound pid) =
     (asc ''proc_not_found'', (asc ''pid '') @ fmt_i32 pid @ (asc '' '' @ [19981, 23384, 22312, 25110, 24050, 36864, 20986]),
      Some ([37325, 35797, 21069, 29992] @ asc '' introspect(pid=1) '' @ [25110, 31867, 20284, 25506, 27963, 65307, 30830, 35748] @ asc '' pid '' @ [20173, 23384, 27963]))"
| "to_error_report Permission =
     (asc ''proc_permission_denied'', ([35835] @ asc '' /proc/<pid>/ '' @ [26435, 38480, 19981, 36275]),
      Some (asc ''guest-agent '' @ [38656, 25346, 36275, 22815, 26435, 38480, 65288] @ asc ''root '' @ [25110] @ asc '' CAP_SYS_PTRACE '' @ [31561, 65289]))"
| "to_error_report (ReadError what reason) =
     (asc ''proc_read_failed'', ([35835, 21462, 24517, 35201, 30340] @ asc '' procfs '' @ [25968, 25454, 22833, 36133]),
      Some ([30830, 35748] @ asc '' procfs '' @ [24050, 25346, 36733, 12289, 30446, 26631, 36827, 31243, 20173, 23384, 27963, 19988, 35835, 21462, 26435, 38480, 20805, 36275]))"
| "to_error_report (ParseError what reason) =
     (asc ''proc_parse_failed'',
      (case public_proc_field what of
         Some field \<Rightarrow> (asc ''procfs '' @ [25968, 25454, 23383, 27573] @ asc '' '') @ field @ (asc '' '' @ [26684, 24335, 26080, 25928])
       | None \<Rightarrow> (asc ''procfs '' @ [25968, 25454, 26684, 24335, 26080, 25928])),
      Some ([30830, 35748, 30446, 26631, 20869, 26680] @ asc '' procfs '' @ [26684, 24335, 19982] @ asc '' guest-agent '' @ [20860, 23481]))"
| "to_error_report UnsupportedPlatform =
     (asc ''proc_unsupported_platform'', (asc ''proc introspection '' @ [20165, 25903, 25345] @ asc '' Linux''),
      Some ([22312] @ asc '' Linux guest '' @ [20013, 36816, 34892] @ asc '' guest-agent''))"
| "to_error_report InvalidPageSize =
     (asc ''proc_invalid_page_size'', ([36816, 34892, 26102, 39029, 22823, 23567, 26080, 25928, 65292, 26080, 27861, 35745, 31639] @ asc '' RSS '' @ [23383, 33410, 25968]),
      Some ([26816, 26597] @ asc '' libc sysconf(_SC_PAGESIZE) '' @ [19982] @ asc '' guest '' @ [36816, 34892, 29615, 22659]))"
| "to_error_report CpuSampleFailed =
     (asc ''proc_cpu_sample_failed'', (asc ''CPU '' @ [30701, 37319, 26679, 35745, 25968, 22120, 35835, 21462, 22833, 36133]),
      Some ([30830, 35748, 30446, 26631, 36827, 31243, 20173, 21487, 35835, 21462, 21518, 37325, 35797] @ asc '' introspect''))"
| "to_error_report NotImplemented =
     (asc ''not_implemented'', (asc ''introspect '' @ [35813, 36335, 24452, 23578, 26410, 22312, 24403, 21069] @ asc '' milestone '' @ [23454, 29616]),
      None)"

type_synonym 'a proc_result = "proc_error + 'a"

section \<open>What a public report reveals\<close>

definition public_label :: "str \<Rightarrow> bool" where
  "public_label what \<longleftrightarrow> what \<in> set exact_fields \<or>
     (\<exists>p f. p \<in> {asc ''stat.'', asc ''status.''} \<and> what = p @ f \<and> f \<noteq> [] \<and>
        (\<forall>c\<in>set f. ascii_alphanumeric c \<or> c = ch CHR ''_''))"

lemma public_proc_field_iff: "public_proc_field what = Some f \<longleftrightarrow> public_label what \<and> f = what"
proof -
  have "named_field what p \<longleftrightarrow> (\<exists>f. what = p @ f \<and> f \<noteq> [] \<and> (\<forall>c\<in>set f. ascii_alphanumeric c \<or> c = 95))" for p
    by (auto simp: named_field_def strip_prefix_Some_iff list_all_iff split: option.splits)
  then show ?thesis by (auto simp: public_proc_field_def public_label_def)
qed

end
