(* ===== verification/Proc_Fields.thy ===== *)
theory Proc_Fields
  imports Proc_Error
begin

text \<open>
  The parsers of \<open>proc_view.rs\<close> for the small procfs files: \<open>stat\<close>, the aggregate
  \<open>/proc/stat\<close>, \<open>cgroup\<close>, \<open>status\<close>, \<open>wchan\<close>, \<open>stack\<close> and the names in \<open>fd\<close>. Each keeps the
  order of the code's checks, so the first failing check decides the error.
\<close>

section \<open>/proc/<pid>/stat\<close>

record stat =
  st_pid :: i32
  st_comm :: str
  st_state :: run_state
  st_ppid :: i32
  st_nr_threads :: u32
  st_vsize :: u64
  st_rss :: u64
  st_process_ticks :: u64
  st_process_start_time_ticks :: u64
  st_last_cpu :: u32

definition parse_error :: "string \<Rightarrow> str \<Rightarrow> proc_error" where
  "parse_error what reason = ParseError (asc what) reason"

definition num_field :: "string \<Rightarrow> int_error + 'a \<Rightarrow> 'a proc_result" where
  "num_field what r = map_err (\<lambda>e. parse_error what (int_error_text e)) r"

definition parse_run_state :: "str \<Rightarrow> run_state proc_result" where
  "parse_run_state s =
     (case s of [] \<Rightarrow> Inl (parse_error ''stat.state'' [31354, 29366, 24577]) | c # _ \<Rightarrow> Inr (from_char c))"

text \<open>The part of \<open>parse_stat\<close> up to the tokens: the pid before the first opening parenthesis,
  \<open>comm\<close> up to the last closing one, and the rest of the line after a mandatory space and a
  state that is not white space.\<close>

definition stat_header :: "str \<Rightarrow> (i32 \<times> str \<times> str list) proc_result" where
  "stat_header text =
     (let content = trim text
      in rbind (ok_or (parse_error ''stat'' ([32570, 23569, 24038, 25324, 21495] @ asc '' (comm)'')) (find_char (ch CHR ''('') content)) (\<lambda>lparen.
         rbind (ok_or (parse_error ''stat'' ([32570, 23569, 21491, 25324, 21495] @ asc '' (comm)'')) (rfind_char (ch CHR '')'') content)) (\<lambda>rparen.
         if rparen < lparen then Inl (parse_error ''stat'' [21491, 25324, 21495, 22312, 24038, 25324, 21495, 20043, 21069])
         else rbind (num_field ''stat.pid'' (parse_i32 (trim (take lparen content)))) (\<lambda>pid.
           let comm = take (rparen - (lparen + 1)) (drop (lparen + 1) content)
           in rbind (ok_or (parse_error ''stat.state'' (asc ''comm '' @ [21518, 32570] @ asc '' state '' @ [20998, 38548, 31354, 26684]))
                      (strip_prefix (asc '' '') (drop (rparen + 1) content))) (\<lambda>after_comm.
              if after_comm = [] \<or> is_whitespace (hd after_comm)
              then Inl (parse_error ''stat.state'' [31354, 29366, 24577])
              else Inr (pid, comm, split_whitespace (trim after_comm)))))))"

definition need :: "str list \<Rightarrow> nat \<Rightarrow> string \<Rightarrow> str proc_result" where
  "need fs i name =
     ok_or (parse_error ''stat'' (([32570, 23383, 27573] @ asc '' '') @ asc name @ asc '' (idx '' @ fmt_dec (int i) @ asc '')''))
       (get_at fs i)"

definition num_at :: "str list \<Rightarrow> nat \<Rightarrow> string \<Rightarrow> string \<Rightarrow> (str \<Rightarrow> int_error + 'a) \<Rightarrow> 'a proc_result" where
  "num_at fs i name what p = rbind (need fs i name) (\<lambda>s. num_field what (p s))"

definition stat_fields :: "i32 \<Rightarrow> str \<Rightarrow> str list \<Rightarrow> stat proc_result" where
  "stat_fields pid comm fs =
     rbind (rbind (need fs 0 ''state'') parse_run_state) (\<lambda>state.
     rbind (num_at fs 1 ''ppid'' ''stat.ppid'' parse_i32) (\<lambda>ppid.
     rbind (num_at fs 11 ''utime'' ''stat.utime'' parse_u64) (\<lambda>utime.
     rbind (num_at fs 12 ''stime'' ''stat.stime'' parse_u64) (\<lambda>stime.
     rbind (num_at fs 17 ''nr_threads'' ''stat.nr_threads'' parse_u32) (\<lambda>nr_threads.
     rbind (num_at fs 19 ''starttime'' ''stat.starttime'' parse_u64) (\<lambda>starttime.
     rbind (num_at fs 20 ''vsize'' ''stat.vsize'' parse_u64) (\<lambda>vsize.
     rbind (num_at fs 21 ''rss'' ''stat.rss'' parse_u64) (\<lambda>rss_pages.
     rbind (num_at fs 36 ''last_cpu'' ''stat.last_cpu'' parse_u32) (\<lambda>last_cpu.
       Inr \<lparr>st_pid = pid, st_comm = comm, st_state = state, st_ppid = ppid,
         st_nr_threads = nr_threads, st_vsize = vsize, st_rss = rss_pages,
         st_process_ticks = saturating_add utime stime,
         st_process_start_time_ticks = starttime, st_last_cpu = last_cpu\<rparr>)))))))))"

definition parse_stat :: "str \<Rightarrow> stat proc_result" where
  "parse_stat content = rbind (stat_header content) (\<lambda>(pid, comm, fs). stat_fields pid comm fs)"

lemmas parse_stat_eval [text_eval] = parse_error_def num_field_def parse_run_state_def
  stat_header_def need_def num_at_def stat_fields_def parse_stat_def

section \<open>/proc/stat\<close>

record system_cpu =
  sc_ticks :: u64
  sc_logical_cpus :: u32

fun sum_ticks :: "u64 \<Rightarrow> str list \<Rightarrow> u64 proc_result" where
  "sum_ticks ticks [] = Inr ticks"
| "sum_ticks ticks (v # vs) =
     rbind (num_field ''proc_stat.cpu'' (parse_u64 v)) (\<lambda>n.
     rbind (ok_or (parse_error ''proc_stat.cpu'' (asc ''aggregate cpu ticks '' @ [28322, 20986] @ asc '' u64'')) (checked_add ticks n)) (\<lambda>ticks'.
       sum_ticks ticks' vs))"

definition all_ascii_digits :: "str \<Rightarrow> bool" where
  "all_ascii_digits s \<longleftrightarrow> list_all (\<lambda>c. 48 \<le> c \<and> c \<le> 57) s"

text \<open>One line of the loop over the accumulated aggregate and the CPU count.\<close>

definition system_cpu_line :: "u64 option \<Rightarrow> u32 \<Rightarrow> str \<Rightarrow> (u64 option \<times> u32) proc_result" where
  "system_cpu_line aggregate cpus line =
     (case split_whitespace line of
        [] \<Rightarrow> Inr (aggregate, cpus)
      | name # values \<Rightarrow>
          if name = asc ''cpu'' then
            (if length values < 4
             then Inl (parse_error ''proc_stat.cpu'' (asc ''aggregate cpu '' @ [34892, 23569, 20110] @ asc '' 4 '' @ [20010, 35745, 25968, 22120]))
             else rbind (sum_ticks 0 (take 8 values)) (\<lambda>ticks. Inr (Some ticks, cpus)))
          else (case strip_prefix (asc ''cpu'') name of
              None \<Rightarrow> Inr (aggregate, cpus)
            | Some index \<Rightarrow>
                if index \<noteq> [] \<and> all_ascii_digits index
                then rbind (ok_or (parse_error ''proc_stat.logical_cpus'' (asc ''logical CPU '' @ [25968, 28322, 20986] @ asc '' u32''))
                       (checked_add cpus 1)) (\<lambda>cpus'. Inr (aggregate, cpus'))
                else Inr (aggregate, cpus)))"

fun system_cpu_lines :: "u64 option \<Rightarrow> u32 \<Rightarrow> str list \<Rightarrow> (u64 option \<times> u32) proc_result" where
  "system_cpu_lines aggregate cpus [] = Inr (aggregate, cpus)"
| "system_cpu_lines aggregate cpus (l # ls) =
     rbind (system_cpu_line aggregate cpus l) (\<lambda>(a, n). system_cpu_lines a n ls)"

definition parse_system_cpu :: "str \<Rightarrow> system_cpu proc_result" where
  "parse_system_cpu content =
     rbind (system_cpu_lines None 0 (lines content)) (\<lambda>(aggregate, logical_cpus).
     rbind (ok_or (parse_error ''proc_stat.cpu'' ([32570] @ asc '' aggregate cpu '' @ [34892])) aggregate) (\<lambda>ticks.
     if logical_cpus = 0 then Inl (parse_error ''proc_stat.logical_cpus'' ([27809, 26377] @ asc '' cpuN '' @ [34892]))
     else Inr \<lparr>sc_ticks = ticks, sc_logical_cpus = logical_cpus\<rparr>))"

lemmas system_cpu_eval [text_eval] = all_ascii_digits_def system_cpu_line_def parse_system_cpu_def

section \<open>/proc/<pid>/cgroup\<close>

text \<open>\<open>{:?}\<close> of a string. Which characters beyond ASCII are printed as they are is a Unicode
  table of the standard library, here the argument \<open>printable\<close>.\<close>

definition debug_char :: "(rchar \<Rightarrow> bool) \<Rightarrow> rchar \<Rightarrow> str" where
  "debug_char printable c =
     (if c = 0 then [92, 48]
      else if c = 9 then [92, 116]
      else if c = 10 then [92, 110]
      else if c = 13 then [92, 114]
      else if c = 34 \<or> c = 92 then [92, c]
      else if (if c < 128 then 32 \<le> c \<and> c \<le> 126 else printable c) then [c]
      else [92] @ asc ''u{'' @ fmt_hex c @ asc ''}'')"

definition debug_str :: "(rchar \<Rightarrow> bool) \<Rightarrow> str \<Rightarrow> str" where
  "debug_str printable s = [34] @ concat (map (debug_char printable) s) @ [34]"

datatype cgroup_entry = Unified str | Legacy str

definition parse_cgroup_line :: "(rchar \<Rightarrow> bool) \<Rightarrow> str \<Rightarrow> cgroup_entry proc_result" where
  "parse_cgroup_line printable line =
     (let fs = splitn 3 (ch CHR '':'') line;
          hierarchy = (case get_at fs 0 of None \<Rightarrow> [] | Some h \<Rightarrow> h)
      in rbind (ok_or (parse_error ''cgroup'' ([32570] @ asc '' controllers '' @ [23383, 27573])) (get_at fs 1)) (\<lambda>controllers.
         rbind (ok_or (parse_error ''cgroup'' ([32570] @ asc '' path '' @ [23383, 27573])) (get_at fs 2)) (\<lambda>path.
         if path = [] then Inl (parse_error ''cgroup'' (asc ''path '' @ [20026, 31354]))
         else if \<not> starts_with (asc ''/'') path
         then Inl (parse_error ''cgroup'' ((asc ''path '' @ [19981, 26159, 32477, 23545, 36335, 24452] @ asc '': '') @ debug_str printable path))
         else rbind (map_err (\<lambda>e. parse_error ''cgroup''
                  ((asc ''hierarchy '' @ [38750, 25968, 23383] @ asc '' '') @ debug_str printable hierarchy @ asc '': '' @ int_error_text e))
                (parse_u32 hierarchy)) (\<lambda>_.
           if hierarchy = asc ''0'' then
             (if controllers = [] then Inr (Unified path)
              else Inl (parse_error ''cgroup'' (asc ''cgroup v2 hierarchy 0 '' @ [30340] @ asc '' controllers '' @ [24517, 39035, 20026, 31354])))
           else if controllers = []
           then Inl (parse_error ''cgroup'' (asc ''cgroup v1 controllers '' @ [20026, 31354]))
           else Inr (Legacy path)))))"

fun cgroup_lines :: "(rchar \<Rightarrow> bool) \<Rightarrow> str option \<Rightarrow> proc_error option \<Rightarrow> str list \<Rightarrow> str option proc_result" where
  "cgroup_lines printable first_v1 first_error [] =
     (case first_v1 of
        Some path \<Rightarrow> Inr (Some path)
      | None \<Rightarrow> (case first_error of Some error \<Rightarrow> Inl error | None \<Rightarrow> Inr None))"
| "cgroup_lines printable first_v1 first_error (l # ls) =
     (case parse_cgroup_line printable l of
        Inr (Unified path) \<Rightarrow> Inr (Some path)
      | Inr (Legacy path) \<Rightarrow>
          cgroup_lines printable (if first_v1 = None then Some path else first_v1) first_error ls
      | Inl error \<Rightarrow>
          cgroup_lines printable first_v1 (if first_error = None then Some error else first_error) ls)"

definition parse_cgroup :: "(rchar \<Rightarrow> bool) \<Rightarrow> str \<Rightarrow> str option proc_result" where
  "parse_cgroup printable content =
     cgroup_lines printable None None (filter (\<lambda>l. trim l \<noteq> []) (lines content))"

lemmas cgroup_eval [text_eval] = parse_cgroup_line_def parse_cgroup_def debug_str_def debug_char_def

section \<open>/proc/<pid>/status\<close>

record status =
  su_uid :: u32
  su_fd_size :: "u32 option"
  su_voluntary :: u64
  su_has_voluntary :: bool
  su_nonvoluntary :: u64
  su_has_nonvoluntary :: bool

definition default_status :: status where
  "default_status = \<lparr>su_uid = 0, su_fd_size = None, su_voluntary = 0, su_has_voluntary = False,
     su_nonvoluntary = 0, su_has_nonvoluntary = False\<rparr>"

definition first_token :: "str \<Rightarrow> str" where
  "first_token s = (case split_whitespace s of [] \<Rightarrow> asc ''0'' | t # _ \<Rightarrow> t)"

definition status_line :: "status \<Rightarrow> str \<Rightarrow> status proc_result" where
  "status_line st line =
     (case strip_prefix (asc ''Uid:'') line of
        Some rest \<Rightarrow> rbind (num_field ''status.uid'' (parse_u32 (first_token rest))) (\<lambda>n.
          Inr (st\<lparr>su_uid := n\<rparr>))
      | None \<Rightarrow>
     (case strip_prefix (asc ''FDSize:'') line of
        Some rest \<Rightarrow> rbind (num_field ''status.fdsize'' (parse_u32 (trim rest))) (\<lambda>n.
          Inr (st\<lparr>su_fd_size := Some n\<rparr>))
      | None \<Rightarrow>
     (case strip_prefix (asc ''voluntary_ctxt_switches:'') line of
        Some rest \<Rightarrow> rbind (num_field ''status.voluntary_ctxt_switches'' (parse_u64 (trim rest))) (\<lambda>n.
          Inr (st\<lparr>su_voluntary := n, su_has_voluntary := True\<rparr>))
      | None \<Rightarrow>
     (case strip_prefix (asc ''nonvoluntary_ctxt_switches:'') line of
        Some rest \<Rightarrow> rbind (num_field ''status.nonvoluntary_ctxt_switches'' (parse_u64 (trim rest))) (\<lambda>n.
          Inr (st\<lparr>su_nonvoluntary := n, su_has_nonvoluntary := True\<rparr>))
      | None \<Rightarrow> Inr st))))"

fun status_lines :: "status \<Rightarrow> str list \<Rightarrow> status proc_result" where
  "status_lines st [] = Inr st"
| "status_lines st (l # ls) = rbind (status_line st (trim_end l)) (\<lambda>st'. status_lines st' ls)"

definition parse_status :: "str \<Rightarrow> status proc_result" where
  "parse_status content = status_lines default_status (lines content)"

lemmas status_eval [text_eval] = default_status_def first_token_def status_line_def parse_status_def

section \<open>fd, wchan and stack\<close>

definition scan_fds_from_names :: "str list \<Rightarrow> u32" where
  "scan_fds_from_names names =
     of_nat (length (filter (\<lambda>n. n \<noteq> [] \<and> n \<noteq> asc ''.'' \<and> n \<noteq> asc ''..'') names))"

definition read_wchan_from_str :: "str \<Rightarrow> str option" where
  "read_wchan_from_str content =
     (let trimmed = trim content in if trimmed = [] \<or> trimmed = asc ''0'' then None else Some trimmed)"

definition trim_start_matches :: "rchar \<Rightarrow> str \<Rightarrow> str" where
  "trim_start_matches c s = dropWhile (\<lambda>d. d = c) s"

definition trim_end_matches :: "rchar \<Rightarrow> str \<Rightarrow> str" where
  "trim_end_matches c s = rev (dropWhile (\<lambda>d. d = c) (rev s))"

definition kernel_stack_line :: "str \<Rightarrow> (str \<times> str) option" where
  "kernel_stack_line raw =
     (let line = trim raw
      in if line = [] then None
         else case find_char (ch CHR ''['') line of
           None \<Rightarrow> None
         | Some op \<Rightarrow> (case find_char (ch CHR '']'') (drop op line) of
             None \<Rightarrow> None
           | Some i \<Rightarrow>
               (let close = op + i;
                    addr_seg = take (close - (op + 1)) (drop (op + 1) line);
                    addr = trim_end_matches (ch CHR ''>'') (trim_start_matches (ch CHR ''<'') addr_seg);
                    sym = trim (drop (close + 1) line)
                in if sym = [] then None else Some (addr, sym))))"

definition read_kernel_stack_from_str :: "str \<Rightarrow> (str \<times> str) list" where
  "read_kernel_stack_from_str content = List.map_filter kernel_stack_line (lines content)"

lemmas stack_eval [text_eval] = scan_fds_from_names_def read_wchan_from_str_def
  trim_start_matches_def trim_end_matches_def kernel_stack_line_def read_kernel_stack_from_str_def

section \<open>The stat parser reads what the kernel prints\<close>

text \<open>The line the kernel prints: the pid, \<open>comm\<close> in parentheses, every other field after a
  space, a newline.\<close>

definition stat_text :: "i32 \<Rightarrow> str \<Rightarrow> str list \<Rightarrow> str" where
  "stat_text pid comm fs =
     fmt_i32 pid @ asc '' ('' @ comm @ asc '')'' @ concat (map (\<lambda>f. 32 # f) fs) @ [10]"

definition plain_fields :: "str list \<Rightarrow> bool" where
  "plain_fields fs \<longleftrightarrow> (\<forall>f\<in>set fs. f \<noteq> [] \<and> no_ws f \<and> ch CHR '')'' \<notin> set f)"

lemma fmt_i32_chars: "c \<in> set (fmt_i32 n) \<Longrightarrow> 45 \<le> c \<and> c \<le> 122"
  using show_radix_chars [of 10 n] show_radix_chars [of 10 "- n"]
  by (auto simp: fmt_i32_def split: if_splits)

lemma fmt_i32_no_ws: "no_ws (fmt_i32 n)"
  using fmt_i32_chars by (fastforce simp: no_ws_def is_whitespace_def)

lemma fmt_i32_nonempty [simp]: "fmt_i32 n \<noteq> []"
  by (simp add: fmt_i32_def)

lemma plain_fields_tail:
  assumes "plain_fields (f # fs)"
  shows "strip_prefix (asc '' '') (concat (map (\<lambda>f. 32 # f) (f # fs))) = Some (f @ concat (map (\<lambda>f. 32 # f) fs))"
    and "f @ concat (map (\<lambda>f. 32 # f) fs) \<noteq> []"
    and "\<not> is_whitespace (hd (f @ concat (map (\<lambda>f. 32 # f) fs)))"
    and "\<not> is_whitespace (last (f @ concat (map (\<lambda>f. 32 # f) fs)))"
    and "split_whitespace (f @ concat (map (\<lambda>f. 32 # f) fs)) = f # fs"
    and "ch CHR '')'' \<notin> set (concat (map (\<lambda>f. 32 # f) (f # fs)))"
proof -
  let ?t = "f @ concat (map (\<lambda>f. 32 # f) fs)"
  show "strip_prefix (asc '' '') (concat (map (\<lambda>f. 32 # f) (f # fs))) = Some ?t"
    by (simp add: strip_prefix_def starts_with_def asc_eval)
  show "?t \<noteq> []" "\<not> is_whitespace (hd ?t)"
    using assms by (cases f; auto simp: plain_fields_def)+
  show "\<not> is_whitespace (last ?t)"
    using assms by (cases fs rule: rev_cases) (auto simp: plain_fields_def no_ws_def)
  show "split_whitespace ?t = f # fs"
    using split_whitespace_fields [of "f # fs"] assms by (simp add: plain_fields_def)
  show "ch CHR '')'' \<notin> set (concat (map (\<lambda>f. 32 # f) (f # fs)))"
    using assms by (auto simp: plain_fields_def)
qed

lemma stat_header_text:
  assumes pid: "- (2 ^ 31) \<le> pid" "pid < 2 ^ 31" and fs: "plain_fields (f # fs)"
  shows "stat_header (stat_text pid comm (f # fs)) = Inr (pid, comm, f # fs)"
proof -
  define p tail c where "p = fmt_i32 pid @ [32]" and "tail = concat (map (\<lambda>f. 32 # f) (f # fs))"
    and "c = p @ 40 # comm @ 41 # tail"
  note defs = this
  note t = plain_fields_tail [OF fs, folded defs(2)]
  have "last tail = last (f @ concat (map (\<lambda>f. 32 # f) fs))"
    using last_ConsR [OF t(2), of 32] by (simp add: defs)
  then have "trim c = c"
    using t(4) fmt_i32_no_ws [of pid] fmt_i32_nonempty [of pid]
    by (intro trim_id) (auto simp: defs no_ws_def hd_append)
  moreover have "stat_text pid comm (f # fs) = c @ [10]" by (simp add: stat_text_def asc_eval defs)
  ultimately have trim: "trim (stat_text pid comm (f # fs)) = c" by (simp add: trim_snoc_ws)
  have "40 \<notin> set p" using fmt_i32_chars [of 40 pid] by (auto simp: defs)
  then have lp: "find_char 40 c = Some (length p)" by (simp add: defs(3) find_char_append)
  have rp: "rfind_char 41 c = Some (length p + 1 + length comm)"
    using rfind_char_append [of 41 tail "p @ 40 # comm"] t(6) by (simp add: defs(3))
  have slices: "take (length p) c = p" "take (length p + 1 + length comm - (length p + 1)) (drop (length p + 1) c) = comm"
    "drop (length p + 1 + length comm + 1) c = tail"
    by (simp_all add: defs(3))
  have pidp: "parse_i32 (trim p) = Inr pid"
    using fmt_i32_no_ws by (simp add: defs trim_snoc_ws parse_i32_fmt [OF pid])
  have "trim (f @ concat (map (\<lambda>f. 32 # f) fs)) = f @ concat (map (\<lambda>f. 32 # f) fs)"
    using t(2-4) by (rule trim_id)
  moreover have "\<not> length p + 1 + length comm < length p" by simp
  ultimately show ?thesis
    using t(2,3) unfolding stat_header_def Let_def trim
    by (simp add: lp rp slices [simplified] slices pidp t(1,5) num_field_def del: drop_drop append_eq_append_conv)
qed

lemma get_at_nth [simp]: "i < length xs \<Longrightarrow> get_at xs i = Some (xs ! i)"
  by (simp add: get_at_def)

lemma num_at_Inr: "i < length fs \<Longrightarrow> p (fs ! i) = Inr x \<Longrightarrow> num_at fs i name what p = Inr x"
  by (simp add: num_at_def need_def num_field_def)

text \<open>C36: A line as the kernel writes it is read back field by field, for every \<open>comm\<close>, white
  space and parentheses included: the text between the first opening and the last closing
  parenthesis is \<open>comm\<close>, the state is the first character of its field, the process ticks are
  the saturating sum of \<open>utime\<close> and \<open>stime\<close>, and the fields after \<open>last_cpu\<close> are ignored.\<close>

theorem parse_stat_reads_kernel_line:
  assumes "- (2 ^ 31) \<le> pid" "pid < 2 ^ 31" "plain_fields fs" "36 < length fs"
    and "parse_i32 (fs ! 1) = Inr ppid"
    and "parse_u64 (fs ! 11) = Inr utime" "parse_u64 (fs ! 12) = Inr stime"
    and "parse_u32 (fs ! 17) = Inr nr_threads" "parse_u64 (fs ! 19) = Inr starttime"
    and "parse_u64 (fs ! 20) = Inr vsize" "parse_u64 (fs ! 21) = Inr rss"
    and "parse_u32 (fs ! 36) = Inr last_cpu"
  shows "parse_stat (stat_text pid comm fs) =
    Inr \<lparr>st_pid = pid, st_comm = comm, st_state = from_char (hd (fs ! 0)), st_ppid = ppid,
      st_nr_threads = nr_threads, st_vsize = vsize, st_rss = rss,
      st_process_ticks = saturating_add utime stime,
      st_process_start_time_ticks = starttime, st_last_cpu = last_cpu\<rparr>"
proof -
  obtain f gs where fs: "fs = f # gs" using assms(4) by (cases fs) auto
  have hdr: "stat_header (stat_text pid comm fs) = Inr (pid, comm, fs)"
    using assms(1-3) by (simp add: fs stat_header_text)
  have "fs ! 0 \<noteq> []" using assms(3) by (simp add: fs plain_fields_def)
  then have "rbind (need fs 0 ''state'') parse_run_state = Inr (from_char (hd (fs ! 0)))"
    by (simp add: need_def get_at_def fs parse_run_state_def split: list.split)
  with assms hdr show ?thesis
    by (simp add: parse_stat_def stat_fields_def num_at_Inr)
qed

text \<open>A concrete line: \<open>comm\<close> holds a space and both parentheses.\<close>

definition sample_fields :: "str list" where
  "sample_fields = map asc [''S'', ''1'', ''0'', ''0'', ''0'', ''0'', ''0'', ''0'', ''0'', ''0'', ''0'',
     ''123'', ''77'', ''0'', ''0'', ''0'', ''0'', ''7'', ''0'', ''987654'', ''4000000'', ''100'',
     ''0'', ''0'', ''0'', ''0'', ''0'', ''0'', ''0'', ''0'', ''0'', ''0'', ''0'', ''0'', ''0'', ''0'', ''9'']"

theorem parse_stat_reads_kernel_line_witness:
  "parse_stat (stat_text 42 (asc ''my (x) prog'') sample_fields) =
    Inr \<lparr>st_pid = 42, st_comm = asc ''my (x) prog'', st_state = RS_S, st_ppid = 1,
      st_nr_threads = 7, st_vsize = 4000000, st_rss = 100, st_process_ticks = 200,
      st_process_start_time_ticks = 987654, st_last_cpu = 9\<rparr>"
proof -
  have "plain_fields sample_fields" "36 < length sample_fields"
    and f: "parse_i32 (sample_fields ! 1) = Inr 1" "parse_u64 (sample_fields ! 11) = Inr 123"
      "parse_u64 (sample_fields ! 12) = Inr 77" "parse_u32 (sample_fields ! 17) = Inr 7"
      "parse_u64 (sample_fields ! 19) = Inr 987654" "parse_u64 (sample_fields ! 20) = Inr 4000000"
      "parse_u64 (sample_fields ! 21) = Inr 100" "parse_u32 (sample_fields ! 36) = Inr 9"
    by code_simp+
  moreover have "from_char (hd (sample_fields ! 0)) = RS_S" "saturating_add 123 77 = (200 :: u64)"
    by code_simp+
  ultimately show ?thesis
    using parse_stat_reads_kernel_line [of 42 sample_fields 1 123 77 7 987654 4000000 100 9] by simp
qed

end
