(* ===== verification/Proc_Fields_Facts.thy ===== *)
theory Proc_Fields_Facts
  imports Proc_Fields
begin

text \<open>
  What the small-file parsers guarantee: the CPU total without double counting, the order of
  preference of \<open>parse_cgroup\<close>, the last line of \<open>status\<close> deciding each value, and the round trip
  of kernel stack frames.
\<close>

section \<open>CPU totals\<close>

definition cpu_index_line :: "str \<Rightarrow> bool" where
  "cpu_index_line l \<longleftrightarrow> (\<exists>i vs. split_whitespace l = (asc ''cpu'' @ i) # vs \<and> i \<noteq> [] \<and> all_ascii_digits i)"

definition aggregate_line :: "str list \<Rightarrow> u64 list \<Rightarrow> str \<Rightarrow> bool" where
  "aggregate_line vs ns l \<longleftrightarrow> split_whitespace l = asc ''cpu'' # vs \<and> 4 \<le> length vs
     \<and> map parse_u64 (take 8 vs) = map Inr ns"

lemma sum_ticks_InrD:
  "sum_ticks t vs = Inr u \<Longrightarrow> \<exists>ns. map parse_u64 vs = map Inr ns \<and> unat u = unat t + sum_list (map unat ns)"
proof (induction vs arbitrary: t)
  case (Cons v vs)
  then obtain n t' where n: "parse_u64 v = Inr n" "checked_add t n = Some t'" "sum_ticks t' vs = Inr u"
    by (auto simp: num_field_def result_iffs)
  from Cons.IH [OF n(3)] obtain ns where
    "map parse_u64 vs = map Inr ns" "unat u = unat t' + sum_list (map unat ns)" by blast
  with n checked_add_SomeD [OF n(2)] show ?case by (intro exI [of _ "n # ns"]) simp
qed simp

lemma system_cpu_line_InrD:
  assumes "system_cpu_line a n l = Inr (a', n')"
  shows "unat n' = unat n + (if cpu_index_line l then 1 else 0) \<and>
    (a' = a \<or> (\<exists>vs ns t. aggregate_line vs ns l \<and> a' = Some t \<and> unat t = sum_list (map unat ns)))"
proof (cases "split_whitespace l")
  case Nil
  with assms show ?thesis by (simp add: system_cpu_line_def cpu_index_line_def)
next
  case (Cons name vs)
  show ?thesis
  proof (cases "name = asc ''cpu''")
    case True
    with assms Cons obtain t where t: "sum_ticks 0 (take 8 vs) = Inr t" "a' = Some t" "n' = n" "4 \<le> length vs"
      by (auto simp: system_cpu_line_def result_iffs split: if_splits)
    with sum_ticks_InrD [OF t(1)] Cons True show ?thesis
      by (auto simp: cpu_index_line_def aggregate_line_def)
  next
    case False
    then have "(\<exists>i. name = asc ''cpu'' @ i \<and> i \<noteq> [] \<and> all_ascii_digits i) \<longleftrightarrow> cpu_index_line l"
      using Cons by (auto simp: cpu_index_line_def)
    with assms Cons False show ?thesis
      by (auto simp: system_cpu_line_def result_iffs strip_prefix_Some_iff
          split: option.splits if_splits dest!: checked_add_SomeD)
  qed
qed

lemma system_cpu_lines_InrD:
  "system_cpu_lines a n ls = Inr (a', n') \<Longrightarrow>
     unat n' = unat n + length (filter cpu_index_line ls) \<and>
     (a' = a \<or> (\<exists>l\<in>set ls. \<exists>vs ns t. aggregate_line vs ns l \<and> a' = Some t \<and> unat t = sum_list (map unat ns)))"
proof (induction ls arbitrary: a n)
  case (Cons l ls)
  then obtain b m where step: "system_cpu_line a n l = Inr (b, m)" and rest: "system_cpu_lines b m ls = Inr (a', n')"
    by (auto simp: result_iffs)
  from system_cpu_line_InrD [OF step] Cons.IH [OF rest] show ?case by (auto split: if_splits)
qed simp

text \<open>When \<open>/proc/stat\<close> is accepted, the tick total is the exact sum (no wrap-around) of the
  first eight counters of an aggregate \<open>cpu\<close> line of at least four counters, so guest time is not
  counted twice; the number of logical CPUs is exactly the number of \<open>cpuN\<close> lines, and not 0.\<close>

theorem parse_system_cpu_exact:
  assumes "parse_system_cpu content = Inr r"
  shows "(\<exists>l\<in>set (lines content). \<exists>vs ns. aggregate_line vs ns l \<and> unat (sc_ticks r) = sum_list (map unat ns))
    \<and> unat (sc_logical_cpus r) = length (filter cpu_index_line (lines content))
    \<and> sc_logical_cpus r \<noteq> 0"
proof -
  from assms obtain t n where run: "system_cpu_lines None 0 (lines content) = Inr (Some t, n)"
    and r: "n \<noteq> 0" "r = \<lparr>sc_ticks = t, sc_logical_cpus = n\<rparr>"
    by (auto simp: parse_system_cpu_def result_iffs split: if_splits)
  from system_cpu_lines_InrD [OF run] r show ?thesis by auto
qed

theorem parse_system_cpu_exact_witness:
  "\<exists>r. parse_system_cpu (asc ''cpu  10 20 30 40 50 60 70 80 900 1000'' @ [10] @ asc ''cpu0 1 2 3 4'' @ [10]
      @ asc ''cpu1 1 2 3 4'' @ [10] @ asc ''intr 123'' @ [10]) = Inr r \<and> sc_ticks r = 360 \<and>
    unat (sc_logical_cpus r) = length (filter cpu_index_line (lines (asc ''cpu  10 20 30 40 50 60 70 80 900 1000''
      @ [10] @ asc ''cpu0 1 2 3 4'' @ [10] @ asc ''cpu1 1 2 3 4'' @ [10] @ asc ''intr 123'' @ [10])))"
proof -
  have "parse_system_cpu (asc ''cpu  10 20 30 40 50 60 70 80 900 1000'' @ [10] @ asc ''cpu0 1 2 3 4'' @ [10]
      @ asc ''cpu1 1 2 3 4'' @ [10] @ asc ''intr 123'' @ [10]) = Inr \<lparr>sc_ticks = 360, sc_logical_cpus = 2\<rparr>"
    by code_simp
  from this parse_system_cpu_exact [OF this] show ?thesis by auto
qed

section \<open>Which cgroup path is reported\<close>

fun unified_path :: "cgroup_entry proc_result \<Rightarrow> str option" where
  "unified_path (Inr (Unified p)) = Some p"
| "unified_path r = None"

fun legacy_path :: "cgroup_entry proc_result \<Rightarrow> str option" where
  "legacy_path (Inr (Legacy p)) = Some p"
| "legacy_path r = None"

fun line_error :: "cgroup_entry proc_result \<Rightarrow> proc_error option" where
  "line_error (Inl e) = Some e"
| "line_error r = None"

definition first_of :: "('a \<Rightarrow> 'b option) \<Rightarrow> 'a list \<Rightarrow> 'b option" where
  "first_of f xs = (case List.map_filter f xs of [] \<Rightarrow> None | y # _ \<Rightarrow> Some y)"

definition or_else :: "'a option \<Rightarrow> 'a option \<Rightarrow> 'a option" where
  "or_else a b = (case a of None \<Rightarrow> b | Some x \<Rightarrow> Some x)"

lemma first_of_simps [simp]:
  "first_of f [] = None" "first_of f (x # xs) = or_else (f x) (first_of f xs)"
  by (auto simp: first_of_def or_else_def map_filter_simps split: option.splits)

lemma or_else_simps [simp]: "or_else None b = b" "or_else (Some x) b = Some x" "or_else a None = a"
  by (auto simp: or_else_def split: option.splits)

definition preferred_path :: "cgroup_entry proc_result list \<Rightarrow> str option proc_result" where
  "preferred_path rs =
     (case first_of unified_path rs of
        Some p \<Rightarrow> Inr (Some p)
      | None \<Rightarrow> (case first_of legacy_path rs of
          Some p \<Rightarrow> Inr (Some p)
        | None \<Rightarrow> (case first_of line_error rs of Some e \<Rightarrow> Inl e | None \<Rightarrow> Inr None)))"

lemma cgroup_lines_spec:
  "cgroup_lines printable v1 err ls =
     (let rs = map (parse_cgroup_line printable) ls
      in case first_of unified_path rs of
           Some p \<Rightarrow> Inr (Some p)
         | None \<Rightarrow> (case or_else v1 (first_of legacy_path rs) of
             Some p \<Rightarrow> Inr (Some p)
           | None \<Rightarrow> (case or_else err (first_of line_error rs) of Some e \<Rightarrow> Inl e | None \<Rightarrow> Inr None)))"
proof (induction ls arbitrary: v1 err)
  case (Cons l ls)
  show ?case
  proof (cases "parse_cgroup_line printable l")
    case (Inl e)
    then show ?thesis by (cases err) (simp_all add: Cons.IH Let_def or_else_def split: option.split)
  next
    case (Inr entry)
    then show ?thesis
      by (cases entry; cases v1) (simp_all add: Cons.IH Let_def or_else_def split: option.split)
  qed
qed (simp add: Let_def split: option.split)

text \<open>The path \<open>parse_cgroup\<close> reports: the first unified (v2) entry wherever it stands, else the
  first legacy (v1) entry, else the error of the first malformed line, and no path for a file with
  no line; a malformed line never hides a well-formed one.\<close>

theorem parse_cgroup_prefers_unified:
  "parse_cgroup printable content =
     preferred_path (map (parse_cgroup_line printable) (filter (\<lambda>l. trim l \<noteq> []) (lines content)))"
  by (simp add: parse_cgroup_def cgroup_lines_spec preferred_path_def Let_def split: option.split)

section \<open>The last line of a key decides\<close>

definition tagged :: "string \<Rightarrow> str list \<Rightarrow> str list" where
  "tagged p ls = List.map_filter (strip_prefix (asc p)) ls"

lemma tagged_snoc:
  "tagged p (ls @ [l]) = tagged p ls @ (case strip_prefix (asc p) l of None \<Rightarrow> [] | Some r \<Rightarrow> [r])"
  by (simp add: tagged_def map_filter_simps List.map_filter_def split: option.split)

lemma status_lines_append:
  "status_lines st (ls @ ms) = rbind (status_lines st ls) (\<lambda>s. status_lines s ms)"
  by (induction ls arbitrary: st) (auto simp: rbind_def split: sum.split)

text \<open>The value a key has after some lines: the default without such a line, else the last one.\<close>

definition decided :: "'a \<Rightarrow> (str \<Rightarrow> int_error + 'a) \<Rightarrow> str list \<Rightarrow> 'a \<Rightarrow> bool" where
  "decided d p rs v \<longleftrightarrow> (if rs = [] then v = d else p (last rs) = Inr v)"

lemma decided_snoc [simp]: "decided d p (rs @ [r]) v \<longleftrightarrow> p r = Inr v"
  by (simp add: decided_def)

lemma tagged_snoc_other [simp]: "strip_prefix (asc p) l = None \<Longrightarrow> tagged p (ls @ [l]) = tagged p ls"
  and tagged_snoc_this [simp]: "strip_prefix (asc p) l = Some r \<Longrightarrow> tagged p (ls @ [l]) = tagged p ls @ [r]"
  by (simp_all add: tagged_snoc)

definition status_decided :: "status \<Rightarrow> str list \<Rightarrow> bool" where
  "status_decided st ls \<longleftrightarrow>
     decided 0 (\<lambda>r. parse_u32 (first_token r)) (tagged ''Uid:'' ls) (su_uid st) \<and>
     decided 0 (\<lambda>r. parse_u64 (trim r)) (tagged ''voluntary_ctxt_switches:'' ls) (su_voluntary st) \<and>
     decided 0 (\<lambda>r. parse_u64 (trim r)) (tagged ''nonvoluntary_ctxt_switches:'' ls) (su_nonvoluntary st) \<and>
     su_has_voluntary st = (tagged ''voluntary_ctxt_switches:'' ls \<noteq> []) \<and>
     su_has_nonvoluntary st = (tagged ''nonvoluntary_ctxt_switches:'' ls \<noteq> [])"

lemma strip_prefix_other_head:
  "strip_prefix (c # p) l = Some r \<Longrightarrow> c \<noteq> d \<Longrightarrow> strip_prefix (d # q) l = None"
  by (cases l) (auto simp: strip_prefix_def starts_with_def split: if_splits)

lemma status_prefixes_disjoint:
  "strip_prefix (asc ''Uid:'') l = Some r \<Longrightarrow> strip_prefix (asc ''FDSize:'') l = None \<and>
     strip_prefix (asc ''voluntary_ctxt_switches:'') l = None \<and> strip_prefix (asc ''nonvoluntary_ctxt_switches:'') l = None"
  "strip_prefix (asc ''FDSize:'') l = Some r \<Longrightarrow>
     strip_prefix (asc ''voluntary_ctxt_switches:'') l = None \<and> strip_prefix (asc ''nonvoluntary_ctxt_switches:'') l = None"
  "strip_prefix (asc ''voluntary_ctxt_switches:'') l = Some r \<Longrightarrow> strip_prefix (asc ''nonvoluntary_ctxt_switches:'') l = None"
  by (auto intro: strip_prefix_other_head simp: asc_eval)

lemma status_line_decided:
  assumes st: "status_decided st ls" and step: "status_line st l = Inr st'"
  shows "status_decided st' (ls @ [l])"
proof -
  note d = status_prefixes_disjoint [of l]
  note defs = status_line_def status_decided_def num_field_def result_iffs
  consider (uid) r where "strip_prefix (asc ''Uid:'') l = Some r"
    | (fd) r where "strip_prefix (asc ''Uid:'') l = None" "strip_prefix (asc ''FDSize:'') l = Some r"
    | (vol) r where "strip_prefix (asc ''Uid:'') l = None" "strip_prefix (asc ''FDSize:'') l = None"
        "strip_prefix (asc ''voluntary_ctxt_switches:'') l = Some r"
    | (nonvol) r where "strip_prefix (asc ''Uid:'') l = None" "strip_prefix (asc ''FDSize:'') l = None"
        "strip_prefix (asc ''voluntary_ctxt_switches:'') l = None"
        "strip_prefix (asc ''nonvoluntary_ctxt_switches:'') l = Some r"
    | (other) "strip_prefix (asc ''Uid:'') l = None" "strip_prefix (asc ''FDSize:'') l = None"
        "strip_prefix (asc ''voluntary_ctxt_switches:'') l = None"
        "strip_prefix (asc ''nonvoluntary_ctxt_switches:'') l = None"
    by (meson not_None_eq)
  then show ?thesis
  proof cases
    case uid
    with st step d(1) [OF uid] show ?thesis by (auto simp: defs simp del: asc_simps)
  next
    case fd
    with st step d(2) [OF fd(2)] show ?thesis by (auto simp: defs simp del: asc_simps)
  next
    case vol
    with st step d(3) [OF vol(3)] show ?thesis by (auto simp: defs simp del: asc_simps)
  next
    case nonvol
    with st step show ?thesis by (auto simp: defs simp del: asc_simps)
  next
    case other
    with st step show ?thesis by (auto simp: defs simp del: asc_simps)
  qed
qed

lemma status_lines_decided:
  "status_lines default_status ls = Inr st \<Longrightarrow> status_decided st (map trim_end ls)"
proof (induction ls arbitrary: st rule: rev_induct)
  case Nil
  then show ?case by (auto simp: default_status_def status_decided_def decided_def tagged_def map_filter_simps)
next
  case (snoc l ls)
  then show ?case by (auto simp: status_lines_append result_iffs intro: status_line_decided)
qed

text \<open>When \<open>status\<close> is accepted, the uid and both context-switch counts are the values on the
  last line with the key (0 without such a line), and the two \<open>has\<close> flags are set exactly when a
  line with the key was there, so an absent counter is never mistaken for a counter of 0.\<close>

theorem parse_status_last_line_decides:
  assumes "parse_status content = Inr st"
  shows "status_decided st (map trim_end (lines content))"
  using assms by (simp add: parse_status_def status_lines_decided)

theorem parse_status_last_line_decides_witness:
  "\<exists>st. parse_status (asc ''Uid:'' @ [9] @ asc ''1000 0 0 0'' @ [10] @ asc ''voluntary_ctxt_switches: 12'' @ [10])
      = Inr st \<and> su_voluntary st = 12 \<and> \<not> su_has_nonvoluntary st \<and>
    status_decided st (map trim_end (lines (asc ''Uid:'' @ [9] @ asc ''1000 0 0 0'' @ [10]
      @ asc ''voluntary_ctxt_switches: 12'' @ [10])))"
proof -
  have "parse_status (asc ''Uid:'' @ [9] @ asc ''1000 0 0 0'' @ [10] @ asc ''voluntary_ctxt_switches: 12'' @ [10])
      = Inr \<lparr>su_uid = 1000, su_fd_size = None, su_voluntary = 12, su_has_voluntary = True,
          su_nonvoluntary = 0, su_has_nonvoluntary = False\<rparr>"
    by code_simp
  from this parse_status_last_line_decides [OF this] show ?thesis by auto
qed

section \<open>Kernel stack frames\<close>

definition frame_text :: "str \<times> str \<Rightarrow> str" where
  "frame_text f = asc ''[<'' @ fst f @ asc ''>] '' @ snd f"

definition frame_ok :: "str \<times> str \<Rightarrow> bool" where
  "frame_ok f \<longleftrightarrow> set (fst f) \<inter> {10, 60, 62, 91, 93} = {} \<and> 10 \<notin> set (snd f) \<and> snd f \<noteq> []
     \<and> \<not> is_whitespace (hd (snd f)) \<and> \<not> is_whitespace (last (snd f))"

lemma kernel_stack_line_frame:
  assumes "frame_ok f"
  shows "kernel_stack_line (frame_text f) = Some f"
proof -
  obtain a s where f: "f = (a, s)" by (cases f)
  from assms have a: "60 \<notin> set a" "62 \<notin> set a" "93 \<notin> set a"
    and s: "s \<noteq> []" "\<not> is_whitespace (hd s)" "\<not> is_whitespace (last s)" by (auto simp: f frame_ok_def)
  define l where "l = 91 # 60 # a @ 62 # 93 # 32 # s"
  have txt_l: "frame_text f = l" by (simp add: f l_def frame_text_def asc_eval)
  have trim_l: "trim l = l" using s by (intro trim_id) (auto simp: l_def is_whitespace_def)
  have opn: "find_char 91 l = Some 0" by (simp add: l_def)
  have cls: "find_char 93 (drop 0 l) = Some (length a + 3)"
    using find_char_append [of 93 "91 # 60 # a @ [62]" "32 # s"] a by (simp add: l_def)
  have seg: "take (0 + (length a + 3) - (0 + 1)) (drop (0 + 1) l) = 60 # a @ [62]"
    "drop (0 + (length a + 3) + 1) l = 32 # s"
    by (simp_all add: l_def numeral_3_eq_3)
  have "dropWhile (\<lambda>d. d = 60) (60 # a @ [62]) = a @ [62]"
    using a by (cases a) auto
  moreover have "dropWhile (\<lambda>d. d = 62) (rev (a @ [62])) = rev a"
    using a(2) by (cases a rule: rev_cases) auto
  ultimately have addr: "trim_end_matches 62 (trim_start_matches 60 (60 # a @ [62])) = a"
    by (simp add: trim_start_matches_def trim_end_matches_def)
  have sym: "trim (32 # s) = s"
    using s trim_id [OF s] by (simp add: trim_def trim_start_def)
  have "l \<noteq> []" by (simp add: l_def)
  with s show ?thesis
    unfolding txt_l kernel_stack_line_def Let_def trim_l
    by (simp add: opn [simplified] cls [simplified] seg [simplified] addr sym f)
qed

lemma frame_text_plain: "frame_ok f \<Longrightarrow> plain_line (frame_text f)"
  by (cases f) (auto simp: frame_ok_def frame_text_def plain_line_def asc_eval is_whitespace_def)

lemma map_filter_inverse:
  "(\<And>x. x \<in> set xs \<Longrightarrow> f (g x) = Some x) \<Longrightarrow> List.map_filter f (map g xs) = xs"
  by (induction xs) (auto simp: map_filter_simps)

text \<open>A kernel stack printed one \<open>[<addr>] symbol\<close> frame per line is read back frame by frame, in
  order, the address without its angle brackets.\<close>

theorem read_kernel_stack_reads_frames:
  assumes "\<forall>f\<in>set fs. frame_ok f"
  shows "read_kernel_stack_from_str (concat (map (\<lambda>f. frame_text f @ [10]) fs)) = fs"
proof -
  have "lines (concat (map (\<lambda>l. l @ [10]) (map frame_text fs))) = map frame_text fs"
    using assms by (intro lines_concat) (auto intro: frame_text_plain)
  then show ?thesis
    using assms by (simp add: read_kernel_stack_from_str_def o_def map_filter_inverse kernel_stack_line_frame)
qed

theorem read_kernel_stack_reads_frames_witness:
  "read_kernel_stack_from_str (asc ''[<ffffffff81a2b3c4>] futex_wait+0xabc/0x123'' @ [10] @ asc ''[<0>] __schedule+0x1a2'' @ [10])
     = [(asc ''ffffffff81a2b3c4'', asc ''futex_wait+0xabc/0x123''), (asc ''0'', asc ''__schedule+0x1a2'')]"
proof -
  let ?fs = "[(asc ''ffffffff81a2b3c4'', asc ''futex_wait+0xabc/0x123''), (asc ''0'', asc ''__schedule+0x1a2'')]"
  have "\<forall>f\<in>set ?fs. frame_ok f" by (simp add: frame_ok_def asc_eval is_whitespace_def)
  from read_kernel_stack_reads_frames [OF this] show ?thesis by (simp add: frame_text_def asc_eval)
qed

end
