(* ===== verification/Proc_Maps.thy ===== *)
theory Proc_Maps
  imports Proc_Fields
begin

text \<open>
  The \<open>maps\<close> projection of \<open>proc_view.rs\<close>: one line parsed and classified, the per-kind histogram,
  the five largest mappings with bounded backing paths, and the diagnostics of both bounds. As in
  the other parsers a position in a string counts characters; only the length bound of a backing
  path is in bytes. The sums are \<open>u64\<close> additions of the release profile, which wrap.
\<close>

section \<open>One line\<close>

record map_line =
  ml_start :: u64
  ml_end :: u64
  ml_perms :: str
  ml_path :: "str option"

fun token_start_at :: "nat \<Rightarrow> nat \<Rightarrow> nat \<Rightarrow> bool \<Rightarrow> str \<Rightarrow> nat option" where
  "token_start_at target i token_index in_token [] = None"
| "token_start_at target i token_index in_token (c # s) =
     (if is_whitespace c then token_start_at target (Suc i) token_index False s
      else if \<not> in_token then
        if token_index = target then Some i
        else token_start_at target (Suc i) (Suc token_index) True s
      else token_start_at target (Suc i) token_index in_token s)"

definition whitespace_token_start :: "str \<Rightarrow> nat \<Rightarrow> nat option" where
  "whitespace_token_start input target = token_start_at target 0 0 False input"

definition perms_ok :: "str \<Rightarrow> bool" where
  "perms_ok perms \<longleftrightarrow>
     (let b = encode_utf8 perms
      in length b = 4 \<and> b ! 0 \<in> {114, 45} \<and> b ! 1 \<in> {119, 45} \<and> b ! 2 \<in> {120, 45} \<and> b ! 3 \<in> {112, 115})"

definition hex_field :: "(rchar \<Rightarrow> bool) \<Rightarrow> str \<Rightarrow> str \<Rightarrow> str + u64" where
  "hex_field printable what s =
     map_err (\<lambda>e. what @ debug_str printable s @ asc '': '' @ int_error_text e) (parse_hex_u64 s)"

definition parse_map_line :: "(rchar \<Rightarrow> bool) \<Rightarrow> str \<Rightarrow> str + map_line" where
  "parse_map_line printable line =
     (let it = splitn 2 32 line in
      rbind (ok_or [31354, 34892] (get_at it 0)) (\<lambda>seg. let addr_seg = trim seg in
      rbind (ok_or ([32570] @ asc '' perms+path '' @ [27573]) (get_at it 1)) (\<lambda>tail. let rest = trim_start tail in
      rbind (ok_or (([22320, 22336, 27573, 26080] @ asc '' '' @ [39] @ asc ''-'' @ [39] @ asc '': '') @ debug_str printable addr_seg) (split_once (ch CHR ''-'') addr_seg))
        (\<lambda>(start_s, end_s).
      rbind (map_err (\<lambda>e. (asc ''start '' @ [38750, 21313, 20845, 36827, 21046] @ asc '' '') @ debug_str printable start_s @ asc '': '' @ int_error_text e)
        (parse_hex_u64 (trim start_s))) (\<lambda>start.
      rbind (map_err (\<lambda>e. (asc ''end '' @ [38750, 21313, 20845, 36827, 21046] @ asc '' '') @ debug_str printable end_s @ asc '': '' @ int_error_text e)
        (parse_hex_u64 (trim end_s))) (\<lambda>stop.
      rbind (ensure (
        ([22320, 22336, 33539, 22260, 38750, 36882, 22686] @ asc '': '') @ debug_str printable start_s @ asc ''-'' @ debug_str printable end_s)
        (\<not> stop \<le> start)) (\<lambda>_.
      let tokens = split_whitespace rest in
      rbind (ok_or ([32570] @ asc '' perms '' @ [23383, 27573]) (get_at tokens 0)) (\<lambda>perms.
      rbind (ensure ((asc ''perms '' @ [19981, 21305, 37197] @ asc '' [r-][w-][x-][ps]: '') @ debug_str printable perms) (perms_ok perms)) (\<lambda>_.
      rbind (ensure ([32570] @ asc '' offset/dev/inode '' @ [23383, 27573]) (\<not> length tokens < 4)) (\<lambda>_.
      rbind (hex_field printable (asc ''offset '' @ [38750, 21313, 20845, 36827, 21046] @ asc '' '') (tokens ! 1)) (\<lambda>_.
      rbind (ok_or ((asc ''dev '' @ [23383, 27573, 26080] @ asc '' '' @ [39] @ asc '':'' @ [39] @ asc '': '') @ debug_str printable (tokens ! 2)) (split_once (ch CHR '':'') (tokens ! 2)))
        (\<lambda>(dev_major, dev_minor).
      rbind (hex_field printable (asc ''dev major '' @ [38750, 21313, 20845, 36827, 21046] @ asc '' '') dev_major) (\<lambda>_.
      rbind (hex_field printable (asc ''dev minor '' @ [38750, 21313, 20845, 36827, 21046] @ asc '' '') dev_minor) (\<lambda>_.
      rbind (map_err (\<lambda>e. (asc ''inode '' @ [38750, 21313, 36827, 21046] @ asc '' '') @ debug_str printable (tokens ! 3) @ asc '': '' @ int_error_text e)
        (parse_u64 (tokens ! 3))) (\<lambda>_.
      rbind (if length tokens > 4
             then map_sum id (\<lambda>i. Some (drop i rest)) (ok_or (asc ''path '' @ [36215, 28857, 23450, 20301, 22833, 36133]) (whitespace_token_start rest 4))
             else Inr None) (\<lambda>path.
      Inr \<lparr>ml_start = start, ml_end = stop, ml_perms = perms, ml_path = path\<rparr>))))))))))))))))"

section \<open>Kinds\<close>

definition classify_map_kind :: "str \<Rightarrow> str option \<Rightarrow> map_kind option" where
  "classify_map_kind perms path =
     (case path of
        None \<Rightarrow> Some Anon
      | Some p \<Rightarrow>
          (let path = trim p
           in if starts_with (asc ''['') path then
                if path = asc ''[heap]'' then Some Heap
                else if path = asc ''[stack]'' \<or> starts_with (asc ''[stack:'') path then Some Stack
                else Some Anon
              else if ch CHR ''x'' \<in> set perms then Some XLib else Some File))"

section \<open>Bounded backing paths\<close>

text \<open>\<open>str::is_char_boundary\<close> and the slice \<open>[..end]\<close> at a boundary.\<close>

fun is_char_boundary :: "str \<Rightarrow> nat \<Rightarrow> bool" where
  "is_char_boundary s 0 = True"
| "is_char_boundary [] (Suc n) = False"
| "is_char_boundary (c # s) (Suc n) = (char_width c \<le> Suc n \<and> is_char_boundary s (Suc n - char_width c))"

fun take_bytes :: "str \<Rightarrow> nat \<Rightarrow> str" where
  "take_bytes [] n = []"
| "take_bytes (c # s) n = (if char_width c \<le> n then c # take_bytes s (n - char_width c) else [])"

primrec floor_boundary :: "str \<Rightarrow> nat \<Rightarrow> nat" where
  "floor_boundary s 0 = 0"
| "floor_boundary s (Suc n) = (if is_char_boundary s (Suc n) then Suc n else floor_boundary s n)"

definition truncate_utf8_bytes :: "str \<Rightarrow> nat \<Rightarrow> str" where
  "truncate_utf8_bytes value max_bytes =
     (if byte_len value \<le> max_bytes then value else take_bytes value (floor_boundary value max_bytes))"

definition top_map_backing_max_bytes :: nat where
  "top_map_backing_max_bytes = 256"

definition mem_shape_top_n :: nat where
  "mem_shape_top_n = 5"

section \<open>The projection\<close>

record parsed_maps =
  pm_mem_shape :: mem_shape
  pm_valid_line_count :: nat
  pm_skipped_line_count :: nat
  pm_degradations :: "proc_degradation list"

type_synonym buckets = "map_kind \<Rightarrow> (u64 \<times> u64) option"

text \<open>What the loop over the lines has collected: the buckets, the candidates for the top in
  line order, the numbers of valid and of skipped lines.\<close>

type_synonym maps_acc = "buckets \<times> top_map list \<times> nat \<times> nat"

definition add_bucket :: "map_kind \<Rightarrow> u64 \<Rightarrow> buckets \<Rightarrow> buckets" where
  "add_bucket kind sz b =
     (case (case b kind of None \<Rightarrow> (0, 0) | Some e \<Rightarrow> e) of (n, t) \<Rightarrow> b(kind \<mapsto> (n + 1, t + sz)))"

definition line_kind :: "map_line \<Rightarrow> map_kind" where
  "line_kind m = (case classify_map_kind (ml_perms m) (ml_path m) of None \<Rightarrow> Anon | Some k \<Rightarrow> k)"

definition line_size :: "map_line \<Rightarrow> u64" where
  "line_size m = saturating_sub (ml_end m) (ml_start m)"

definition top_of_line :: "map_line \<Rightarrow> top_map" where
  "top_of_line m = \<lparr>tm_start = fmt_hex016 (ml_start m), tm_end = fmt_hex016 (ml_end m),
     tm_size = line_size m, tm_kind = line_kind m, tm_backing = ml_path m\<rparr>"

fun maps_line :: "(rchar \<Rightarrow> bool) \<Rightarrow> maps_acc \<Rightarrow> str \<Rightarrow> maps_acc" where
  "maps_line printable (buckets, tops, valid, skipped) line =
     (if line = [] then (buckets, tops, valid, skipped)
      else case parse_map_line printable line of
        Inl e \<Rightarrow> (buckets, tops, valid, skipped + 1)
      | Inr m \<Rightarrow> (add_bucket (line_kind m) (line_size m) buckets, tops @ [top_of_line m], valid + 1, skipped))"

definition bucket_of :: "buckets \<Rightarrow> map_kind \<Rightarrow> map_kind_bucket option" where
  "bucket_of b k = map_option (\<lambda>(n, t). \<lparr>mb_kind = k, mb_count = n, mb_total_size = t\<rparr>) (b k)"

definition histogram_of :: "buckets \<Rightarrow> map_kind_bucket list" where
  "histogram_of b = sort_key (\<lambda>x. kind_index (mb_kind x)) (List.map_filter (bucket_of b) [Heap, Stack, Anon, File, XLib])"

definition largest :: "top_map list \<Rightarrow> top_map list" where
  "largest tops = take mem_shape_top_n (sort_key (\<lambda>m. - uint (tm_size m)) tops)"

definition skipped_degradations :: "nat \<Rightarrow> proc_degradation list" where
  "skipped_degradations skipped =
     (if skipped > 0 then [new_degradation (asc ''mem_shape'')
        (asc ''skipped '' @ fmt_dec (int skipped) @ asc '' malformed maps lines'')] else [])"

text \<open>The truncation of one backing path: the entry and the degradation it leaves.\<close>

definition bound_backing :: "nat \<Rightarrow> top_map \<Rightarrow> top_map \<times> proc_degradation list" where
  "bound_backing index m =
     (case tm_backing m of
        None \<Rightarrow> (m, [])
      | Some backing \<Rightarrow>
          if byte_len backing \<le> top_map_backing_max_bytes then (m, [])
          else (let short = truncate_utf8_bytes backing top_map_backing_max_bytes
                in (m\<lparr>tm_backing := Some short\<rparr>,
                    [new_degradation (asc ''mem_shape.top_n['' @ fmt_dec (int index) @ asc ''].backing'')
                      (asc ''backing truncated from '' @ fmt_dec (int (byte_len backing)) @ asc '' to ''
                        @ fmt_dec (int (byte_len short)) @ asc '' UTF-8 bytes'')])))"

fun bound_backings :: "nat \<Rightarrow> top_map list \<Rightarrow> top_map list \<times> proc_degradation list" where
  "bound_backings index [] = ([], [])"
| "bound_backings index (m # tops) =
     (case bound_backing index m of (m', ds) \<Rightarrow>
        (case bound_backings (index + 1) tops of (tops', ds') \<Rightarrow> (m' # tops', ds @ ds')))"

definition parse_maps_with_diagnostics :: "(rchar \<Rightarrow> bool) \<Rightarrow> str \<Rightarrow> parsed_maps proc_result" where
  "parse_maps_with_diagnostics printable content =
     (case foldl (maps_line printable) (\<lambda>_. None, [], 0, 0) (lines content) of
        (buckets, tops, valid, skipped) \<Rightarrow>
          (case bound_backings 0 (largest tops) of (top_n, ds) \<Rightarrow>
             Inr \<lparr>pm_mem_shape = \<lparr>ms_histogram = histogram_of buckets, ms_top_n = top_n\<rparr>,
                  pm_valid_line_count = valid, pm_skipped_line_count = skipped,
                  pm_degradations = skipped_degradations skipped @ ds\<rparr>))"

definition parse_maps :: "(rchar \<Rightarrow> bool) \<Rightarrow> str \<Rightarrow> mem_shape proc_result" where
  "parse_maps printable content =
     rbind (parse_maps_with_diagnostics printable content) (\<lambda>p. Inr (pm_mem_shape p))"

end
