(* ===== verification/Proc_Maps_Facts.thy ===== *)
theory Proc_Maps_Facts
  imports Proc_Maps "HOL-Library.Multiset"
begin

text \<open>
  What the \<open>maps\<close> projection guarantees: a summary whose size does not depend on the input, the
  histogram as a group-by over the well-formed lines, the top entries as the largest mappings, and
  the bound on backing paths with a degradation for exactly the paths that were cut.
\<close>

section \<open>Truncation\<close>

lemma byte_len_take_bytes: "byte_len (take_bytes s n) \<le> n"
  by (induction s n rule: take_bytes.induct) auto

lemma take_bytes_maximal:
  "\<exists>rest. s = take_bytes s n @ rest \<and> (rest = [] \<or> n < byte_len (take_bytes s n) + char_width (hd rest))"
proof (induction s n rule: take_bytes.induct)
  case (2 c s n)
  show ?case
  proof (cases "char_width c \<le> n")
    case True
    with 2 obtain rest where "s = take_bytes s (n - char_width c) @ rest"
      "rest = [] \<or> n - char_width c < byte_len (take_bytes s (n - char_width c)) + char_width (hd rest)" by blast
    with True show ?thesis by (intro exI [of _ rest]) auto
  qed simp
qed simp

lemma take_bytes_idem: "take_bytes s (byte_len (take_bytes s n)) = take_bytes s n"
proof (induction s n rule: take_bytes.induct)
  case (2 c s n)
  show ?case
  proof (cases "char_width c \<le> n")
    case False
    moreover have "0 < char_width c" using char_width_bounds [of c] by simp
    ultimately show ?thesis by simp
  qed (use 2 in simp)
qed simp

lemma is_char_boundary_take_bytes: "is_char_boundary s (byte_len (take_bytes s n))"
proof (induction s n rule: take_bytes.induct)
  case (2 c s n)
  show ?case
  proof (cases "char_width c \<le> n")
    case True
    from char_width_bounds [of c] obtain w where w: "char_width c = Suc w" by (cases "char_width c") auto
    from 2 [OF True] show ?thesis using True w by simp
  qed simp
qed simp

lemma char_boundary_le_take_bytes:
  "is_char_boundary s m \<Longrightarrow> m \<le> n \<Longrightarrow> m \<le> byte_len (take_bytes s n)"
proof (induction s m arbitrary: n rule: is_char_boundary.induct)
  case (3 c s m)
  then have "Suc m - char_width c \<le> byte_len (take_bytes s (n - char_width c))" by auto
  moreover from 3 have "char_width c \<le> Suc m" "Suc m \<le> n" by auto
  ultimately have "Suc m \<le> char_width c + byte_len (take_bytes s (n - char_width c))" by linarith
  with 3 show ?case by simp
qed auto

lemma floor_boundary_le: "floor_boundary s n \<le> n"
  by (induction n) auto

lemma floor_boundary_is: "is_char_boundary s (floor_boundary s n)"
  by (induction n) auto

lemma floor_boundary_ge: "is_char_boundary s m \<Longrightarrow> m \<le> n \<Longrightarrow> m \<le> floor_boundary s n"
  by (induction n) (auto simp: le_Suc_eq)

lemma floor_boundary_eq: "floor_boundary s n = byte_len (take_bytes s n)"
  using char_boundary_le_take_bytes [OF floor_boundary_is floor_boundary_le]
    floor_boundary_ge [OF is_char_boundary_take_bytes byte_len_take_bytes]
  by (simp add: antisym)

lemma take_bytes_all: "byte_len s \<le> n \<Longrightarrow> take_bytes s n = s"
  by (induction s n rule: take_bytes.induct) auto

lemma truncate_eq_take_bytes: "truncate_utf8_bytes s n = take_bytes s n"
  by (simp add: truncate_utf8_bytes_def floor_boundary_eq take_bytes_idem take_bytes_all)

text \<open>\<open>truncate_utf8_bytes\<close> keeps the longest prefix of whole characters that fits in the
  bound: at most \<open>max_bytes\<close> bytes, a prefix of the input, everything when it fits, and no room
  for the next character otherwise (so at most three bytes of the bound stay unused).\<close>

theorem truncate_utf8_bytes_longest_prefix:
  "\<exists>rest. s = truncate_utf8_bytes s n @ rest \<and> byte_len (truncate_utf8_bytes s n) \<le> n \<and>
     (rest = [] \<longleftrightarrow> byte_len s \<le> n) \<and>
     (rest = [] \<or> n < byte_len (truncate_utf8_bytes s n) + char_width (hd rest))"
proof -
  obtain rest where r: "s = take_bytes s n @ rest"
    "rest = [] \<or> n < byte_len (take_bytes s n) + char_width (hd rest)"
    using take_bytes_maximal [of s n] by blast
  have "rest = [] \<longleftrightarrow> byte_len s \<le> n"
  proof
    assume "byte_len s \<le> n"
    from take_bytes_all [OF this] r(1) show "rest = []" by simp
  qed (use r byte_len_take_bytes [of s n] in simp)
  with r byte_len_take_bytes [of s n] show ?thesis by (simp add: truncate_eq_take_bytes) blast
qed

section \<open>The loop over the lines\<close>

definition valid_line :: "(rchar \<Rightarrow> bool) \<Rightarrow> str \<Rightarrow> map_line option" where
  "valid_line printable l = (case parse_map_line printable l of Inl e \<Rightarrow> None | Inr m \<Rightarrow> Some m)"

definition valid_maps :: "(rchar \<Rightarrow> bool) \<Rightarrow> str list \<Rightarrow> map_line list" where
  "valid_maps printable ls = List.map_filter (valid_line printable) (filter (\<lambda>l. l \<noteq> []) ls)"

definition collect_buckets :: "map_line list \<Rightarrow> buckets" where
  "collect_buckets ms = foldl (\<lambda>b m. add_bucket (line_kind m) (line_size m) b) (\<lambda>_. None) ms"

lemma valid_maps_Nil [simp]: "valid_maps printable [] = []"
  by (simp add: valid_maps_def map_filter_simps)

lemma valid_maps_snoc [simp]:
  "valid_maps printable (ls @ [l]) =
     valid_maps printable ls @ (if l = [] then [] else case valid_line printable l of None \<Rightarrow> [] | Some m \<Rightarrow> [m])"
  by (simp add: valid_maps_def List.map_filter_def split: option.split)

lemma collect_buckets_snoc [simp]:
  "collect_buckets (ms @ [m]) = add_bucket (line_kind m) (line_size m) (collect_buckets ms)"
  by (simp add: collect_buckets_def)

lemma maps_loop:
  "\<exists>skipped. foldl (maps_line printable) (\<lambda>_. None, [], 0, 0) ls =
     (collect_buckets (valid_maps printable ls), map top_of_line (valid_maps printable ls),
      length (valid_maps printable ls), skipped) \<and>
     length (valid_maps printable ls) + skipped = length (filter (\<lambda>l. l \<noteq> []) ls)"
proof (induction ls rule: rev_induct)
  case Nil
  then show ?case by (simp add: collect_buckets_def)
next
  case (snoc l ls)
  then obtain skipped where IH: "foldl (maps_line printable) (\<lambda>_. None, [], 0, 0) ls =
     (collect_buckets (valid_maps printable ls), map top_of_line (valid_maps printable ls),
      length (valid_maps printable ls), skipped)"
    "length (valid_maps printable ls) + skipped = length (filter (\<lambda>l. l \<noteq> []) ls)" by blast
  then show ?case
    by (auto simp: valid_line_def split: sum.split intro: exI [of _ "Suc skipped"])
qed

definition of_kind :: "map_kind \<Rightarrow> map_line list \<Rightarrow> map_line list" where
  "of_kind k ms = filter (\<lambda>m. line_kind m = k) ms"

lemma of_kind_snoc [simp]: "of_kind k (ms @ [m]) = of_kind k ms @ (if line_kind m = k then [m] else [])"
  by (simp add: of_kind_def)

lemma collect_buckets_eq:
  "collect_buckets ms k = (if of_kind k ms = [] then None
     else Some (of_nat (length (of_kind k ms)), sum_list (map line_size (of_kind k ms))))"
proof (induction ms rule: rev_induct)
  case Nil
  then show ?case by (simp add: collect_buckets_def of_kind_def)
next
  case (snoc m ms)
  then show ?case by (auto simp: add_bucket_def split: prod.splits option.splits)
qed

definition all_kinds :: "map_kind list" where
  "all_kinds = [Heap, Stack, Anon, File, XLib]"

lemma all_kinds_sorted: "sorted (map kind_index all_kinds)" "distinct all_kinds"
  by (simp_all add: all_kinds_def)

lemma all_kinds_UNIV: "k \<in> set all_kinds"
  by (cases k) (simp_all add: all_kinds_def)

text \<open>The histogram as a group-by.\<close>

definition summary_bucket :: "map_line list \<Rightarrow> map_kind \<Rightarrow> map_kind_bucket" where
  "summary_bucket ms k = \<lparr>mb_kind = k, mb_count = of_nat (length (of_kind k ms)),
     mb_total_size = sum_list (map line_size (of_kind k ms))\<rparr>"

lemma map_filter_buckets:
  "List.map_filter (bucket_of (collect_buckets ms)) ks =
     map (summary_bucket ms) (filter (\<lambda>k. of_kind k ms \<noteq> []) ks)"
  by (induction ks) (simp_all add: map_filter_simps bucket_of_def collect_buckets_eq summary_bucket_def)

lemma histogram_of_eq:
  "histogram_of (collect_buckets ms) = map (summary_bucket ms) (filter (\<lambda>k. of_kind k ms \<noteq> []) all_kinds)"
proof -
  have "sorted (map kind_index (filter (\<lambda>k. of_kind k ms \<noteq> []) all_kinds))"
    by (simp add: all_kinds_sorted sorted_filter)
  then have "sorted (map (\<lambda>x. kind_index (mb_kind x)) (map (summary_bucket ms) (filter (\<lambda>k. of_kind k ms \<noteq> []) all_kinds)))"
    by (simp add: o_def summary_bucket_def)
  from sort_key_id_if_sorted [OF this] show ?thesis
    by (simp add: histogram_of_def map_filter_buckets flip: all_kinds_def)
qed

lemma sizes_of_kinds: "sum_list (map (\<lambda>k. sum_list (map line_size (of_kind k ms))) all_kinds) = sum_list (map line_size ms)"
proof (induction ms rule: rev_induct)
  case Nil
  then show ?case by (simp add: of_kind_def all_kinds_def)
next
  case (snoc m ms)
  then show ?case by (cases "line_kind m") (simp_all add: all_kinds_def algebra_simps)
qed

lemma summary_total:
  "sum_list (map mb_total_size (map (summary_bucket ms) (filter (\<lambda>k. of_kind k ms \<noteq> []) all_kinds))) =
     sum_list (map line_size ms)"
proof -
  have "sum_list (map (\<lambda>k. sum_list (map line_size (of_kind k ms))) (filter (\<lambda>k. of_kind k ms \<noteq> []) ks)) =
      sum_list (map (\<lambda>k. sum_list (map line_size (of_kind k ms))) ks)" for ks
    by (induction ks) simp_all
  then show ?thesis by (simp add: o_def summary_bucket_def sizes_of_kinds)
qed

lemma all_kinds_less: "sorted all_kinds"
  by (simp add: all_kinds_def less_eq_map_kind_def)

lemma parse_maps_result:
  "\<exists>skipped. parse_maps_with_diagnostics printable content =
     Inr \<lparr>pm_mem_shape =
        \<lparr>ms_histogram = histogram_of (collect_buckets (valid_maps printable (lines content))),
         ms_top_n = fst (bound_backings 0 (largest (map top_of_line (valid_maps printable (lines content)))))\<rparr>,
       pm_valid_line_count = length (valid_maps printable (lines content)),
       pm_skipped_line_count = skipped,
       pm_degradations = skipped_degradations skipped
         @ snd (bound_backings 0 (largest (map top_of_line (valid_maps printable (lines content)))))\<rparr> \<and>
     length (valid_maps printable (lines content)) + skipped = length (filter (\<lambda>l. l \<noteq> []) (lines content))"
  using maps_loop [of printable "lines content"]
  by (auto simp: parse_maps_with_diagnostics_def split: prod.split)

text \<open>C37: \<open>parse_maps\<close> never fails, and its histogram is the group-by over the well-formed lines:
  one bucket for each kind that occurs, at most five, in the fixed order of the kinds, each with
  the number of lines of the kind and the sum of their sizes (as \<open>u64\<close>); every non-empty line is
  counted once, as valid or as skipped.\<close>

theorem parse_maps_histogram_is_group_by:
  "\<exists>p. parse_maps_with_diagnostics printable content = Inr p \<and>
     (let ms = valid_maps printable (lines content); h = ms_histogram (pm_mem_shape p) in
        h = map (summary_bucket ms) (filter (\<lambda>k. of_kind k ms \<noteq> []) all_kinds) \<and>
        length h \<le> 5 \<and> distinct (map mb_kind h) \<and> sorted (map mb_kind h) \<and>
        sum_list (map mb_total_size h) = sum_list (map line_size ms) \<and>
        pm_valid_line_count p = length ms \<and>
        pm_valid_line_count p + pm_skipped_line_count p = length (filter (\<lambda>l. l \<noteq> []) (lines content)))"
proof -
  define ms where "ms = valid_maps printable (lines content)"
  define ks where "ks = filter (\<lambda>k. of_kind k ms \<noteq> []) all_kinds"
  obtain p where p: "parse_maps_with_diagnostics printable content = Inr p"
    "ms_histogram (pm_mem_shape p) = map (summary_bucket ms) ks" "pm_valid_line_count p = length ms"
    "pm_valid_line_count p + pm_skipped_line_count p = length (filter (\<lambda>l. l \<noteq> []) (lines content))"
    using parse_maps_result [of printable content] by (auto simp: ms_def ks_def histogram_of_eq)
  have kinds: "map mb_kind (map (summary_bucket ms) ks) = ks"
    by (simp add: summary_bucket_def o_def)
  have "length ks \<le> length all_kinds" by (simp add: ks_def)
  then have len: "length ks \<le> 5" by (simp add: all_kinds_def)
  have "sorted ks" "distinct ks" by (simp_all add: ks_def sorted_filter [of "\<lambda>k. k", simplified] all_kinds_sorted all_kinds_less)
  with p kinds len show ?thesis
    using summary_total [of ms] by (simp add: Let_def ms_def [symmetric] ks_def [symmetric])
qed


section \<open>The largest mappings\<close>

lemma bound_backing_fst:
  "fst (bound_backing i t) = t\<lparr>tm_backing := map_option (\<lambda>b. truncate_utf8_bytes b 256) (tm_backing t)\<rparr>"
  by (cases t) (auto simp: bound_backing_def top_map_backing_max_bytes_def truncate_utf8_bytes_def Let_def
      split: option.split)

lemma bound_backings_fst:
  "fst (bound_backings i ts) = map (\<lambda>t. t\<lparr>tm_backing := map_option (\<lambda>b. truncate_utf8_bytes b 256) (tm_backing t)\<rparr>) ts"
proof (induction i ts rule: bound_backings.induct)
  case (2 i t ts)
  have "bound_backing i t = (fst (bound_backing i t), snd (bound_backing i t))" by simp
  from 2 [OF this [symmetric]] show ?case by (simp add: bound_backing_fst split_beta)
qed simp

text \<open>The entries whose path is too long, each with the degradation it must leave.\<close>

definition too_long :: "top_map \<Rightarrow> bool" where
  "too_long t \<longleftrightarrow> (case tm_backing t of None \<Rightarrow> False | Some b \<Rightarrow> 256 < byte_len b)"

definition backing_path :: "nat \<Rightarrow> str" where
  "backing_path i = asc ''mem_shape.top_n['' @ fmt_dec (int i) @ asc ''].backing''"

lemma bound_backings_snd:
  "map dg_path (snd (bound_backings i ts)) =
     map backing_path (filter (\<lambda>j. too_long (ts ! (j - i))) [i..<i + length ts])"
proof (induction i ts rule: bound_backings.induct)
  case (2 i t ts)
  have upt: "[i..<i + length (t # ts)] = i # [i + 1..<i + 1 + length ts]"
    using upt_conv_Cons [of i "i + length (t # ts)"] by simp
  have "filter (\<lambda>j. too_long ((t # ts) ! (j - i))) [i + 1..<i + 1 + length ts] =
      filter (\<lambda>j. too_long (ts ! (j - (i + 1)))) [i + 1..<i + 1 + length ts]"
    by (rule filter_cong) (auto simp: nth_Cons')
  moreover have "map dg_path (snd (bound_backing i t)) = (if too_long t then [backing_path i] else [])"
    by (auto simp: bound_backing_def too_long_def backing_path_def new_degradation_def
        top_map_backing_max_bytes_def Let_def simp del: asc_simps split: option.split)
  moreover have "bound_backing i t = (fst (bound_backing i t), snd (bound_backing i t))" by simp
  note 2 [OF this [symmetric]]
  ultimately show ?case
    unfolding upt by (simp add: split_beta del: asc_simps)
qed simp

lemma sort_key_take_mset:
  "\<exists>rest. mset xs = mset (take n (sort_key f xs)) + mset rest \<and>
     (\<forall>x\<in>set (take n (sort_key f xs)). \<forall>y\<in>set rest. f x \<le> f y)"
proof -
  let ?s = "sort_key f xs"
  have "mset xs = mset (take n ?s) + mset (drop n ?s)"
    by (simp flip: mset_append)
  moreover have "sorted (map f (take n ?s) @ map f (drop n ?s))"
    by (simp flip: map_append)
  then have "\<forall>x\<in>set (take n ?s). \<forall>y\<in>set (drop n ?s). f x \<le> f y"
    by (auto simp: sorted_append)
  ultimately show ?thesis by blast
qed

text \<open>C38: The top list: the five largest mappings (all of them when there are fewer) in descending
  order of size, equal sizes in line order, none of the mappings left out larger than one kept;
  only the backing path of an entry is changed, cut to at most 256 bytes.\<close>

theorem parse_maps_top_n_largest:
  "\<exists>p kept rest. parse_maps_with_diagnostics printable content = Inr p \<and>
     ms_top_n (pm_mem_shape p) =
       map (\<lambda>t. t\<lparr>tm_backing := map_option (\<lambda>b. truncate_utf8_bytes b 256) (tm_backing t)\<rparr>) kept \<and>
     mset (map top_of_line (valid_maps printable (lines content))) = mset kept + mset rest \<and>
     length kept = min 5 (length (valid_maps printable (lines content))) \<and>
     sorted_wrt (\<lambda>t u. tm_size u \<le> tm_size t) kept \<and>
     (\<forall>t\<in>set kept. \<forall>u\<in>set rest. tm_size u \<le> tm_size t) \<and>
     kept = take 5 (sort_key (\<lambda>t. - uint (tm_size t)) (map top_of_line (valid_maps printable (lines content))))"
proof -
  let ?ts = "map top_of_line (valid_maps printable (lines content))" and ?f = "\<lambda>t. - uint (tm_size t)"
  define kept where "kept = take 5 (sort_key ?f ?ts)"
  obtain p where p: "parse_maps_with_diagnostics printable content = Inr p"
    "ms_top_n (pm_mem_shape p) = fst (bound_backings 0 kept)"
    using parse_maps_result [of printable content]
    by (auto simp: largest_def mem_shape_top_n_def kept_def)
  obtain rest where r: "mset ?ts = mset kept + mset rest" "\<forall>t\<in>set kept. \<forall>u\<in>set rest. ?f t \<le> ?f u"
    using sort_key_take_mset [of ?ts 5 ?f] unfolding kept_def by blast
  have "sorted (map ?f kept)" by (simp add: kept_def take_map [symmetric] sorted_wrt_take)
  then have "sorted_wrt (\<lambda>t u. tm_size u \<le> tm_size t) kept"
    by (simp add: sorted_map word_le_def)
  moreover have "length kept = min 5 (length (valid_maps printable (lines content)))"
    by (simp add: kept_def min.commute)
  ultimately show ?thesis
    using p r by (intro exI [of _ p] exI [of _ kept] exI [of _ rest])
      (simp add: bound_backings_fst word_le_def kept_def [symmetric])
qed

definition six_lines :: str where
  "six_lines = concat (map (\<lambda>l. l @ [10]) [asc ''1000-2000 rw-p 0 0:0 0 [heap]'', asc ''4000-9000 r-xp 0 8:1 7 /lib'',
     asc ''a000-b800 rw-p 0 0:0 0'', asc ''c000-c800 r--p 0 8:1 9 /f'', asc ''d000-f000 rw-p 0 0:0 0 [stack]'',
     asc ''10000-40000 r--s 0 8:1 11 /g''])"

theorem parse_maps_top_n_largest_witness:
  "\<exists>p kept u. parse_maps_with_diagnostics (\<lambda>_. True) six_lines = Inr p \<and>
    length (ms_top_n (pm_mem_shape p)) = 5 \<and> length kept = 5 \<and>
    mset (map top_of_line (valid_maps (\<lambda>_. True) (lines six_lines))) = mset kept + {#u#} \<and>
    (\<forall>t\<in>set kept. tm_size u \<le> tm_size t)"
proof -
  have n: "length (valid_maps (\<lambda>_. True) (lines six_lines)) = 6" by code_simp
  obtain p kept rest where r: "parse_maps_with_diagnostics (\<lambda>_. True) six_lines = Inr p"
    "ms_top_n (pm_mem_shape p) =
       map (\<lambda>t. t\<lparr>tm_backing := map_option (\<lambda>b. truncate_utf8_bytes b 256) (tm_backing t)\<rparr>) kept"
    "mset (map top_of_line (valid_maps (\<lambda>_. True) (lines six_lines))) = mset kept + mset rest"
    "length kept = min 5 (length (valid_maps (\<lambda>_. True) (lines six_lines)))"
    "\<forall>t\<in>set kept. \<forall>u\<in>set rest. tm_size u \<le> tm_size t"
    using parse_maps_top_n_largest [of "\<lambda>_. True" six_lines] by blast
  from r(4) n have k: "length kept = 5" by simp
  from r(3) have "size (mset (map top_of_line (valid_maps (\<lambda>_. True) (lines six_lines)))) = length kept + length rest"
    by (simp only: size_union size_mset)
  with n k obtain u where u: "rest = [u]" by (auto simp: length_Suc_conv)
  with r k show ?thesis by (intro exI [of _ p] exI [of _ kept] exI [of _ u]) simp
qed

text \<open>C39: The diagnostics name every cut and nothing else: one \<open>mem_shape\<close> entry exactly when a line
  was skipped, then one \<open>mem_shape.top_n[i].backing\<close> entry for exactly the kept mappings \<open>i\<close> whose
  path is longer than 256 bytes, in order.\<close>

theorem parse_maps_diagnostics_exact:
  "\<exists>p. parse_maps_with_diagnostics printable content = Inr p \<and>
     (let kept = largest (map top_of_line (valid_maps printable (lines content))) in
        map dg_path (pm_degradations p) =
          (if pm_skipped_line_count p = 0 then [] else [asc ''mem_shape'']) @
          map backing_path (filter (\<lambda>i. too_long (kept ! i)) [0..<length kept]))"
proof -
  let ?kept = "largest (map top_of_line (valid_maps printable (lines content)))"
  obtain p where p: "parse_maps_with_diagnostics printable content = Inr p"
    "pm_degradations p = skipped_degradations (pm_skipped_line_count p) @ snd (bound_backings 0 ?kept)"
    using parse_maps_result [of printable content] by auto
  have "map dg_path (skipped_degradations n) = (if n = 0 then [] else [asc ''mem_shape''])" for n
    by (simp add: skipped_degradations_def new_degradation_def del: asc_simps)
  with p show ?thesis
    by (intro exI [of _ p]) (simp add: Let_def bound_backings_snd del: asc_simps)
qed


section \<open>The kernel's lines are read back\<close>

definition hex_text :: "nat \<Rightarrow> u64 \<Rightarrow> str" where
  "hex_text k w = replicate k 48 @ fmt_hex (uint w)"

text \<open>One line of \<open>/proc/<pid>/maps\<close> as \<open>fs/proc/task_mmu.c\<close> prints it: every number has a field of its own,
  padded with zeros to its least width - 8 digits for the addresses and the offset, 2 for each
  device number -, a blank follows the inode, and blanks and the path follow where there is one (the
  kernel pads to a column; here to any).\<close>

definition padded_hex :: "nat \<Rightarrow> u64 \<Rightarrow> str" where
  "padded_hex width w = (let digits = fmt_hex (uint w) in replicate (width - length digits) 48 @ digits)"

definition perms_text :: "bool \<Rightarrow> bool \<Rightarrow> bool \<Rightarrow> bool \<Rightarrow> str" where
  "perms_text r w x shared =
     [if r then 114 else 45, if w then 119 else 45, if x then 120 else 45, if shared then 115 else 112]"

definition dev_text :: "u64 \<Rightarrow> u64 \<Rightarrow> str" where
  "dev_text mjr mnr = padded_hex 2 mjr @ 58 # padded_hex 2 mnr"

definition fields_text :: "str \<Rightarrow> u64 \<Rightarrow> u64 \<Rightarrow> u64 \<Rightarrow> u64 \<Rightarrow> str" where
  "fields_text perms off mjr mnr ino =
     perms @ 32 # padded_hex 8 off @ 32 # dev_text mjr mnr @ 32 # fmt_dec (uint ino) @ [32]"

definition path_tail :: "nat \<Rightarrow> str option \<Rightarrow> str" where
  "path_tail pad path = (case path of None \<Rightarrow> [] | Some p \<Rightarrow> replicate pad 32 @ p)"

definition map_text :: "u64 \<Rightarrow> u64 \<Rightarrow> str \<Rightarrow> u64 \<Rightarrow> u64 \<Rightarrow> u64 \<Rightarrow> u64 \<Rightarrow> nat \<Rightarrow> str option \<Rightarrow> str" where
  "map_text start stop perms off mjr mnr ino pad path =
     padded_hex 8 start @ 45 # padded_hex 8 stop @ 32 # fields_text perms off mjr mnr ino @ path_tail pad path"

definition path_ok :: "str option \<Rightarrow> bool" where
  "path_ok path \<longleftrightarrow> (case path of None \<Rightarrow> True | Some p \<Rightarrow> p \<noteq> [] \<and> \<not> is_whitespace (hd p))"

lemma alnum_no_ws: "(\<And>c. c \<in> set s \<Longrightarrow> 48 \<le> c \<and> c \<le> 57 \<or> 97 \<le> c \<and> c \<le> 122) \<Longrightarrow> no_ws s"
  unfolding no_ws_def is_whitespace_def by fastforce

lemma no_ws_no_blank: "no_ws s \<Longrightarrow> 32 \<notin> set s"
  by (auto simp: no_ws_def)

lemma hex_text_facts: "no_ws (hex_text k w)" "hex_text k w \<noteq> []" "45 \<notin> set (hex_text k w)"
  "58 \<notin> set (hex_text k w)" "parse_hex_u64 (hex_text k w) = Inr w"
proof -
  have c: "48 \<le> c \<and> c \<le> 57 \<or> 97 \<le> c \<and> c \<le> 122" if "c \<in> set (hex_text k w)" for c
    using that show_radix_alnum [of 16 "uint w" c] show_radix_chars [of 16 "uint w"]
    by (auto simp: hex_text_def fmt_hex_def split: if_splits)
  from c show "no_ws (hex_text k w)" by (rule alnum_no_ws)
  from c [of 45] c [of 58] show "45 \<notin> set (hex_text k w)" "58 \<notin> set (hex_text k w)" by auto
  show "hex_text k w \<noteq> []" by (simp add: hex_text_def fmt_hex_def)
  show "parse_hex_u64 (hex_text k w) = Inr w" by (simp add: hex_text_def parse_hex_u64_zeros)
qed

lemma padded_hex_facts: "no_ws (padded_hex k w)" "padded_hex k w \<noteq> []" "45 \<notin> set (padded_hex k w)"
  "58 \<notin> set (padded_hex k w)" "parse_hex_u64 (padded_hex k w) = Inr w"
  using hex_text_facts [of "k - length (fmt_hex (uint w))" w] by (simp_all add: padded_hex_def hex_text_def Let_def)

lemma perms_text_facts: "perms_ok (perms_text r w x shared)" "no_ws (perms_text r w x shared)" "perms_text r w x shared \<noteq> []"
  by (auto simp: perms_text_def perms_ok_def no_ws_def is_whitespace_def encode_utf8_def encode_char_def byte_of_def Let_def)

lemma fmt_dec_facts: "no_ws (fmt_dec (uint w))" "fmt_dec (uint w) \<noteq> []"
proof -
  show "no_ws (fmt_dec (uint w))"
    using show_radix_alnum [of 10 "uint w"] show_radix_chars [of 10 "uint w"]
    by (intro alnum_no_ws) (auto simp: fmt_dec_def)
qed (simp add: fmt_dec_def)

lemma token_start_in_token:
  "no_ws t \<Longrightarrow> is_whitespace c \<Longrightarrow>
     token_start_at n i k True (t @ c # s) = token_start_at n (i + length t + 1) k False s"
  by (induction t arbitrary: i) auto

lemma token_start_token:
  "t \<noteq> [] \<Longrightarrow> no_ws t \<Longrightarrow> is_whitespace c \<Longrightarrow> k \<noteq> n \<Longrightarrow>
     token_start_at n i k False (t @ c # s) = token_start_at n (i + length t + 1) (Suc k) False s"
  by (cases t) (auto simp: token_start_in_token)

lemma token_start_skip:
  "token_start_at n i k False (replicate m 32 @ s) = token_start_at n (i + m) k False s"
  by (induction m arbitrary: i) auto

lemma dev_text_facts: "no_ws (dev_text mjr mnr)" "dev_text mjr mnr \<noteq> []"
  "split_once 58 (dev_text mjr mnr) = Some (padded_hex 2 mjr, padded_hex 2 mnr)"
  using padded_hex_facts by (auto simp: dev_text_def is_whitespace_def)

lemmas field_facts = padded_hex_facts fmt_dec_facts dev_text_facts

lemma fields_text_tokens:
  assumes "perms \<noteq> []" "no_ws perms"
  shows "split_whitespace (fields_text perms off mjr mnr ino @ path_tail pad path) =
      [perms, padded_hex 8 off, dev_text mjr mnr, fmt_dec (uint ino)]
        @ (case path of None \<Rightarrow> [] | Some p \<Rightarrow> split_whitespace p)"
  using assms
  by (cases path) (simp_all add: field_facts fields_text_def path_tail_def split_whitespace_token split_whitespace_skip)

lemma fields_text_trim:
  "perms \<noteq> [] \<Longrightarrow> no_ws perms \<Longrightarrow> trim_start (fields_text perms off mjr mnr ino @ t) = fields_text perms off mjr mnr ino @ t"
  by (intro trim_start_id) (auto simp: fields_text_def hd_append no_ws_def)

lemma fields_text_path_start:
  assumes "perms \<noteq> []" "no_ws perms" "p \<noteq> []" "\<not> is_whitespace (hd p)"
  shows "whitespace_token_start (fields_text perms off mjr mnr ino @ path_tail pad (Some p)) 4
    = Some (length (fields_text perms off mjr mnr ino @ replicate pad 32))"
proof -
  from assms obtain c q where "p = c # q" "\<not> is_whitespace c" by (cases p) auto
  with assms show ?thesis
    by (simp add: field_facts whitespace_token_start_def fields_text_def path_tail_def token_start_token token_start_skip)
qed

lemma fields_text_path:
  assumes "perms \<noteq> []" "no_ws perms" "path_ok path"
    and rest: "rest = fields_text perms off mjr mnr ino @ path_tail pad path"
  shows "(if length (split_whitespace rest) > 4
      then map_sum id (\<lambda>i. Some (drop i rest)) (ok_or m (whitespace_token_start rest 4)) else Inr None) = Inr path"
proof (cases path)
  case None
  then have "\<not> 4 < length (split_whitespace rest)"
    unfolding rest fields_text_tokens [OF assms(1,2)] by simp
  with None show ?thesis by simp
next
  case (Some p)
  with assms(3) have p: "p \<noteq> []" "\<not> is_whitespace (hd p)" by (auto simp: path_ok_def)
  then have "split_whitespace p \<noteq> []" by (cases p) (auto simp: split_whitespace_Nil_iff simp del: split_whitespace.simps)
  then have "4 < length (split_whitespace rest)"
    unfolding rest fields_text_tokens [OF assms(1,2)] by (simp add: Some)
  with fields_text_path_start [OF assms(1,2) p] Some show ?thesis by (simp add: rest path_tail_def)
qed

text \<open>C40: Every line the kernel prints for a mapping that is not empty is read back, an anonymous mapping with its
  trailing blank included: start, end, permissions and the path, which is the whole rest of the line after
  its padding, inner blanks (\<open> (deleted)\<close>) included; only a path that begins with white space is not
  covered.\<close>

theorem parse_map_line_reads_kernel_line:
  assumes "start < stop" "path_ok path"
  shows "parse_map_line printable (map_text start stop (perms_text r w x shared) off mjr mnr ino pad path) =
    Inr \<lparr>ml_start = start, ml_end = stop, ml_perms = perms_text r w x shared, ml_path = path\<rparr>"
proof -
  let ?perms = "perms_text r w x shared"
  note hex = padded_hex_facts and perms = perms_text_facts [of r w x shared]
  define rest where "rest = fields_text ?perms off mjr mnr ino @ path_tail pad path"
  let ?addr = "padded_hex 8 start @ 45 # padded_hex 8 stop"
  have ts: "get_at (split_whitespace rest) 0 = Some ?perms" "split_whitespace rest ! Suc 0 = padded_hex 8 off"
    "split_whitespace rest ! 2 = dev_text mjr mnr" "split_whitespace rest ! 3 = fmt_dec (uint ino)"
    "\<not> length (split_whitespace rest) < 4" "trim_start rest = rest"
    by (simp_all add: rest_def fields_text_tokens fields_text_trim perms(2,3) get_at_def numeral_3_eq_3 numeral_2_eq_2)
  have "32 \<notin> set ?addr" using no_ws_no_blank [OF hex(1)] by simp
  then have pieces: "splitn 2 32 (map_text start stop ?perms off mjr mnr ino pad path) = [?addr, rest]"
    using split_once_append [of 32 ?addr rest] by (simp add: map_text_def rest_def numeral_2_eq_2)
  have addr: "trim ?addr = ?addr" "split_once 45 ?addr = Some (padded_hex 8 start, padded_hex 8 stop)"
    using hex by (simp_all add: trim_no_ws is_whitespace_def)
  from assms(1) have "\<not> stop \<le> start" by simp
  with perms(1) show ?thesis
    unfolding parse_map_line_def pieces Let_def
    by (simp add: get_at_def [of "[_, _]"] addr [simplified] dev_text_facts trim_no_ws hex fmt_dec_facts ts hex_field_def)
      (use fields_text_path [OF perms(3,2) assms(2) rest_def, of "asc ''path '' @ [36215, 28857, 23450, 20301, 22833, 36133]"]
        in \<open>auto split: if_splits\<close>)
qed

theorem parse_map_line_reads_kernel_line_witness:
  "parse_map_line (\<lambda>_. True) (asc ''00400000-7f00452000 r-xp 00000000 fd:02 173521      /usr/lib/a b.so (deleted)'') =
     Inr \<lparr>ml_start = 0x400000, ml_end = 0x7f00452000, ml_perms = asc ''r-xp'', ml_path = Some (asc ''/usr/lib/a b.so (deleted)'')\<rparr> \<and>
   parse_map_line (\<lambda>_. True) (asc ''00600000-00601000 rw-p 00000000 00:00 0 '') =
     Inr \<lparr>ml_start = 0x600000, ml_end = 0x601000, ml_perms = asc ''rw-p'', ml_path = None\<rparr>"
proof -
  have ok: "path_ok (Some (asc ''/usr/lib/a b.so (deleted)''))" "path_ok None" by code_simp+
  have perms: "perms_text True False True False = asc ''r-xp''" "perms_text True True False False = asc ''rw-p''" by code_simp+
  have line: "map_text 0x400000 0x7f00452000 (asc ''r-xp'') 0 0xfd 2 173521 5 (Some (asc ''/usr/lib/a b.so (deleted)''))
      = asc ''00400000-7f00452000 r-xp 00000000 fd:02 173521      /usr/lib/a b.so (deleted)''"
    "map_text 0x600000 0x601000 (asc ''rw-p'') 0 0 0 0 0 None = asc ''00600000-00601000 rw-p 00000000 00:00 0 ''"
    by code_simp+
  from parse_map_line_reads_kernel_line [where start = "0x400000" and stop = "0x7f00452000" and printable = "\<lambda>_. True" and
      r = True and w = False and x = True and shared = False and off = 0 and mjr = "0xfd" and mnr = 2 and ino = 173521 and pad = 5,
      OF _ ok(1)]
    parse_map_line_reads_kernel_line [where start = "0x600000" and stop = "0x601000" and printable = "\<lambda>_. True" and
      r = True and w = True and x = False and shared = False and off = 0 and mjr = 0 and mnr = 0 and ino = 0 and pad = 0,
      OF _ ok(2)]
  show ?thesis unfolding perms line by simp
qed

section \<open>Pseudo-paths in parentheses\<close>

text \<open>Only a leading bracket makes a path a pseudo-path: one in parentheses, which the comment at
  \<open>classify_map_kind\<close> lists among the anonymous mappings, is a file or a library.\<close>

lemma parenthesised_path_is_a_file:
  "classify_map_kind perms (Some (asc ''(fd: 3)'')) = Some (if ch CHR ''x'' \<in> set perms then XLib else File)"
proof -
  have "trim (asc ''(fd: 3)'') = asc ''(fd: 3)''" "\<not> starts_with (asc ''['') (asc ''(fd: 3)'')" by code_simp+
  then show ?thesis by (simp add: classify_map_kind_def Let_def)
qed

end
