(* ===== verification/Rust_Io.thy ===== *)
theory Rust_Io
  imports Rust_Utf8
begin

text \<open>
  \<open>std::io::Error\<close> as far as the code looks at it: the kind, the raw OS error number and the
  text of its \<open>Display\<close>.
\<close>

datatype io_kind =
    NotFound
  | PermissionDenied
  | InvalidData
  | InvalidInput
  | Interrupted
  | WouldBlock
  | TimedOut
  | UnexpectedEof
  | BrokenPipe
  | ConnectionReset
  | NotConnected
  | WriteZero
  | OtherKind

record io_error =
  ie_kind :: io_kind
  ie_raw_os_error :: "int option"
  ie_text :: str

definition io_error_of :: "io_kind \<Rightarrow> str \<Rightarrow> io_error" where
  "io_error_of kind txt = \<lparr>ie_kind = kind, ie_raw_os_error = None, ie_text = txt\<rparr>"

text \<open>\<open>fs::read_to_string\<close> after the bytes are read.\<close>

definition string_of_bytes :: "bytes \<Rightarrow> io_error + str" where
  "string_of_bytes bs =
     (if is_utf8 bs then Inr (from_utf8_lossy bs)
      else Inl (io_error_of InvalidData (asc ''stream did not contain valid UTF-8'')))"

end
