(* ===== verification/Proc_Source.thy ===== *)
theory Proc_Source
  imports Proc_Fields Rust_Io
begin

text \<open>
  The procfs port of \<open>proc_source.rs\<close>: decoding with a degradation for replaced bytes, the check
  that a snapshot belongs to one process generation, the classification of I/O errors, and the
  Linux adapter. The operating system is a parameter: a record of the five calls the adapter
  makes, each from a world to an answer and the world after the call, so that the process may
  exit, be replaced or change between any two reads.
\<close>

section \<open>Port types\<close>

record proc_snapshot =
  sn_stat :: str
  sn_status :: str
  sn_maps :: str
  sn_wchan :: "str option"
  sn_cmdline :: bytes
  sn_nr_fds :: u32
  sn_kernel_stack :: "str option"
  sn_exe :: "str option"
  sn_cgroup :: "str option"
  sn_degradations :: "proc_degradation list"
  sn_system_cpu_ticks :: u64
  sn_logical_cpus :: u32
  sn_page_size_bytes :: u64

record cpu_counters =
  cc_process_ticks :: u64
  cc_system_ticks :: u64
  cc_process_start_time_ticks :: u64

type_synonym ('w, 'a) proc_io = "('w, proc_error, 'a) io"

definition read_adjacent_cpu_pair :: "('w, 'a) proc_io \<Rightarrow> ('w, 'b) proc_io \<Rightarrow> ('w, 'a \<times> 'b) proc_io" where
  "read_adjacent_cpu_pair read_process read_system =
     io_bind read_process (\<lambda>p. io_bind read_system (\<lambda>s. io_ok (p, s)))"

section \<open>Decoding\<close>

definition stat_lossy_paths :: "str list" where "stat_lossy_paths = [asc ''identity.comm'']"
definition status_lossy_paths :: "str list" where
  "status_lossy_paths = [asc ''identity.uid'', asc ''resource.ctxt_switches'']"
definition maps_lossy_paths :: "str list" where "maps_lossy_paths = [asc ''mem_shape'']"
definition wchan_lossy_paths :: "str list" where "wchan_lossy_paths = [asc ''state.wchan'']"
definition stack_lossy_paths :: "str list" where "stack_lossy_paths = [asc ''hotspot.frames'']"
definition cgroup_lossy_paths :: "str list" where "cgroup_lossy_paths = [asc ''identity.cgroup'']"
definition exe_lossy_paths :: "str list" where "exe_lossy_paths = [asc ''identity.exe'']"
definition cmdline_lossy_paths :: "str list" where "cmdline_lossy_paths = [asc ''identity.cmdline'']"

record decoded_proc_text =
  dt_value :: str
  dt_degradations :: "proc_degradation list"

definition lossy_reason :: "str \<Rightarrow> str" where
  "lossy_reason what = what @ (asc '' '' @ [21253, 21547, 38750] @ asc '' UTF-8 '' @ [23383, 33410, 65292, 24050, 29992] @ asc '' U+FFFD '' @ [26367, 25442])"

definition invalid_utf8_degradations :: "bytes \<Rightarrow> str \<Rightarrow> str list \<Rightarrow> proc_degradation list" where
  "invalid_utf8_degradations bs what affected_paths =
     (if is_utf8 bs then []
      else map (\<lambda>path. new_degradation path (lossy_reason what)) affected_paths)"

definition decode_proc_text :: "bytes \<Rightarrow> str \<Rightarrow> str list \<Rightarrow> decoded_proc_text" where
  "decode_proc_text bs what affected_paths =
     \<lparr>dt_value = from_utf8_lossy bs, dt_degradations = invalid_utf8_degradations bs what affected_paths\<rparr>"

section \<open>Process generations\<close>

record process_generation =
  pg_pid :: i32
  pg_start_time_ticks :: u64

definition generation_of_stat :: "stat \<Rightarrow> process_generation" where
  "generation_of_stat st = \<lparr>pg_pid = st_pid st, pg_start_time_ticks = st_process_start_time_ticks st\<rparr>"

definition with_stable_process_generation ::
  "i32 \<Rightarrow> process_generation \<Rightarrow> ('w, 'a) proc_io \<Rightarrow> ('w, process_generation) proc_io \<Rightarrow> ('w, 'a) proc_io" where
  "with_stable_process_generation requested_pid initial read_snapshot read_final_generation =
     (if pg_pid initial \<noteq> requested_pid then io_err (ProcNotFound requested_pid)
      else io_bind read_snapshot (\<lambda>snapshot.
        io_bind read_final_generation (\<lambda>final_generation.
        if pg_pid final_generation \<noteq> requested_pid \<or> final_generation \<noteq> initial
        then io_err (ProcNotFound requested_pid)
        else io_ok snapshot)))"

section \<open>I/O errors\<close>

datatype proc_io_scope = ProcessScope | GlobalScope

datatype proc_io_error_class = ClassNotFound | ClassPermission | ClassInvalidData | ClassOther

definition esrch_raw_os_error :: int where
  "esrch_raw_os_error = 3"

definition classify_proc_io :: "io_error \<Rightarrow> proc_io_scope \<Rightarrow> proc_io_error_class" where
  "classify_proc_io e scope =
     (if scope = ProcessScope \<and> (ie_kind e = NotFound \<or> ie_raw_os_error e = Some esrch_raw_os_error)
      then ClassNotFound
      else (case ie_kind e of
          PermissionDenied \<Rightarrow> ClassPermission
        | InvalidData \<Rightarrow> ClassInvalidData
        | _ \<Rightarrow> ClassOther))"

definition map_process_io :: "io_error \<Rightarrow> i32 \<Rightarrow> str \<Rightarrow> proc_error" where
  "map_process_io e pid path =
     (case classify_proc_io e ProcessScope of
        ClassNotFound \<Rightarrow> ProcNotFound pid
      | ClassPermission \<Rightarrow> Permission
      | ClassInvalidData \<Rightarrow> ParseError path (ie_text e)
      | ClassOther \<Rightarrow> ReadError path (ie_text e))"

definition map_global_io :: "io_error \<Rightarrow> str \<Rightarrow> proc_error" where
  "map_global_io e path =
     (case classify_proc_io e GlobalScope of
        ClassPermission \<Rightarrow> Permission
      | ClassInvalidData \<Rightarrow> ParseError path (ie_text e)
      | _ \<Rightarrow> ReadError path (ie_text e))"

section \<open>The Linux adapter\<close>

record 'w os =
  os_read :: "str \<Rightarrow> ('w, io_error, bytes) io"
  os_read_dir :: "str \<Rightarrow> ('w, io_error, (io_error + unit) list) io"
  os_read_link :: "str \<Rightarrow> ('w, io_error, bytes) io"
  os_metadata :: "str \<Rightarrow> ('w, io_error, unit) io"
  os_page_size :: "'w \<Rightarrow> u64 \<times> 'w"

definition proc_dir :: "i32 \<Rightarrow> str" where
  "proc_dir pid = asc ''/proc/'' @ fmt_i32 pid"

definition proc_path :: "i32 \<Rightarrow> str \<Rightarrow> str" where
  "proc_path pid leaf = proc_dir pid @ asc ''/'' @ leaf"

definition io_map_err :: "('e \<Rightarrow> 'f) \<Rightarrow> ('w, 'e, 'a) io \<Rightarrow> ('w, 'f, 'a) io" where
  "io_map_err g m = (\<lambda>w. case m w of (r, w') \<Rightarrow> (map_err g r, w'))"

definition read_required_bytes :: "'w os \<Rightarrow> i32 \<Rightarrow> str \<Rightarrow> ('w, bytes) proc_io" where
  "read_required_bytes os pid leaf =
     (let path = proc_path pid leaf
      in io_map_err (\<lambda>e. map_process_io e pid path) (os_read os path))"

definition read_required_text :: "'w os \<Rightarrow> i32 \<Rightarrow> str \<Rightarrow> str list \<Rightarrow> ('w, decoded_proc_text) proc_io" where
  "read_required_text os pid leaf affected_paths =
     (let path = proc_path pid leaf
      in io_bind (io_map_err (\<lambda>e. map_process_io e pid path) (os_read os path))
        (\<lambda>bs. io_ok (decode_proc_text bs leaf affected_paths)))"

definition absent_or_gone :: "'w os \<Rightarrow> i32 \<Rightarrow> ('w, 'a option) proc_io" where
  "absent_or_gone os pid = (\<lambda>w.
     case os_metadata os (proc_dir pid) w of
       (Inr u, w') \<Rightarrow> (Inr None, w')
     | (Inl e, w') \<Rightarrow>
         (if ie_kind e = NotFound then Inl (ProcNotFound pid) else Inl (map_process_io e pid (proc_dir pid)), w'))"

text \<open>The two readers that tell an absent file from a process that is gone.\<close>

definition optional_read :: "'w os \<Rightarrow> i32 \<Rightarrow> str \<Rightarrow> ('w, io_error, bytes) io \<Rightarrow> (bytes \<Rightarrow> 'a) \<Rightarrow> ('w, 'a option) proc_io" where
  "optional_read os pid path get decode = (\<lambda>w.
     case get w of
       (Inr bs, w') \<Rightarrow> (Inr (Some (decode bs)), w')
     | (Inl e, w') \<Rightarrow>
         if ie_kind e = NotFound then absent_or_gone os pid w' else (Inl (map_process_io e pid path), w'))"

definition read_optional_text :: "'w os \<Rightarrow> i32 \<Rightarrow> str \<Rightarrow> str list \<Rightarrow> ('w, decoded_proc_text option) proc_io" where
  "read_optional_text os pid leaf affected_paths =
     (let path = proc_path pid leaf
      in optional_read os pid path (os_read os path) (\<lambda>bs. decode_proc_text bs leaf affected_paths))"

definition read_exe :: "'w os \<Rightarrow> i32 \<Rightarrow> ('w, decoded_proc_text option) proc_io" where
  "read_exe os pid =
     (let path = proc_path pid (asc ''exe'')
      in optional_read os pid path (os_read_link os path) (\<lambda>bs. decode_proc_text bs (asc ''exe'') exe_lossy_paths))"

fun count_entries :: "i32 \<Rightarrow> str \<Rightarrow> u32 \<Rightarrow> (io_error + unit) list \<Rightarrow> u32 proc_result" where
  "count_entries pid path count [] = Inr count"
| "count_entries pid path count (entry # entries) =
     rbind (map_err (\<lambda>e. map_process_io e pid path) entry) (\<lambda>_.
     rbind (ok_or (ParseError (asc ''fd entry'') (asc ''fd '' @ [25968, 37327, 36229, 36807] @ asc '' u32'')) (checked_add count 1)) (\<lambda>count.
     count_entries pid path count entries))"

definition read_fd_count :: "'w os \<Rightarrow> i32 \<Rightarrow> ('w, u32) proc_io" where
  "read_fd_count os pid =
     (let path = proc_path pid (asc ''fd'')
      in io_bind (io_map_err (\<lambda>e. map_process_io e pid path) (os_read_dir os path))
        (\<lambda>entries. io_lift (count_entries pid path 0 entries)))"

definition read_process_generation :: "'w os \<Rightarrow> i32 \<Rightarrow> ('w, process_generation) proc_io" where
  "read_process_generation os pid =
     io_bind (read_required_text os pid (asc ''stat'') stat_lossy_paths) (\<lambda>txt.
     io_bind (io_lift (parse_stat (dt_value txt))) (\<lambda>st. io_ok (generation_of_stat st)))"

definition read_system_cpu :: "'w os \<Rightarrow> ('w, system_cpu) proc_io" where
  "read_system_cpu os =
     (let path = asc ''/proc/stat''
      in io_bind (io_map_err (\<lambda>e. map_global_io e path)
           (io_bind (os_read os path) (\<lambda>bs. io_lift (string_of_bytes bs))))
         (\<lambda>content. io_lift (parse_system_cpu content)))"

text \<open>\<open>sysconf\<close> answers a \<open>c_long\<close>: 64 bits, read with their sign.\<close>

definition page_size_bytes :: "'w os \<Rightarrow> ('w, u64) proc_io" where
  "page_size_bytes os = (\<lambda>w. case os_page_size os w of
     (page_size, w') \<Rightarrow> (if sint page_size \<le> 0 then Inl InvalidPageSize else Inr page_size, w'))"

record snapshot_reads =
  rd_status :: decoded_proc_text
  rd_maps :: decoded_proc_text
  rd_wchan :: "decoded_proc_text option"
  rd_cmdline :: bytes
  rd_nr_fds :: u32
  rd_kernel_stack :: "decoded_proc_text option"
  rd_exe :: "decoded_proc_text option"
  rd_cgroup :: "decoded_proc_text option"
  rd_page_size_bytes :: u64

definition snapshot_reads_of :: "'w os \<Rightarrow> i32 \<Rightarrow> stat \<Rightarrow> ('w, snapshot_reads) proc_io" where
  "snapshot_reads_of os pid st =
     io_bind (read_required_text os pid (asc ''status'') status_lossy_paths) (\<lambda>status_t.
     io_bind (read_required_text os pid (asc ''maps'') maps_lossy_paths) (\<lambda>maps_t.
     io_bind (read_optional_text os pid (asc ''wchan'') wchan_lossy_paths) (\<lambda>wchan.
     io_bind (read_required_bytes os pid (asc ''cmdline'')) (\<lambda>cmd.
     io_bind (read_fd_count os pid) (\<lambda>nr_fds.
     io_bind (if st_state st = RS_D then read_optional_text os pid (asc ''stack'') stack_lossy_paths
              else io_ok None) (\<lambda>kernel_stack.
     io_bind (read_exe os pid) (\<lambda>exe.
     io_bind (read_optional_text os pid (asc ''cgroup'') cgroup_lossy_paths) (\<lambda>cgroup.
     io_bind (page_size_bytes os) (\<lambda>page_size.
     io_ok \<lparr>rd_status = status_t, rd_maps = maps_t, rd_wchan = wchan, rd_cmdline = cmd, rd_nr_fds = nr_fds,
       rd_kernel_stack = kernel_stack, rd_exe = exe, rd_cgroup = cgroup, rd_page_size_bytes = page_size\<rparr>)))))))))"

definition optional_degradations :: "decoded_proc_text option \<Rightarrow> proc_degradation list" where
  "optional_degradations t = (case t of None \<Rightarrow> [] | Some d \<Rightarrow> dt_degradations d)"

definition snapshot_degradations :: "decoded_proc_text \<Rightarrow> snapshot_reads \<Rightarrow> proc_degradation list" where
  "snapshot_degradations st reads =
     dt_degradations st @ dt_degradations (rd_status reads) @ dt_degradations (rd_maps reads)
     @ invalid_utf8_degradations (rd_cmdline reads) (asc ''cmdline'') cmdline_lossy_paths
     @ optional_degradations (rd_wchan reads) @ optional_degradations (rd_kernel_stack reads)
     @ optional_degradations (rd_exe reads) @ optional_degradations (rd_cgroup reads)"

definition snapshot_cgroup :: "(rchar \<Rightarrow> bool) \<Rightarrow> decoded_proc_text option \<Rightarrow> str option proc_result" where
  "snapshot_cgroup printable cg = (case cg of None \<Rightarrow> Inr None | Some d \<Rightarrow> parse_cgroup printable (dt_value d))"

definition assemble_snapshot :: "decoded_proc_text \<Rightarrow> system_cpu \<Rightarrow> snapshot_reads \<Rightarrow> str option \<Rightarrow> proc_snapshot" where
  "assemble_snapshot st system reads cgroup =
     \<lparr>sn_stat = dt_value st, sn_status = dt_value (rd_status reads), sn_maps = dt_value (rd_maps reads),
       sn_wchan = map_option dt_value (rd_wchan reads), sn_cmdline = rd_cmdline reads, sn_nr_fds = rd_nr_fds reads,
       sn_kernel_stack = map_option dt_value (rd_kernel_stack reads),
       sn_exe = map_option dt_value (rd_exe reads), sn_cgroup = cgroup,
       sn_degradations = snapshot_degradations st reads, sn_system_cpu_ticks = sc_ticks system,
       sn_logical_cpus = sc_logical_cpus system, sn_page_size_bytes = rd_page_size_bytes reads\<rparr>"

definition linux_snapshot :: "(rchar \<Rightarrow> bool) \<Rightarrow> 'w os \<Rightarrow> i32 \<Rightarrow> ('w, proc_snapshot) proc_io" where
  "linux_snapshot printable os pid =
     io_bind (read_adjacent_cpu_pair (read_required_text os pid (asc ''stat'') stat_lossy_paths) (read_system_cpu os))
       (\<lambda>(st, system).
     io_bind (io_lift (parse_stat (dt_value st))) (\<lambda>parsed_stat.
     io_bind (with_stable_process_generation pid (generation_of_stat parsed_stat)
         (snapshot_reads_of os pid parsed_stat) (read_process_generation os pid)) (\<lambda>reads.
     io_bind (io_lift (snapshot_cgroup printable (rd_cgroup reads))) (\<lambda>cgroup.
     io_ok (assemble_snapshot st system reads cgroup)))))"

definition linux_cpu_counters :: "'w os \<Rightarrow> i32 \<Rightarrow> ('w, cpu_counters) proc_io" where
  "linux_cpu_counters os pid =
     io_bind (read_adjacent_cpu_pair (read_required_text os pid (asc ''stat'') stat_lossy_paths) (read_system_cpu os))
       (\<lambda>(st, system).
     io_bind (io_lift (parse_stat (dt_value st))) (\<lambda>parsed.
     io_ok \<lparr>cc_process_ticks = st_process_ticks parsed, cc_system_ticks = sc_ticks system,
       cc_process_start_time_ticks = st_process_start_time_ticks parsed\<rparr>))"

end
