(* ===== verification/Proc_Sample.thy ===== *)
theory Proc_Sample
  imports Proc_Source
begin

text \<open>
  A concrete guest on which the witnesses run: its procfs is a list of files that may differ at
  each call, the world is the number of calls made so far.
\<close>

definition no_such_file :: io_error where
  "no_such_file = \<lparr>ie_kind = NotFound, ie_raw_os_error = Some 2, ie_text = asc ''No such file or directory (os error 2)''\<rparr>"

type_synonym guest = "nat \<Rightarrow> (str \<times> bytes) list"

definition guest_read :: "guest \<Rightarrow> str \<Rightarrow> (nat, io_error, bytes) io" where
  "guest_read g path n = ((case map_of (g n) path of None \<Rightarrow> Inl no_such_file | Some bs \<Rightarrow> Inr bs), Suc n)"

definition guest_os :: "guest \<Rightarrow> nat os" where
  "guest_os g = \<lparr>os_read = guest_read g,
     os_read_dir = (\<lambda>path n. (Inr [Inr (), Inr (), Inr ()], Suc n)),
     os_read_link = guest_read g,
     os_metadata = (\<lambda>path n. (case map_of (g n) path of None \<Rightarrow> Inl no_such_file | Some bs \<Rightarrow> Inr (), Suc n)),
     os_page_size = (\<lambda>n. (4096, Suc n))\<rparr>"

definition sample_stat :: "string \<Rightarrow> string \<Rightarrow> str" where
  "sample_stat state start = stat_text 7 (asc ''my (sh)'') (map asc
     [state, ''1'', ''7'', ''7'', ''0'', ''-1'', ''0'', ''9'', ''0'', ''0'', ''0'', ''5'', ''3'', ''0'', ''0'', ''20'', ''0'',
      ''2'', ''0'', start, ''8192'', ''3'', ''0'', ''0'', ''0'', ''0'', ''0'', ''0'', ''0'', ''0'', ''0'', ''0'', ''0'', ''0'', ''0'',
      ''17'', ''1''])"

definition sample_files :: "string \<Rightarrow> string \<Rightarrow> (str \<times> bytes) list" where
  "sample_files state start =
     [(asc ''/proc/7'', []),
      (asc ''/proc/7/stat'', encode_utf8 (sample_stat state start)),
      (asc ''/proc/stat'', encode_utf8 (asc ''cpu 9 1 2 80'' @ [10] @ asc ''cpu0 9 1 2 80'' @ [10])),
      (asc ''/proc/7/status'', encode_utf8 (asc ''Uid: 1000 0'' @ [10])),
      (asc ''/proc/7/maps'', encode_utf8 (asc ''1000-2000 rw-p 0 0:0 0 [heap]'' @ [10])),
      (asc ''/proc/7/cmdline'', [115, 104, 0, 255]),
      (asc ''/proc/7/stack'', encode_utf8 (asc ''[<0>] io_wait+0x1'' @ [10])),
      (asc ''/proc/7/exe'', encode_utf8 (asc ''/bin/sh'')),
      (asc ''/proc/7/cgroup'', encode_utf8 (asc ''0::/init'' @ [10]))]"

text \<open>A guest that does not change, and one whose process is replaced after the first read.\<close>

definition steady_guest :: "string \<Rightarrow> nat os" where
  "steady_guest state = guest_os (\<lambda>_. sample_files state ''500'')"

definition reusing_guest :: "nat os" where
  "reusing_guest = guest_os (\<lambda>n. if n = 0 then sample_files ''S'' ''500'' else sample_files ''S'' ''501'')"

end
