(* ===== verification/Proc_Source_Facts.thy ===== *)
theory Proc_Source_Facts
  imports Proc_Source Proc_Sample "HOL-Library.Sublist"
begin

text \<open>
  The contract of the procfs port and its implementation: a locale states what a client of
  \<open>ProcSource::snapshot\<close> and \<open>cpu_counters\<close> may rely on, and the Linux adapter is an
  interpretation of it over every operating system. The rest: exact degradations, the optional
  files, the fd count, the public error report. A concrete guest serves the witnesses.
\<close>

section \<open>The contract of the port\<close>

text \<open>A snapshot is of the requested process, and its CPU count can divide.\<close>

locale proc_port =
  fixes snapshot :: "i32 \<Rightarrow> ('w, proc_snapshot) proc_io"
    and counters :: "i32 \<Rightarrow> ('w, cpu_counters) proc_io"
  assumes snapshot_pid: "snapshot pid w = (Inr s, w') \<Longrightarrow> \<exists>st. parse_stat (sn_stat s) = Inr st \<and> st_pid st = pid"
    and snapshot_cpus: "snapshot pid w = (Inr s, w') \<Longrightarrow> sn_logical_cpus s \<noteq> 0"
    and snapshot_pages: "snapshot pid w = (Inr s, w') \<Longrightarrow> sn_page_size_bytes s \<noteq> 0"
begin

lemma snapshot_stat:
  assumes "snapshot pid w = (Inr s, w')" "parse_stat (sn_stat s) = Inr st"
  shows "st_pid st = pid"
  using snapshot_pid [OF assms(1)] assms(2) by auto

lemma snapshot_stat_ok:
  "snapshot pid w = (Inr s, w') \<Longrightarrow> parse_stat (sn_stat s) \<noteq> Inl e"
  using snapshot_pid by fastforce

end

section \<open>One snapshot, one process\<close>

lemma read_adjacent_Inr_iff:
  "read_adjacent_cpu_pair f g w = (Inr (p, s), w'') \<longleftrightarrow> (\<exists>w'. f w = (Inr p, w') \<and> g w' = (Inr s, w''))"
  by (auto simp: read_adjacent_cpu_pair_def io_iffs)

lemma stable_generation_Inr_iff:
  "with_stable_process_generation pid g rs rf w = (Inr x, w'') \<longleftrightarrow>
     pg_pid g = pid \<and> (\<exists>w'. rs w = (Inr x, w') \<and> rf w' = (Inr g, w''))"
  by (auto simp: with_stable_process_generation_def io_iffs split: if_splits)

lemma linux_snapshot_InrD:
  assumes "linux_snapshot printable os pid w = (Inr s, w')"
  shows "\<exists>d system w1 w2 w3 st reads cg.
    read_required_text os pid (asc ''stat'') stat_lossy_paths w = (Inr d, w1) \<and>
    read_system_cpu os w1 = (Inr system, w2) \<and>
    parse_stat (dt_value d) = Inr st \<and> st_pid st = pid \<and>
    snapshot_reads_of os pid st w2 = (Inr reads, w3) \<and>
    read_process_generation os pid w3 = (Inr (generation_of_stat st), w') \<and>
    snapshot_cgroup printable (rd_cgroup reads) = Inr cg \<and> s = assemble_snapshot d system reads cg"
  using assms
  by (auto simp: linux_snapshot_def io_iffs read_adjacent_Inr_iff stable_generation_Inr_iff
      generation_of_stat_def io_lift_def io_ok_def)

lemma snapshot_reads_stack:
  "snapshot_reads_of os pid st w = (Inr r, w') \<Longrightarrow> rd_kernel_stack r \<noteq> None \<Longrightarrow> st_state st = RS_D"
  by (auto simp: snapshot_reads_of_def io_iffs split: if_splits)

lemma page_size_nonzero: "page_size_bytes os w = (Inr p, w') \<Longrightarrow> p \<noteq> 0"
  by (auto simp: page_size_bytes_def split: prod.splits if_splits)

text \<open>C17: A snapshot the Linux adapter returns is of one process generation: its \<open>stat\<close> text is the
  first thing read, names the requested pid, and the last thing read after every other file is
  again a \<open>stat\<close> of the same pid and start time, so a process that exited, or whose pid was
  reused meanwhile, is never reported; the kernel stack is read only in state D.\<close>

theorem snapshot_is_of_one_generation:
  assumes "linux_snapshot printable os pid w = (Inr s, w')"
  shows "\<exists>d st w1 w2. read_required_text os pid (asc ''stat'') stat_lossy_paths w = (Inr d, w1) \<and>
    sn_stat s = dt_value d \<and> parse_stat (sn_stat s) = Inr st \<and> st_pid st = pid \<and>
    read_process_generation os pid w2 =
      (Inr \<lparr>pg_pid = pid, pg_start_time_ticks = st_process_start_time_ticks st\<rparr>, w') \<and>
    (sn_kernel_stack s = None \<or> st_state st = RS_D)"
proof -
  from linux_snapshot_InrD [OF assms] obtain d system w1 w2 w3 st reads cg where
    r: "read_required_text os pid (asc ''stat'') stat_lossy_paths w = (Inr d, w1)"
      "parse_stat (dt_value d) = Inr st" "st_pid st = pid"
      "snapshot_reads_of os pid st w2 = (Inr reads, w3)"
      "read_process_generation os pid w3 = (Inr (generation_of_stat st), w')"
    and s: "s = assemble_snapshot d system reads cg" by blast
  have "rd_kernel_stack reads = None \<or> st_state st = RS_D"
    using snapshot_reads_stack [OF r(4)] by blast
  with r s show ?thesis by (auto simp: generation_of_stat_def assemble_snapshot_def)
qed

lemma read_system_cpu_nonzero: "read_system_cpu os w = (Inr c, w') \<Longrightarrow> sc_logical_cpus c \<noteq> 0"
  by (auto simp: read_system_cpu_def io_iffs parse_system_cpu_def result_iffs Let_def split: if_splits)

lemma snapshot_reads_pages: "snapshot_reads_of os pid st w = (Inr r, w') \<Longrightarrow> rd_page_size_bytes r \<noteq> 0"
  by (auto simp: snapshot_reads_of_def io_iffs dest: page_size_nonzero)

interpretation linux_port: proc_port "linux_snapshot printable os" "linux_cpu_counters os"
  for printable os
proof
  fix pid w s w'
  assume "linux_snapshot printable os pid w = (Inr s, w')"
  from linux_snapshot_InrD [OF this] obtain d system w1 w2 w3 st reads cg where r:
    "read_system_cpu os w1 = (Inr system, w2)" "parse_stat (dt_value d) = Inr st" "st_pid st = pid"
    "snapshot_reads_of os pid st w2 = (Inr reads, w3)" and s: "s = assemble_snapshot d system reads cg" by blast
  from r s show "\<exists>st. parse_stat (sn_stat s) = Inr st \<and> st_pid st = pid"
    by (auto simp: assemble_snapshot_def)
  from r s show "sn_logical_cpus s \<noteq> 0" "sn_page_size_bytes s \<noteq> 0"
    by (auto simp: assemble_snapshot_def dest: read_system_cpu_nonzero snapshot_reads_pages)
qed

text \<open>A run of the adapter on the unchanging guest.\<close>

lemma steady_snapshot:
  "\<exists>s n. linux_snapshot (\<lambda>_. True) (steady_guest ''D'') 7 0 = (Inr s, n) \<and>
     map dg_path (sn_degradations s) = [asc ''identity.cmdline'']"
proof -
  have "(case fst (linux_snapshot (\<lambda>_. True) (steady_guest ''D'') 7 0) of Inl e \<Rightarrow> False
      | Inr s \<Rightarrow> map dg_path (sn_degradations s) = [asc ''identity.cmdline''])" by code_simp
  then show ?thesis
    by (auto split: sum.splits simp: eq_fst_iff [symmetric] prod_eq_iff)
qed

theorem snapshot_is_of_one_generation_witness:
  "\<exists>s n d st w1 w2. linux_snapshot (\<lambda>_. True) (steady_guest ''D'') 7 0 = (Inr s, n) \<and>
     read_required_text (steady_guest ''D'') 7 (asc ''stat'') stat_lossy_paths 0 = (Inr d, w1) \<and>
     sn_stat s = dt_value d \<and> parse_stat (sn_stat s) = Inr st \<and> st_pid st = 7 \<and>
     read_process_generation (steady_guest ''D'') 7 w2 =
       (Inr \<lparr>pg_pid = 7, pg_start_time_ticks = st_process_start_time_ticks st\<rparr>, n)"
proof -
  from steady_snapshot obtain s n where run: "linux_snapshot (\<lambda>_. True) (steady_guest ''D'') 7 0 = (Inr s, n)"
    by blast
  from snapshot_is_of_one_generation [OF run] run show ?thesis by blast
qed

lemma replaced_process_is_not_found:
  "linux_snapshot (\<lambda>_. True) reusing_guest 7 0 = (Inl (ProcNotFound 7), 12)"
  by code_simp

section \<open>Degradations\<close>

lemma is_utf8_encode: "valid_str s \<Longrightarrow> is_utf8 (encode_utf8 s)"
  by (auto simp: is_utf8_iff)

text \<open>Decoding a procfs file reports exactly the replaced bytes: for well-formed UTF-8 the text
  encodes back to the very bytes read and no degradation is recorded; otherwise the text differs
  from the bytes and one degradation is recorded for each affected field, in order.\<close>

theorem decode_proc_text_reports_replacement:
  "let d = decode_proc_text bs what paths in
     if is_utf8 bs then encode_utf8 (dt_value d) = bs \<and> dt_degradations d = []
     else encode_utf8 (dt_value d) \<noteq> bs \<and>
       dt_degradations d = map (\<lambda>p. new_degradation p (lossy_reason what)) paths"
proof -
  have "is_utf8 (encode_utf8 (from_utf8_lossy bs))"
    by (simp add: is_utf8_encode from_utf8_lossy_valid)
  then have "\<not> is_utf8 bs \<Longrightarrow> encode_utf8 (from_utf8_lossy bs) \<noteq> bs" by auto
  then show ?thesis
    by (simp add: decode_proc_text_def invalid_utf8_degradations_def Let_def is_utf8_decode)
qed

text \<open>The fields a lossy read can affect, in the order the adapter reports them.\<close>

definition all_lossy_paths :: "str list" where
  "all_lossy_paths = stat_lossy_paths @ status_lossy_paths @ maps_lossy_paths @ cmdline_lossy_paths
     @ wchan_lossy_paths @ stack_lossy_paths @ exe_lossy_paths @ cgroup_lossy_paths"

lemma invalid_utf8_degradations_paths:
  "subseq (map dg_path (invalid_utf8_degradations bs what ps)) ps"
  by (simp add: invalid_utf8_degradations_def new_degradation_def o_def)

lemma decode_paths: "subseq (map dg_path (dt_degradations (decode_proc_text bs what ps))) ps"
  by (simp add: decode_proc_text_def invalid_utf8_degradations_paths)

lemma read_required_paths:
  "read_required_text os pid leaf ps w = (Inr d, w') \<Longrightarrow> subseq (map dg_path (dt_degradations d)) ps"
  by (auto simp: read_required_text_def io_iffs Let_def decode_paths)

lemma optional_read_InrD:
  "optional_read os pid path get decode w = (Inr x, w') \<Longrightarrow> x = None \<or> (\<exists>bs. x = Some (decode bs))"
  by (auto simp: optional_read_def absent_or_gone_def split: prod.splits sum.splits if_splits)

lemma optional_read_paths:
  assumes "optional_read os pid path get (\<lambda>bs. decode_proc_text bs what ps) w = (Inr x, w')"
  shows "subseq (map dg_path (optional_degradations x)) ps"
  using optional_read_InrD [OF assms] decode_paths by (auto simp: optional_degradations_def)


lemmas lossy_paths_defs = stat_lossy_paths_def status_lossy_paths_def maps_lossy_paths_def
  cmdline_lossy_paths_def wchan_lossy_paths_def stack_lossy_paths_def exe_lossy_paths_def cgroup_lossy_paths_def

lemma snapshot_reads_paths:
  assumes "snapshot_reads_of os pid st w = (Inr r, w')"
  shows "subseq (map dg_path (dt_degradations (rd_status r))) status_lossy_paths"
    "subseq (map dg_path (dt_degradations (rd_maps r))) maps_lossy_paths"
    "subseq (map dg_path (optional_degradations (rd_wchan r))) wchan_lossy_paths"
    "subseq (map dg_path (optional_degradations (rd_kernel_stack r))) stack_lossy_paths"
    "subseq (map dg_path (optional_degradations (rd_exe r))) exe_lossy_paths"
    "subseq (map dg_path (optional_degradations (rd_cgroup r))) cgroup_lossy_paths"
  using assms
  by (auto simp: snapshot_reads_of_def io_iffs read_optional_text_def read_exe_def Let_def
      optional_degradations_def [of None]
      dest!: read_required_paths optional_read_paths split: if_splits)

text \<open>The degradations of a snapshot name each affected field at most once, in a fixed order, and
  nothing else: their paths are a subsequence of the nine fields a lossy read can affect.\<close>

theorem snapshot_degradations_in_order:
  assumes "linux_snapshot printable os pid w = (Inr s, w')"
  shows "subseq (map dg_path (sn_degradations s)) all_lossy_paths \<and> length (sn_degradations s) \<le> 9"
proof -
  from linux_snapshot_InrD [OF assms] obtain d system w1 w2 w3 st reads cg where
    r: "read_required_text os pid (asc ''stat'') stat_lossy_paths w = (Inr d, w1)"
      "snapshot_reads_of os pid st w2 = (Inr reads, w3)" "s = assemble_snapshot d system reads cg" by blast
  note emb = list_emb_append_mono read_required_paths [OF r(1)] snapshot_reads_paths [OF r(2)]
    invalid_utf8_degradations_paths
  have "subseq (map dg_path (sn_degradations s)) all_lossy_paths"
    unfolding r(3) by (simp add: assemble_snapshot_def snapshot_degradations_def all_lossy_paths_def emb)
  from this list_emb_length [OF this] show ?thesis
    by (simp add: all_lossy_paths_def lossy_paths_defs)
qed

theorem snapshot_degradations_in_order_witness:
  "\<exists>s n. linux_snapshot (\<lambda>_. True) (steady_guest ''D'') 7 0 = (Inr s, n) \<and>
     map dg_path (sn_degradations s) = [asc ''identity.cmdline''] \<and>
     subseq (map dg_path (sn_degradations s)) all_lossy_paths"
proof -
  from steady_snapshot obtain s n where run: "linux_snapshot (\<lambda>_. True) (steady_guest ''D'') 7 0 = (Inr s, n)"
    and d: "map dg_path (sn_degradations s) = [asc ''identity.cmdline'']" by (elim exE conjE) (rule that)
  from snapshot_degradations_in_order [OF run] run d show ?thesis
    by (intro exI [of _ s] exI [of _ n]) simp
qed

section \<open>Optional files and the fd count\<close>

text \<open>An optional file is reported absent exactly when the file was not found and \<open>/proc/<pid>\<close>
  was then still there; when \<open>/proc/<pid>\<close> is gone too the answer is \<open>ProcNotFound\<close>; a file that
  was read is never dropped, whatever its bytes.\<close>

theorem read_optional_text_absent_or_gone:
  "(read_optional_text os pid leaf ps w = (Inr None, w'') \<longleftrightarrow>
      (\<exists>e w'. os_read os (proc_path pid leaf) w = (Inl e, w') \<and> ie_kind e = NotFound \<and>
         os_metadata os (proc_dir pid) w' = (Inr (), w''))) \<and>
   (read_optional_text os pid leaf ps w = (Inr (Some d), w'') \<longleftrightarrow>
      (\<exists>bs. os_read os (proc_path pid leaf) w = (Inr bs, w'') \<and> d = decode_proc_text bs leaf ps)) \<and>
   (os_read os (proc_path pid leaf) w = (Inl e, w') \<and> ie_kind e = NotFound \<and>
      os_metadata os (proc_dir pid) w' = (Inl e', w'') \<and> ie_kind e' = NotFound \<longrightarrow>
      read_optional_text os pid leaf ps w = (Inl (ProcNotFound pid), w''))"
  by (auto simp: read_optional_text_def optional_read_def absent_or_gone_def Let_def
      split: prod.splits sum.splits if_splits)

theorem read_optional_text_absent_or_gone_witness:
  "read_optional_text (steady_guest ''S'') 7 (asc ''wchan'') wchan_lossy_paths 0 = (Inr None, 2) \<and>
   read_optional_text (steady_guest ''S'') 8 (asc ''wchan'') wchan_lossy_paths 0 = (Inl (ProcNotFound 8), 2)"
proof -
  have "os_read (steady_guest ''S'') (proc_path 7 (asc ''wchan'')) 0 = (Inl no_such_file, 1)"
    "os_metadata (steady_guest ''S'') (proc_dir 7) 1 = (Inr (), 2)"
    "os_read (steady_guest ''S'') (proc_path 8 (asc ''wchan'')) 0 = (Inl no_such_file, 1)"
    "os_metadata (steady_guest ''S'') (proc_dir 8) 1 = (Inl no_such_file, 2)"
    "ie_kind no_such_file = NotFound" by code_simp+
  with read_optional_text_absent_or_gone [of "steady_guest ''S''" 7 "asc ''wchan''" wchan_lossy_paths 0 2]
    read_optional_text_absent_or_gone [of "steady_guest ''S''" 8 "asc ''wchan''" wchan_lossy_paths 0 2 _ no_such_file 1 no_such_file]
  show ?thesis by blast
qed

lemma count_entries_iff:
  "count_entries pid path c es = Inr n \<longleftrightarrow>
     (\<forall>e\<in>set es. e = Inr ()) \<and> unat c + length es < 2 ^ 32 \<and> unat n = unat c + length es"
proof (induction es arbitrary: c)
  case Nil
  have "unat c < 2 ^ 32" using unsigned_less [of c] by simp
  then show ?case by (auto simp: word_unat_eq_iff)
next
  case (Cons e es)
  show ?case
  proof (cases "checked_add c 1")
    case None
    then have "2 ^ 32 \<le> unat c + 1" by (simp add: checked_add_None_iff)
    with None show ?thesis by (cases e) auto
  next
    case (Some d)
    with checked_add_SomeD [OF Some] Cons show ?thesis by (cases e) auto
  qed
qed

text \<open>The fd count is exact: it is the number of directory entries, it is given exactly when every
  entry could be read and the number fits in 32 bits, and it never wraps.\<close>

theorem read_fd_count_exact:
  "read_fd_count os pid w = (Inr n, w') \<longleftrightarrow>
     (\<exists>es. os_read_dir os (proc_path pid (asc ''fd'')) w = (Inr es, w') \<and> (\<forall>e\<in>set es. e = Inr ()) \<and>
        length es < 2 ^ 32 \<and> unat n = length es)"
proof -
  have "read_fd_count os pid w = (Inr n, w') \<longleftrightarrow>
     (\<exists>es. os_read_dir os (proc_path pid (asc ''fd'')) w = (Inr es, w') \<and>
        count_entries pid (proc_path pid (asc ''fd'')) 0 es = Inr n)"
    by (auto simp: read_fd_count_def io_map_err_def io_bind_def Let_def map_err_Inr_iff split: prod.splits sum.splits)
  then show ?thesis by (simp add: count_entries_iff)
qed

theorem read_fd_count_exact_witness:
  "read_fd_count (steady_guest ''S'') 7 0 = (Inr 3, 1)"
proof -
  have "os_read_dir (steady_guest ''S'') (proc_path 7 (asc ''fd'')) 0 = (Inr [Inr (), Inr (), Inr ()], 1)"
    by (simp add: steady_guest_def guest_os_def)
  then show ?thesis
    unfolding read_fd_count_exact by (intro exI [of _ "[Inr (), Inr (), Inr ()]"]) simp
qed

section \<open>What an I/O error reveals\<close>

lemma proc_dir_not_public: "\<not> public_label (asc ''/proc/'' @ t)"
  by (auto simp: public_label_def exact_fields_def asc_eval)

text \<open>The public report of a failed read depends on the class of the failure and the pid alone:
  neither the path, nor the file, nor the text of the OS error can be told from it.\<close>

theorem io_error_report_hides_details:
  assumes "classify_proc_io e ProcessScope = classify_proc_io e' ProcessScope"
  shows "to_error_report (map_process_io e pid (proc_path pid leaf)) =
    to_error_report (map_process_io e' pid (proc_path pid leaf'))"
proof -
  have "public_proc_field (proc_path pid f) = None" for f
    using public_proc_field_iff [of "proc_path pid f"] proc_dir_not_public
    by (cases "public_proc_field (proc_path pid f)") (auto simp: proc_path_def proc_dir_def)
  with assms show ?thesis
    by (simp add: map_process_io_def split: proc_io_error_class.split)
qed

theorem io_error_report_hides_details_witness:
  "to_error_report (map_process_io (io_error_of InvalidData (asc ''secret'')) 7 (proc_path 7 (asc ''maps''))) =
     to_error_report (map_process_io (io_error_of InvalidData (asc ''other'')) 7 (proc_path 7 (asc ''status'')))"
  by (rule io_error_report_hides_details) (simp add: classify_proc_io_def io_error_of_def)

end
