(* ===== verification/Symbolizer.thy ===== *)
theory Symbolizer
  imports Schema Rust_Num
begin

text \<open>
  The symbolizer port of \<open>symbolize.rs\<close>: its errors, the fallback, the conversion of a blazesym
  answer with its confidence, and the cross check of a client. The blazesym library is not part of
  the sources: what the code matches of its answers is a datatype, its lookup is a parameter.
\<close>

section \<open>Errors\<close>

datatype symbolize_error =
    SymNotFound str
  | NoSymbolFile
  | Backend str
  | QueueFull
  | Timeout
  | WorkerStopped
  | WorkerPanic
  | ShutdownTimeout

fun symbolize_error_text :: "symbolize_error \<Rightarrow> str" where
  "symbolize_error_text (SymNotFound addr) = ([22320, 22336] @ asc '' '') @ addr @ (asc '' '' @ [36229, 20986, 24050, 30693, 31526, 21495, 33539, 22260])"
| "symbolize_error_text NoSymbolFile = [31526, 21495, 25991, 20214, 19981, 21487, 33719, 24471]"
| "symbolize_error_text (Backend reason) = (asc ''blazesym '' @ [21518, 31471, 35843, 29992, 22833, 36133, 65306]) @ reason"
| "symbolize_error_text QueueFull = [31526, 21495, 21270, 35831, 27714, 38431, 21015, 24050, 28385]"
| "symbolize_error_text Timeout = [31526, 21495, 21270, 35831, 27714, 36229, 26102]"
| "symbolize_error_text WorkerStopped = ([31526, 21495, 21270] @ asc '' worker '' @ [24050, 20572, 27490])"
| "symbolize_error_text WorkerPanic = ([31526, 21495, 21270] @ asc '' worker panic'')"
| "symbolize_error_text ShutdownTimeout = ([31526, 21495, 21270] @ asc '' worker '' @ [20851, 38381, 36229, 26102])"

fun symbolize_error_kind :: "symbolize_error \<Rightarrow> str" where
  "symbolize_error_kind (SymNotFound addr) = asc ''not_found''"
| "symbolize_error_kind NoSymbolFile = asc ''no_symbol_file''"
| "symbolize_error_kind (Backend reason) = asc ''backend''"
| "symbolize_error_kind QueueFull = asc ''queue_full''"
| "symbolize_error_kind Timeout = asc ''timeout''"
| "symbolize_error_kind WorkerStopped = asc ''worker_stopped''"
| "symbolize_error_kind WorkerPanic = asc ''worker_panic''"
| "symbolize_error_kind ShutdownTimeout = asc ''shutdown_timeout''"

type_synonym sym_result = "symbolize_error + symbolized"

section \<open>The fallback and the blazesym backend\<close>

definition fallback_symbolize :: "u64 \<Rightarrow> sym_result" where
  "fallback_symbolize addr = Inl (SymNotFound (fmt_addr addr))"

record blaze_sym =
  bs_name :: str
  bs_offset :: u64
  bs_has_code_info :: bool

datatype blaze_answer = BlazeSym blaze_sym | BlazeMissingSyms | BlazeUnknown

datatype blaze_error = BlazeNotFound | BlazeOther str

definition map_blaze_error :: "blaze_error \<Rightarrow> symbolize_error" where
  "map_blaze_error e = (case e of BlazeNotFound \<Rightarrow> NoSymbolFile | BlazeOther txt \<Rightarrow> Backend txt)"

definition kernel_blaze_confidence :: "blaze_sym \<Rightarrow> symbol_confidence" where
  "kernel_blaze_confidence s =
     (if bs_has_code_info s then Dwarf else if bs_name s \<noteq> [] then Kallsyms else NoConfidence)"

definition blaze_to_symbolized :: "blaze_answer \<Rightarrow> u64 \<Rightarrow> sym_result" where
  "blaze_to_symbolized answer addr =
     (case answer of
        BlazeSym s \<Rightarrow> Inr \<lparr>sy_name = bs_name s @ asc ''+0x'' @ fmt_hex (uint (bs_offset s)),
                        sy_source = kernel_blaze_confidence s\<rparr>
      | BlazeMissingSyms \<Rightarrow> Inl NoSymbolFile
      | BlazeUnknown \<Rightarrow> Inl (SymNotFound (fmt_addr addr)))"

definition kernel_symbolize :: "(u64 \<Rightarrow> blaze_error + blaze_answer) \<Rightarrow> u64 \<Rightarrow> sym_result" where
  "kernel_symbolize symbolize_single addr =
     rbind (map_err map_blaze_error (symbolize_single addr)) (\<lambda>answer. blaze_to_symbolized answer addr)"

definition unavailable_symbolize :: "u64 \<Rightarrow> sym_result" where
  "unavailable_symbolize addr = Inl NoSymbolFile"

section \<open>The cross check\<close>

text \<open>\<open>split('+').next()\<close>.\<close>

definition before_plus :: "str \<Rightarrow> str" where
  "before_plus s = takeWhile (\<lambda>c. c \<noteq> ch CHR ''+'') s"

definition cross_check :: "sym_result \<Rightarrow> str \<Rightarrow> str option" where
  "cross_check answer expected_top_frame =
     (case answer of
        Inl e \<Rightarrow> Some ([31526, 21495, 21270, 22833, 36133, 65306] @ symbolize_error_text e)
      | Inr symbol \<Rightarrow>
          (let actual = before_plus (sy_name symbol); expected = before_plus expected_top_frame
           in if actual = expected then None
              else Some ((asc ''wchan/symbol='') @ actual @ (asc '' '' @ [19982] @ asc '' stack'' @ [39030, 24103] @ asc ''='') @ expected @ (asc '' '' @ [19981, 33258, 27965]))))"

lemmas symbolizer_eval [text_eval] = before_plus_def cross_check_def

section \<open>What the confidences mean\<close>

text \<open>A kernel symbol is never graded above its evidence: \<open>Dwarf\<close> only with code information,
  \<open>Kallsyms\<close> only with a non-empty name, and the name carries the offset, so a client's cross check
  against the bare symbol of the same frame succeeds.\<close>

theorem kernel_symbol_graded_by_evidence:
  assumes "kernel_symbolize symbolize_single addr = Inr s"
  shows "\<exists>b. symbolize_single addr = Inr (BlazeSym b) \<and>
    (sy_source s = Dwarf \<longleftrightarrow> bs_has_code_info b) \<and>
    (Kallsyms \<le> sy_source s \<longleftrightarrow> bs_has_code_info b \<or> bs_name b \<noteq> []) \<and>
    (ch CHR ''+'' \<notin> set (bs_name b) \<longrightarrow>
       before_plus (sy_name s) = bs_name b \<and> cross_check (Inr s) (bs_name b @ asc ''+0x1/0x2'') = None)"
proof -
  from assms obtain b where b: "symbolize_single addr = Inr (BlazeSym b)" "blaze_to_symbolized (BlazeSym b) addr = Inr s"
  proof -
    from assms obtain a where "symbolize_single addr = Inr a" "blaze_to_symbolized a addr = Inr s"
      by (auto simp: kernel_symbolize_def result_iffs)
    then show thesis using that by (cases a) (auto simp: blaze_to_symbolized_def)
  qed
  have p: "before_plus (n @ 43 # t) = n" if "43 \<notin> set n" for n t
    using that by (auto simp: before_plus_def intro!: takeWhile_stop)
  from b p [of "bs_name b" "48 # 120 # fmt_hex (uint (bs_offset b))"] p [of "bs_name b" "asc ''0x1/0x2''"] show ?thesis
    by (cases "43 \<in> set (bs_name b)")
      (auto simp: blaze_to_symbolized_def kernel_blaze_confidence_def less_eq_symbol_confidence_def
        cross_check_def Let_def asc_eval split: if_splits)
qed

theorem kernel_symbol_graded_by_evidence_witness:
  "\<exists>b. (\<lambda>_. Inr (BlazeSym \<lparr>bs_name = asc ''do_wait'', bs_offset = 16, bs_has_code_info = False\<rparr>)) (1 :: u64)
      = (Inr (BlazeSym b) :: blaze_error + blaze_answer) \<and> bs_name b = asc ''do_wait'' \<and>
    cross_check (Inr \<lparr>sy_name = asc ''do_wait+0x10'', sy_source = Kallsyms\<rparr>) (bs_name b @ asc ''+0x1/0x2'') = None"
proof -
  let ?f = "\<lambda>_ :: u64. Inr (BlazeSym \<lparr>bs_name = asc ''do_wait'', bs_offset = 16, bs_has_code_info = False\<rparr>) :: blaze_error + blaze_answer"
  have "kernel_symbolize ?f 1 = Inr \<lparr>sy_name = asc ''do_wait+0x10'', sy_source = Kallsyms\<rparr>" by code_simp
  from kernel_symbol_graded_by_evidence [OF this] show ?thesis by (auto simp: asc_eval)
qed

end
