(* ===== verification/Confidence.thy ===== *)
theory Confidence
  imports Schema Rust_Float Rust_Num
begin

text \<open>
  Confidence bookkeeping of \<open>introspect.rs\<close>: merging low-confidence fields, and the overall score
  computed in \<open>f32\<close> with its rounding.
\<close>

section \<open>Low-confidence fields\<close>

definition merged_confidence :: "symbol_confidence option \<Rightarrow> symbol_confidence \<Rightarrow> symbol_confidence" where
  "merged_confidence existing confidence =
     (case existing of
        Some current \<Rightarrow> if fl_le (score current) (score confidence) then current else confidence
      | None \<Rightarrow> confidence)"

definition merge_into :: "symbol_confidence \<Rightarrow> str \<Rightarrow> low_confidence_field \<Rightarrow> low_confidence_field" where
  "merge_into confidence reason existing =
     existing\<lparr>lf_confidence := Some (merged_confidence (lf_confidence existing) confidence),
       lf_reason := (if lf_reason existing \<noteq> reason then lf_reason existing @ asc ''; '' @ reason
                     else lf_reason existing)\<rparr>"

fun merge_low_confidence_field ::
  "str \<Rightarrow> symbol_confidence \<Rightarrow> str \<Rightarrow> low_confidence_field list \<Rightarrow> low_confidence_field list" where
  "merge_low_confidence_field path confidence reason [] =
     [\<lparr>lf_path = path, lf_confidence = Some confidence, lf_reason = reason\<rparr>]"
| "merge_low_confidence_field path confidence reason (lf # lfs) =
     (if lf_path lf = path then merge_into confidence reason lf # lfs
      else lf # merge_low_confidence_field path confidence reason lfs)"

section \<open>The overall score\<close>

definition frame_symbol_confidence :: "stack_frame \<Rightarrow> symbol_confidence" where
  "frame_symbol_confidence frame =
     (case (sf_symbol frame, sf_confidence frame) of
        (Some s, Some confidence) \<Rightarrow> confidence
      | _ \<Rightarrow> NoConfidence)"

definition f32_sum :: "f32 list \<Rightarrow> f32" where
  "f32_sum xs = foldl (fl_add binary32) (Fin 0) xs"

definition symbol_component :: "hotspot \<Rightarrow> f32" where
  "symbol_component hotspot =
     (case hotspot of
        Blocked frames \<Rightarrow>
          if frames \<noteq> [] then
            fl_div binary32 (f32_sum (map (\<lambda>f. score (frame_symbol_confidence f)) frames))
              (fl_of_int binary32 (int (length frames)))
          else Fin 1
      | NotBlocked \<Rightarrow> Fin 1)"

text \<open>The literal \<open>0.1\<close> of type \<open>f32\<close>.\<close>

definition tenth :: f32 where
  "tenth = to_float binary32 (1 / 10)"

definition overall_divisor :: "nat \<Rightarrow> f32" where
  "overall_divisor n = fl_add binary32 (Fin 1) (fl_mul binary32 tenth (fl_of_int binary32 (int n)))"

definition calculate_overall_confidence :: "hotspot \<Rightarrow> low_confidence_field list \<Rightarrow> f32" where
  "calculate_overall_confidence hotspot low_fields =
     fl_clamp (fl_div binary32 (symbol_component hotspot) (overall_divisor (length low_fields))) (Fin 0) (Fin 1)"

end
