(* ===== verification/Introspect.thy ===== *)
theory Introspect
  imports Proc_Source Proc_Maps Symbolizer Confidence
begin

text \<open>
  The Level 0 use case of \<open>introspect.rs\<close>: validation, the CPU sample over two reads, the
  projection of a snapshot into \<open>Level0\<close> with the confidence it deserves, and the assembly with a
  symbolizer worker. The ports are parameters that act on a world: the procfs source, the
  symbolizer, the clock (an \<open>Instant\<close> and a \<open>Duration\<close> are nanoseconds). \<open>serde_json\<close> is a
  parameter as well: \<open>json_len\<close> is the length of its encoding of a \<open>Level0\<close>.
\<close>

section \<open>The ports\<close>

record 'w proc_source =
  so_snapshot :: "i32 \<Rightarrow> ('w, proc_snapshot) proc_io"
  so_cpu_counters :: "i32 \<Rightarrow> ('w, cpu_counters) proc_io"

record 'w sample_clock =
  ck_now :: "'w \<Rightarrow> int \<times> 'w"
  ck_sleep :: "nat \<Rightarrow> 'w \<Rightarrow> 'w"

type_synonym 'w symbolizer = "u64 \<Rightarrow> ('w, symbolize_error, symbolized) io"

definition default_sample_interval :: nat where
  "default_sample_interval = 100 * 1000000"

section \<open>Validation\<close>

definition validate_requested_pid :: "i32 \<Rightarrow> unit proc_result" where
  "validate_requested_pid pid = (if pid < 1 then Inl (InvalidPid pid) else Inr ())"

definition validate_page_size :: "u64 \<Rightarrow> unit proc_result" where
  "validate_page_size page_size = (if page_size = 0 then Inl InvalidPageSize else Inr ())"

definition validate_snapshot_pid :: "i32 \<Rightarrow> i32 \<Rightarrow> unit proc_result" where
  "validate_snapshot_pid requested_pid observed_pid =
     (if requested_pid = observed_pid then Inr ()
      else Inl (ParseError (asc ''stat.pid'')
        (([35831, 27714] @ asc '' pid '') @ fmt_i32 requested_pid @ ([65292] @ asc ''stat '' @ [36820, 22238] @ asc '' pid '') @ fmt_i32 observed_pid)))"

section \<open>The CPU sample\<close>

record cpu_sample =
  cp_pct_cpu :: f32
  cp_low_confidence_reason :: "str option"

definition cpu_valid :: "f32 \<Rightarrow> cpu_sample" where
  "cpu_valid pct = \<lparr>cp_pct_cpu = pct, cp_low_confidence_reason = None\<rparr>"

definition cpu_unavailable :: "str \<Rightarrow> cpu_sample" where
  "cpu_unavailable reason = \<lparr>cp_pct_cpu = Fin 0, cp_low_confidence_reason = Some reason\<rparr>"

text \<open>The percentage in \<open>f64\<close>, with the roundings of the source.\<close>

definition cpu_percent_f64 :: "u64 \<Rightarrow> u64 \<Rightarrow> u32 \<Rightarrow> fl" where
  "cpu_percent_f64 process_delta system_delta logical_cpus =
     fl_mul binary64
       (fl_mul binary64
         (fl_div binary64 (fl_of_int binary64 (uint process_delta)) (fl_of_int binary64 (uint system_delta)))
         (fl_of_int binary64 (uint logical_cpus)))
       (Fin 100)"

definition calculate_cpu_percent :: "cpu_counters \<Rightarrow> cpu_counters \<Rightarrow> u32 \<Rightarrow> cpu_sample" where
  "calculate_cpu_percent start end1 logical_cpus =
     (case checked_sub (cc_process_ticks end1) (cc_process_ticks start) of
        None \<Rightarrow> cpu_unavailable (asc ''CPU '' @ [30701, 37319, 26679, 36827, 31243, 35745, 25968, 22120, 22238, 36864])
      | Some process_delta \<Rightarrow>
     (case checked_sub (cc_system_ticks end1) (cc_system_ticks start) of
        None \<Rightarrow> cpu_unavailable (asc ''CPU '' @ [30701, 37319, 26679, 31995, 32479, 35745, 25968, 22120, 22238, 36864])
      | Some system_delta \<Rightarrow>
        if system_delta = 0 then cpu_unavailable (asc ''CPU '' @ [30701, 37319, 26679, 31995, 32479, 35745, 25968, 22120, 22686, 37327, 20026] @ asc '' 0'')
        else if logical_cpus = 0 then cpu_unavailable (asc ''CPU '' @ [30701, 37319, 26679] @ asc '' logical_cpus '' @ [19981, 21487, 29992])
        else (let pct_cpu = cpu_percent_f64 process_delta system_delta logical_cpus
              in if \<not> is_finite pct_cpu then cpu_unavailable (asc ''CPU '' @ [30701, 37319, 26679, 32467, 26524, 19981, 26159, 26377, 38480, 25968])
                 else cpu_valid (fl_cast binary32 pct_cpu))))"

definition sample_cpu ::
  "'w proc_source \<Rightarrow> 'w sample_clock \<Rightarrow> nat \<Rightarrow> i32 \<Rightarrow> cpu_counters \<Rightarrow> u32 \<Rightarrow> ('w, cpu_sample) proc_io" where
  "sample_cpu source clock sample_interval pid start logical_cpus = (\<lambda>w.
     case so_cpu_counters source pid (ck_sleep clock sample_interval w) of
       (Inl (ProcNotFound p), w') \<Rightarrow> (Inl (ProcNotFound p), w')
     | (Inl e, w') \<Rightarrow> (Inl CpuSampleFailed, w')
     | (Inr end1, w') \<Rightarrow>
         (if cc_process_start_time_ticks end1 \<noteq> cc_process_start_time_ticks start then Inl (ProcNotFound pid)
          else Inr (calculate_cpu_percent start end1 logical_cpus), w'))"

text \<open>\<open>Instant::duration_since\<close> saturates at zero.\<close>

definition measured_snapshot_span_ms :: "int \<Rightarrow> int \<Rightarrow> u64" where
  "measured_snapshot_span_ms started finished =
     word_of_int (min (max 0 (finished - started) div 1000000) (2 ^ 64 - 1))"

section \<open>The command line and the hotspot\<close>

definition cmdline_short_max :: nat where
  "cmdline_short_max = 256"

definition build_cmdline :: "bytes \<Rightarrow> cmdline" where
  "build_cmdline bs =
     (let joined = trim (map (\<lambda>c. if c = 0 then 32 else c) (from_utf8_lossy bs));
          short = take cmdline_short_max joined
      in \<lparr>cl_short = (if cmdline_short_max < length joined then short @ [8230] else short),
          cl_full_len = byte_len joined\<rparr>)"

text \<open>\<open>trim_start_matches("0x")\<close>: the prefix goes as often as it is there.\<close>

fun trim_0x :: "str \<Rightarrow> str" where
  "trim_0x (a # b # s) = (if a = ch CHR ''0'' \<and> b = ch CHR ''x'' then trim_0x s else a # b # s)"
| "trim_0x s = s"

definition frame_addr :: "str \<Rightarrow> u64" where
  "frame_addr addr_s = (case parse_hex_u64 (trim_0x addr_s) of Inl e \<Rightarrow> 0 | Inr a \<Rightarrow> a)"

definition frame_path :: "nat \<Rightarrow> str" where
  "frame_path idx = asc ''hotspot.frames['' @ fmt_dec (int idx) @ asc ''].symbol''"

definition symbolizer_failed_field :: "nat \<Rightarrow> symbolize_error \<Rightarrow> low_confidence_field" where
  "symbolizer_failed_field idx e =
     \<lparr>lf_path = frame_path idx, lf_confidence = Some Kallsyms,
      lf_reason = asc ''symbolizer failed: error_kind='' @ symbolize_error_kind e
        @ asc ''; fallback=raw_kallsyms; retained raw kernel Kallsyms symbol; detail='' @ symbolize_error_text e\<rparr>"

definition make_frame :: "nat \<Rightarrow> str \<Rightarrow> symbolized \<Rightarrow> stack_frame" where
  "make_frame idx addr_s symbol =
     \<lparr>sf_idx = idx, sf_addr = addr_s, sf_symbol = Some symbol, sf_confidence = Some (sy_source symbol)\<rparr>"

fun hotspot_frames ::
  "'w symbolizer \<Rightarrow> nat \<Rightarrow> (str \<times> str) list \<Rightarrow> 'w \<Rightarrow> (stack_frame list \<times> low_confidence_field list) \<times> 'w" where
  "hotspot_frames symbolize idx [] w = (([], []), w)"
| "hotspot_frames symbolize idx ((addr_s, raw_symbol) # stack) w =
     (case symbolize (frame_addr addr_s) w of
        (Inr symbol, w1) \<Rightarrow>
          (case hotspot_frames symbolize (Suc idx) stack w1 of
             ((frames, low), w2) \<Rightarrow> ((make_frame idx addr_s symbol # frames, low), w2))
      | (Inl e, w1) \<Rightarrow>
          (case hotspot_frames symbolize (Suc idx) stack w1 of
             ((frames, low), w2) \<Rightarrow>
               ((make_frame idx addr_s \<lparr>sy_name = raw_symbol, sy_source = Kallsyms\<rparr> # frames,
                 symbolizer_failed_field idx e # low), w2)))"

definition symbolizer_confidence_path :: str where
  "symbolizer_confidence_path = asc ''hotspot.frames''"

definition build_hotspot ::
  "run_state \<Rightarrow> (str \<times> str) list \<Rightarrow> 'w symbolizer \<Rightarrow> 'w \<Rightarrow> (hotspot \<times> low_confidence_field list) \<times> 'w" where
  "build_hotspot state kernel_stack symbolize w =
     (if state \<noteq> RS_D then ((NotBlocked, []), w)
      else if kernel_stack = [] then
        ((Blocked [], [\<lparr>lf_path = asc ''hotspot.frames'', lf_confidence = Some NoConfidence,
           lf_reason = asc ''D-state kernel stack unavailable''\<rparr>]), w)
      else (case hotspot_frames symbolize 0 (take (min mem_shape_top_n (length kernel_stack)) kernel_stack) w of
          ((frames, low_fields), w') \<Rightarrow> ((Blocked frames, low_fields), w')))"

section \<open>The confidence summary\<close>

definition normalize_kernel_symbol :: "str \<Rightarrow> str" where
  "normalize_kernel_symbol value = before_plus (trim value)"

definition note_unsymbolized :: "stack_frame \<Rightarrow> low_confidence_field list \<Rightarrow> low_confidence_field list" where
  "note_unsymbolized frame low_fields =
     (if frame_symbol_confidence frame = NoConfidence
      then merge_low_confidence_field (frame_path (sf_idx frame)) NoConfidence
        (asc ''blocked frame symbolization failed or produced no confidence'') low_fields
      else low_fields)"

definition note_mismatch ::
  "str option \<Rightarrow> (str \<times> str) list \<Rightarrow> hotspot \<Rightarrow> low_confidence_field list \<Rightarrow> low_confidence_field list" where
  "note_mismatch wchan_raw raw_kernel_stack hotspot low_fields =
     (case (wchan_raw, hotspot, raw_kernel_stack) of
        (Some wchan_name, Blocked (top_frame # frames), (raw_addr, raw_top_symbol) # stack) \<Rightarrow>
          (let expected = normalize_kernel_symbol wchan_name;
               actual = normalize_kernel_symbol raw_top_symbol;
               reason = asc ''wchan/top frame mismatch: wchan='' @ expected @ asc '', stack='' @ actual
           in if actual \<noteq> expected
              then merge_low_confidence_field (frame_path (sf_idx top_frame)) (frame_symbol_confidence top_frame) reason
                (merge_low_confidence_field (asc ''state.wchan'') Kallsyms reason low_fields)
              else low_fields)
      | _ \<Rightarrow> low_fields)"

definition build_confidence ::
  "str option \<Rightarrow> (str \<times> str) list \<Rightarrow> hotspot \<Rightarrow> low_confidence_field list \<Rightarrow> confidence_summary" where
  "build_confidence wchan_raw raw_kernel_stack hotspot initial_low_fields =
     (let low1 = (case hotspot of Blocked frames \<Rightarrow> fold note_unsymbolized frames initial_low_fields
                  | NotBlocked \<Rightarrow> initial_low_fields);
          low_fields = note_mismatch wchan_raw raw_kernel_stack hotspot low1
      in \<lparr>cf_overall = calculate_overall_confidence hotspot low_fields, cf_low_fields = low_fields\<rparr>)"

definition merge_proc_degradation :: "proc_degradation \<Rightarrow> low_confidence_field list \<Rightarrow> low_confidence_field list" where
  "merge_proc_degradation d = merge_low_confidence_field (dg_path d) NoConfidence (dg_reason d)"

definition merge_proc_degradations ::
  "proc_degradation list \<Rightarrow> low_confidence_field list \<Rightarrow> low_confidence_field list" where
  "merge_proc_degradations degradations low_fields = fold merge_proc_degradation degradations low_fields"

section \<open>Level 0\<close>

text \<open>The token estimate: four bytes of JSON to a token, of the value with the token field cleared.\<close>

definition set_token :: "u32 \<Rightarrow> level0 \<Rightarrow> level0" where
  "set_token t l0 = l0\<lparr>l0_cost_hint := (l0_cost_hint l0)\<lparr>ch_token := t\<rparr>\<rparr>"

definition estimate_level0_tokens :: "(level0 \<Rightarrow> u64) \<Rightarrow> level0 \<Rightarrow> u32" where
  "estimate_level0_tokens json_len l0 =
     ucast (min (saturating_add (json_len (set_token 0 l0)) 3 div 4) 0xFFFFFFFF)"

text \<open>The fields in doubt that do not depend on the symbolizer, in the order of the source.\<close>

definition missing_context_switches :: "status \<Rightarrow> str list" where
  "missing_context_switches st =
     (if \<not> su_has_voluntary st then [asc ''voluntary_ctxt_switches''] else [])
     @ (if \<not> su_has_nonvoluntary st then [asc ''nonvoluntary_ctxt_switches''] else [])"

fun join_and :: "str list \<Rightarrow> str" where
  "join_and [] = []"
| "join_and [x] = x"
| "join_and (x # y # zs) = x @ asc '' and '' @ join_and (y # zs)"

definition note_if :: "bool \<Rightarrow> string \<Rightarrow> str \<Rightarrow> low_confidence_field list \<Rightarrow> low_confidence_field list" where
  "note_if b path reason low_fields =
     (if b then merge_low_confidence_field (asc path) NoConfidence reason low_fields else low_fields)"

fun is_unknown :: "run_state \<Rightarrow> bool" where
  "is_unknown (Unknown c) = True"
| "is_unknown s = False"

definition note_state :: "run_state \<Rightarrow> str option \<Rightarrow> low_confidence_field list \<Rightarrow> low_confidence_field list" where
  "note_state state wchan_raw low_fields =
     note_if ((state = RS_S \<or> state = RS_D) \<and> wchan_raw = None) ''state.wchan''
       (asc ''sleeping or blocked state has no readable wchan'')
       (note_if (is_unknown state) ''state.run_state''
         (asc ''unknown kernel run state preserved as a forward-compatible fallback'') low_fields)"

definition note_fields ::
  "proc_snapshot \<Rightarrow> status \<Rightarrow> cpu_sample \<Rightarrow> low_confidence_field list \<Rightarrow> low_confidence_field list" where
  "note_fields snapshot st cpu low_fields =
     (let missing = missing_context_switches st;
          f1 = note_if (missing \<noteq> []) ''resource.ctxt_switches'' (asc ''status missing '' @ join_and missing) low_fields;
          f2 = note_if (sn_cgroup snapshot = None) ''identity.cgroup'' (asc ''cgroup path unavailable'') f1;
          f3 = note_if (sn_exe snapshot = None) ''identity.exe'' (asc ''exe target unavailable'') f2
      in case cp_low_confidence_reason cpu of None \<Rightarrow> f3
         | Some reason \<Rightarrow> merge_low_confidence_field (asc ''resource.pct_cpu'') NoConfidence reason f3)"

definition snapshot_wchan :: "proc_snapshot \<Rightarrow> str option" where
  "snapshot_wchan snapshot = Option.bind (sn_wchan snapshot) read_wchan_from_str"

definition snapshot_stack :: "proc_snapshot \<Rightarrow> (str \<times> str) list" where
  "snapshot_stack snapshot =
     (case sn_kernel_stack snapshot of None \<Rightarrow> [] | Some s \<Rightarrow> read_kernel_stack_from_str s)"

definition level0_low_fields ::
  "proc_snapshot \<Rightarrow> stat \<Rightarrow> status \<Rightarrow> parsed_maps \<Rightarrow> cpu_sample \<Rightarrow> hotspot \<Rightarrow> low_confidence_field list
    \<Rightarrow> low_confidence_field list" where
  "level0_low_fields snapshot st status1 parsed_maps1 cpu hotspot hotspot_low =
     note_fields snapshot status1 cpu
       (note_state (st_state st) (snapshot_wchan snapshot)
         (merge_proc_degradations (pm_degradations parsed_maps1)
           (merge_proc_degradations (sn_degradations snapshot)
             (cf_low_fields (build_confidence (snapshot_wchan snapshot) (snapshot_stack snapshot) hotspot hotspot_low)))))"

definition make_level0 ::
  "i32 \<Rightarrow> proc_snapshot \<Rightarrow> stat \<Rightarrow> status \<Rightarrow> parsed_maps \<Rightarrow> cpu_sample \<Rightarrow> u64 \<Rightarrow> hotspot \<Rightarrow> low_confidence_field list
    \<Rightarrow> level0" where
  "make_level0 pid snapshot st status1 parsed_maps1 cpu span_ms hotspot hotspot_low =
     (let low_fields = level0_low_fields snapshot st status1 parsed_maps1 cpu hotspot hotspot_low in
      \<lparr>l0_identity = \<lparr>id_pid = pid, id_comm = st_comm st, id_exe = sn_exe snapshot,
         id_cmdline = build_cmdline (sn_cmdline snapshot), id_uid = su_uid status1, id_cgroup = sn_cgroup snapshot\<rparr>,
       l0_state = \<lparr>pr_run_state = st_state st, pr_last_cpu = st_last_cpu st, pr_nr_threads = st_nr_threads st,
         pr_wchan = map_option (\<lambda>n. \<lparr>sy_name = n, sy_source = Kallsyms\<rparr>) (snapshot_wchan snapshot)\<rparr>,
       l0_resource = \<lparr>re_rss_bytes = saturating_mul (st_rss st) (sn_page_size_bytes snapshot),
         re_vsz_bytes = st_vsize st, re_nr_fds = sn_nr_fds snapshot, re_pct_cpu = cp_pct_cpu cpu,
         re_ctxt_switches = \<lparr>cs_voluntary = su_voluntary status1, cs_nonvoluntary = su_nonvoluntary status1\<rparr>\<rparr>,
       l0_mem_shape = pm_mem_shape parsed_maps1,
       l0_hotspot = hotspot,
       l0_snapshot_span_ms = span_ms,
       l0_recent = RecorderOff,
       l0_confidence = \<lparr>cf_overall = calculate_overall_confidence hotspot low_fields, cf_low_fields = low_fields\<rparr>,
       l0_handles = default_handles,
       l0_cost_hint = \<lparr>ch_token = 0, ch_api_cost = None, ch_overhead_est_ns = 0\<rparr>\<rparr>)"

definition build_level0 ::
  "(rchar \<Rightarrow> bool) \<Rightarrow> (level0 \<Rightarrow> u64) \<Rightarrow> i32 \<Rightarrow> proc_snapshot \<Rightarrow> stat \<Rightarrow> cpu_sample \<Rightarrow> u64 \<Rightarrow> 'w symbolizer
    \<Rightarrow> ('w, level0) proc_io" where
  "build_level0 printable json_len pid snapshot st cpu span_ms symbolize =
     io_bind (io_lift (parse_status (sn_status snapshot))) (\<lambda>status1.
     io_bind (io_lift (parse_maps_with_diagnostics printable (sn_maps snapshot))) (\<lambda>parsed_maps1. (\<lambda>w.
       case build_hotspot (st_state st) (snapshot_stack snapshot) symbolize w of
         ((hotspot, hotspot_low), w') \<Rightarrow>
           (let l0 = make_level0 pid snapshot st status1 parsed_maps1 cpu span_ms hotspot hotspot_low
            in (Inr (set_token (estimate_level0_tokens json_len l0) l0), w')))))"

section \<open>The use case\<close>

definition introspect_from_ports ::
  "(rchar \<Rightarrow> bool) \<Rightarrow> (level0 \<Rightarrow> u64) \<Rightarrow> 'w proc_source \<Rightarrow> 'w symbolizer \<Rightarrow> 'w sample_clock \<Rightarrow> nat \<Rightarrow> i32
    \<Rightarrow> ('w, level0) proc_io" where
  "introspect_from_ports printable json_len source symbolize clock sample_interval pid =
     io_bind (io_lift (validate_requested_pid pid)) (\<lambda>_. (\<lambda>w.
       case ck_now clock w of (started, w0) \<Rightarrow>
         io_bind (so_snapshot source pid) (\<lambda>snapshot.
         io_bind (io_lift (validate_page_size (sn_page_size_bytes snapshot))) (\<lambda>_.
         io_bind (io_lift (parse_stat (sn_stat snapshot))) (\<lambda>st.
         io_bind (io_lift (validate_snapshot_pid pid (st_pid st))) (\<lambda>_.
         io_bind (sample_cpu source clock sample_interval pid
             \<lparr>cc_process_ticks = st_process_ticks st, cc_system_ticks = sn_system_cpu_ticks snapshot,
               cc_process_start_time_ticks = st_process_start_time_ticks st\<rparr>
             (sn_logical_cpus snapshot)) (\<lambda>cpu. (\<lambda>w1.
           case ck_now clock w1 of (finished, w2) \<Rightarrow>
             build_level0 printable json_len pid snapshot st cpu (measured_snapshot_span_ms started finished)
               symbolize w2)))))) w0))"

record 'w introspect_service =
  sv_source :: "'w proc_source"
  sv_symbolizer :: "'w symbolizer"
  sv_clock :: "'w sample_clock"
  sv_sample_interval :: nat

definition service_introspect ::
  "(rchar \<Rightarrow> bool) \<Rightarrow> (level0 \<Rightarrow> u64) \<Rightarrow> 'w introspect_service \<Rightarrow> i32 \<Rightarrow> ('w, level0) proc_io" where
  "service_introspect printable json_len service pid =
     io_bind (io_lift (validate_requested_pid pid)) (\<lambda>_.
       introspect_from_ports printable json_len (sv_source service) (sv_symbolizer service) (sv_clock service)
         (sv_sample_interval service) pid)"

section \<open>Assembly with a symbolizer worker\<close>

record 'w introspection_worker =
  iw_symbolizer :: "'w symbolizer"
  iw_shutdown :: "('w, symbolize_error, unit) io"

text \<open>The kernel worker: its symbolizer is the client, its shutdown that of the handle, after
  which the client is dropped.\<close>

definition kernel_introspection_worker ::
  "'w symbolizer \<Rightarrow> ('w, symbolize_error, unit) io \<Rightarrow> ('w \<Rightarrow> 'w) \<Rightarrow> 'w introspection_worker" where
  "kernel_introspection_worker client handle_shutdown drop_client =
     \<lparr>iw_symbolizer = client, iw_shutdown = (\<lambda>w. case handle_shutdown w of (r, w') \<Rightarrow> (r, drop_client w'))\<rparr>"

definition record_symbolizer_degradation :: "(level0 \<Rightarrow> u64) \<Rightarrow> str \<Rightarrow> level0 \<Rightarrow> level0" where
  "record_symbolizer_degradation json_len reason l0 =
     (let low_fields = merge_low_confidence_field symbolizer_confidence_path NoConfidence reason
            (cf_low_fields (l0_confidence l0));
          l1 = l0\<lparr>l0_confidence := \<lparr>cf_overall = calculate_overall_confidence (l0_hotspot l0) low_fields,
                 cf_low_fields = low_fields\<rparr>\<rparr>
      in set_token (estimate_level0_tokens json_len l1) l1)"

definition shutdown_failed_reason :: "symbolize_error \<Rightarrow> str" where
  "shutdown_failed_reason e = asc ''symbolizer_shutdown_error_kind='' @ symbolize_error_kind e
     @ asc ''; worker_shutdown=failed; detail='' @ symbolize_error_text e"

definition init_failed_reason :: "symbolize_error \<Rightarrow> str" where
  "init_failed_reason e = asc ''symbolizer_init_error_kind='' @ symbolize_error_kind e
     @ asc ''; fallback=raw_kallsyms; detail='' @ symbolize_error_text e"

definition assemble_default_introspection ::
  "(rchar \<Rightarrow> bool) \<Rightarrow> (level0 \<Rightarrow> u64) \<Rightarrow> i32 \<Rightarrow> 'w proc_source \<Rightarrow> 'w sample_clock \<Rightarrow> nat
    \<Rightarrow> ('w, symbolize_error, 'w introspection_worker) io \<Rightarrow> ('w, level0) proc_io" where
  "assemble_default_introspection printable json_len pid source clock sample_interval spawn_worker =
     io_bind (io_lift (validate_requested_pid pid)) (\<lambda>_. (\<lambda>w.
       case spawn_worker w of
         (Inr worker, w1) \<Rightarrow>
           (case introspect_from_ports printable json_len source (iw_symbolizer worker) clock sample_interval pid w1 of
              (r, w2) \<Rightarrow>
                (case iw_shutdown worker w2 of
                   (shutdown, w3) \<Rightarrow>
                     (case r of
                        Inr l0 \<Rightarrow>
                          (Inr (case shutdown of
                              Inl e \<Rightarrow> record_symbolizer_degradation json_len (shutdown_failed_reason e) l0
                            | Inr u \<Rightarrow> l0), w3)
                      | Inl e \<Rightarrow> (Inl e, w3))))
       | (Inl e, w1) \<Rightarrow>
           io_bind (service_introspect printable json_len
               \<lparr>sv_source = source, sv_symbolizer = (\<lambda>addr. io_lift (fallback_symbolize addr)),
                 sv_clock = clock, sv_sample_interval = sample_interval\<rparr> pid)
             (\<lambda>l0. io_ok (record_symbolizer_degradation json_len (init_failed_reason e) l0)) w1))"

text \<open>The entry points on Linux: the Linux adapter, the default interval.\<close>

definition linux_source :: "(rchar \<Rightarrow> bool) \<Rightarrow> 'w os \<Rightarrow> 'w proc_source" where
  "linux_source printable os =
     \<lparr>so_snapshot = linux_snapshot printable os, so_cpu_counters = linux_cpu_counters os\<rparr>"

definition introspect ::
  "(rchar \<Rightarrow> bool) \<Rightarrow> (level0 \<Rightarrow> u64) \<Rightarrow> 'w os \<Rightarrow> 'w sample_clock \<Rightarrow> ('w, symbolize_error, 'w introspection_worker) io
    \<Rightarrow> i32 \<Rightarrow> ('w, level0) proc_io" where
  "introspect printable json_len os clock spawn_worker pid =
     io_bind (io_lift (validate_requested_pid pid)) (\<lambda>_.
       assemble_default_introspection printable json_len pid (linux_source printable os) clock
         default_sample_interval spawn_worker)"

definition introspect_with ::
  "(rchar \<Rightarrow> bool) \<Rightarrow> (level0 \<Rightarrow> u64) \<Rightarrow> 'w os \<Rightarrow> 'w sample_clock \<Rightarrow> 'w symbolizer \<Rightarrow> i32 \<Rightarrow> ('w, level0) proc_io" where
  "introspect_with printable json_len os clock symbolize pid =
     io_bind (io_lift (validate_requested_pid pid)) (\<lambda>_.
       introspect_from_ports printable json_len (linux_source printable os) symbolize clock
         default_sample_interval pid)"

definition introspect_with_inputs ::
  "(rchar \<Rightarrow> bool) \<Rightarrow> (level0 \<Rightarrow> u64) \<Rightarrow> i32 \<Rightarrow> str \<Rightarrow> str \<Rightarrow> str \<Rightarrow> str \<Rightarrow> bytes \<Rightarrow> str list \<Rightarrow> str
    \<Rightarrow> 'w symbolizer \<Rightarrow> ('w, level0) proc_io" where
  "introspect_with_inputs printable json_len pid stat_s status_s maps_s wchan_s cmdline_bytes fd_names stack_s symbolize =
     io_bind (io_lift (validate_requested_pid pid)) (\<lambda>_.
       (let snapshot = \<lparr>sn_stat = stat_s, sn_status = status_s, sn_maps = maps_s, sn_wchan = Some wchan_s,
              sn_cmdline = cmdline_bytes, sn_nr_fds = scan_fds_from_names fd_names, sn_kernel_stack = Some stack_s,
              sn_exe = None, sn_cgroup = None, sn_degradations = [], sn_system_cpu_ticks = 0,
              sn_logical_cpus = 1, sn_page_size_bytes = 4096\<rparr>
        in io_bind (io_lift (parse_stat stat_s)) (\<lambda>st.
           io_bind (io_lift (validate_snapshot_pid pid (st_pid st))) (\<lambda>_.
             build_level0 printable json_len pid snapshot st (cpu_valid (Fin 0)) 0 symbolize))))"

end
