(* ===== verification/Confidence_Facts.thy ===== *)
theory Confidence_Facts
  imports Confidence Proc_Maps
begin

text \<open>
  What the confidence bookkeeping guarantees: merging refines an update of a finite map from paths
  to the worst confidence seen, and the overall score is always a number between 0 and 1, is 1
  exactly when nothing is in doubt, and never rises when a field is added.
\<close>

section \<open>Merging is a map update\<close>

lemma score_le_iff: "fl_le (score c) (score d) \<longleftrightarrow> c \<le> d"
  by (auto simp: fl_le_def score_def less_eq_symbol_confidence_def)

text \<open>The abstract view: each path has the confidence and the reason of its first entry.\<close>

definition low_map :: "low_confidence_field list \<Rightarrow> str \<Rightarrow> (symbol_confidence option \<times> str) option" where
  "low_map lfs = map_of (map (\<lambda>lf. (lf_path lf, (lf_confidence lf, lf_reason lf))) lfs)"

definition worst :: "symbol_confidence option \<Rightarrow> symbol_confidence \<Rightarrow> symbol_confidence" where
  "worst old c = (case old of None \<Rightarrow> c | Some d \<Rightarrow> min d c)"

definition add_reason :: "str \<Rightarrow> str \<Rightarrow> str" where
  "add_reason old reason = (if old = reason then old else old @ asc ''; '' @ reason)"

definition note_low :: "str \<Rightarrow> symbol_confidence \<Rightarrow> str
    \<Rightarrow> (str \<Rightarrow> (symbol_confidence option \<times> str) option) \<Rightarrow> str \<Rightarrow> (symbol_confidence option \<times> str) option" where
  "note_low path c reason m = m(path \<mapsto> (case m path of
     None \<Rightarrow> (Some c, reason)
   | Some (old, r) \<Rightarrow> (Some (worst old c), add_reason r reason)))"

lemma low_map_Nil [simp]: "low_map [] = Map.empty"
  by (simp add: low_map_def)

lemma low_map_Cons [simp]: "low_map (lf # lfs) = (low_map lfs)(lf_path lf \<mapsto> (lf_confidence lf, lf_reason lf))"
  by (simp add: low_map_def)

lemma merged_confidence_worst: "merged_confidence old c = worst old c"
  by (auto simp: merged_confidence_def worst_def score_le_iff min_def split: option.splits)

lemma merge_into_simps [simp]:
  "lf_path (merge_into c r lf) = lf_path lf"
  "lf_confidence (merge_into c r lf) = Some (worst (lf_confidence lf) c)"
  "lf_reason (merge_into c r lf) = add_reason (lf_reason lf) r"
  by (simp_all add: merge_into_def merged_confidence_worst add_reason_def)

lemma merge_paths:
  "map lf_path (merge_low_confidence_field p c r lfs) =
     (if p \<in> lf_path ` set lfs then map lf_path lfs else map lf_path lfs @ [p])"
  by (induction p c r lfs rule: merge_low_confidence_field.induct) auto

lemma merge_path_set [simp]:
  "lf_path ` set (merge_low_confidence_field p c r lfs) = insert p (lf_path ` set lfs)"
  using arg_cong [OF merge_paths [of p c r lfs], of set] by (auto simp: insert_absorb split: if_splits)

lemma merge_distinct:
  "distinct (map lf_path lfs) \<Longrightarrow> distinct (map lf_path (merge_low_confidence_field p c r lfs))"
  by (simp add: merge_paths)

lemma merge_length:
  "length (merge_low_confidence_field p c r lfs) = length lfs + (if p \<in> lf_path ` set lfs then 0 else 1)"
  using arg_cong [OF merge_paths [of p c r lfs], of length] by (simp split: if_splits)

lemma merge_length_ge: "length lfs \<le> length (merge_low_confidence_field p c r lfs)"
  by (simp add: merge_length)

lemma merge_not_Nil [simp]: "merge_low_confidence_field p c r lfs \<noteq> []"
  by (cases lfs) auto

lemma low_map_merge: "low_map (merge_low_confidence_field p c r lfs) = note_low p c r (low_map lfs)"
  by (induction p c r lfs rule: merge_low_confidence_field.induct)
    (auto simp: note_low_def fun_eq_iff)

text \<open>C29: Merging a low-confidence field refines the update of a map from paths: every other path
  keeps its entry, the path's own entry gets the worse of the two confidences and both reasons
  (one, if they are equal), and paths that were distinct stay distinct.\<close>

theorem merge_refines_note_low:
  "low_map (merge_low_confidence_field path c reason lfs) = note_low path c reason (low_map lfs) \<and>
   distinct (map lf_path lfs) = distinct (map lf_path (merge_low_confidence_field path c reason lfs))"
  by (auto simp: low_map_merge merge_paths)

section \<open>The score is a probability\<close>

lemma to_float_nonneg: "0 \<le> x \<Longrightarrow> (\<exists>r. to_float binary32 x = Fin r \<and> r = round_rat binary32 x \<and> 0 \<le> r \<and> r < pow2 128)
    \<or> to_float binary32 x = PInf"
  using round_rat_nonneg [of x binary32]
  by (auto simp: to_float_def Let_def binary32_def)

lemma to_float_Fin: "0 \<le> x \<Longrightarrow> round_rat binary32 x < pow2 128 \<Longrightarrow> to_float binary32 x = Fin (round_rat binary32 x)"
  using to_float_nonneg [of x] by (auto simp: to_float_def Let_def binary32_def split: if_splits)

lemma precision32 [simp]: "0 < precision binary32"
  by (simp add: binary32_def)

lemma round_rat_1 [simp]: "round_rat binary32 1 = 1"
  using round_rat_representable [OF representable_int [of 1 binary32]] by (simp add: binary32_def)

lemma pow2_128_large: "(2 :: rat) ^ 24 < pow2 128"
  by (simp add: pow2_def)

lemma to_float_bounded:
  assumes "0 \<le> x" "x \<le> y" "round_rat binary32 y = y" "y \<le> 2 ^ 24"
  shows "\<exists>r. to_float binary32 x = Fin r \<and> 0 \<le> r \<and> r \<le> y"
proof -
  have "round_rat binary32 x \<le> y" using round_rat_mono [of x y binary32] assms by simp
  with assms pow2_128_large have "round_rat binary32 x < pow2 128" by linarith
  with assms \<open>round_rat binary32 x \<le> y\<close> show ?thesis
    using to_float_Fin [of x] round_rat_nonneg [of x binary32] by simp
qed

lemma round_2_24: "round_rat binary32 (2 ^ 24) = 2 ^ 24" "round_rat binary32 (2 ^ 24 + 1) = 2 ^ 24"
  by code_simp+

text \<open>An \<open>f32\<close> sum of scores never passes \<open>2 ^ 24\<close>: there, adding 1 is absorbed.\<close>

lemma f32_sum_step:
  assumes "0 \<le> s" "s \<le> 2 ^ 24"
  shows "\<exists>r. fl_add binary32 (Fin s) (score c) = Fin r \<and> 0 \<le> r \<and> r \<le> 2 ^ 24"
proof -
  let ?x = "s + score_rat c"
  have x: "0 \<le> ?x" "?x \<le> 2 ^ 24 + 1" using assms score_rat_bounds [of c] by linarith+
  from round_rat_mono [OF x(2), of binary32] have le: "round_rat binary32 ?x \<le> 2 ^ 24"
    by (simp only: round_2_24 precision32)
  with pow2_128_large x have "to_float binary32 ?x = Fin (round_rat binary32 ?x)"
    by (intro to_float_Fin) linarith+
  with le show ?thesis using round_rat_nonneg [OF x(1), of binary32] by (simp add: score_def)
qed

lemma f32_sum_bounds:
  assumes "0 \<le> s" "s \<le> 2 ^ 24"
  shows "\<exists>r. foldl (fl_add binary32) (Fin s) (map score cs) = Fin r \<and> 0 \<le> r \<and> r \<le> 2 ^ 24"
  using assms
proof (induction cs arbitrary: s)
  case (Cons c cs)
  then show ?case using f32_sum_step [of s c] by fastforce
qed auto

lemma fl_of_int_pos:
  assumes "1 \<le> n"
  shows "(\<exists>r. fl_of_int binary32 n = Fin r \<and> 1 \<le> r \<and> r = round_rat binary32 (of_int n)) \<or> fl_of_int binary32 n = PInf"
proof -
  have "(1 :: rat) \<le> of_int n" using assms by simp
  from round_rat_mono [OF this, of binary32] assms to_float_nonneg [of "of_int n"]
  show ?thesis by (auto simp: fl_of_int_def)
qed

lemma fl_of_int_nonneg:
  "0 \<le> n \<Longrightarrow> (\<exists>r. fl_of_int binary32 n = Fin r \<and> 0 \<le> r \<and> r = round_rat binary32 (of_int n)) \<or> fl_of_int binary32 n = PInf"
  using to_float_nonneg [of "of_int n"] by (auto simp: fl_of_int_def)

lemma fl_div_nonneg:
  assumes "0 \<le> a" "a \<le> 2 ^ 24" "1 \<le> b"
  shows "fl_div binary32 (Fin a) (Fin b) = Fin (round_rat binary32 (a / b))"
    "0 \<le> round_rat binary32 (a / b)" "round_rat binary32 (a / b) \<le> 2 ^ 24"
proof -
  have "a / b \<le> a / 1" using assms by (intro divide_left_mono) simp_all
  with assms have le: "a / b \<le> 2 ^ 24" "0 \<le> a / b" by simp_all
  from round_rat_mono [OF le(1), of binary32] show r: "round_rat binary32 (a / b) \<le> 2 ^ 24"
    by (simp only: round_2_24 precision32)
  show "0 \<le> round_rat binary32 (a / b)" using round_rat_nonneg [OF le(2)] by simp
  from r pow2_128_large have "round_rat binary32 (a / b) < pow2 128" by linarith
  with le assms show "fl_div binary32 (Fin a) (Fin b) = Fin (round_rat binary32 (a / b))"
    by (simp add: to_float_Fin)
qed

lemma symbol_component_bounds: "\<exists>a. symbol_component h = Fin a \<and> 0 \<le> a \<and> a \<le> 2 ^ 24"
proof (cases "\<exists>frames. h = Blocked frames \<and> frames \<noteq> []")
  case True
  then obtain frames where h: "h = Blocked frames" "frames \<noteq> []" by blast
  then have n: "1 \<le> int (length frames)" by (cases frames) auto
  from f32_sum_bounds [of 0 "map frame_symbol_confidence frames"]
  obtain s where s: "f32_sum (map (\<lambda>f. score (frame_symbol_confidence f)) frames) = Fin s" "0 \<le> s" "s \<le> 2 ^ 24"
    by (auto simp: f32_sum_def comp_def)
  from fl_of_int_pos [OF n] show ?thesis
    using h s fl_div_nonneg [OF s(2,3)] by (auto simp: symbol_component_def)
qed (auto simp: symbol_component_def split: hotspot.splits)

lemma tenth_Fin: "tenth = Fin (13421773 / 134217728)"
  by code_simp

lemma overall_divisor_cases:
  "(\<exists>d. overall_divisor n = Fin d \<and> 1 \<le> d) \<or> overall_divisor n = PInf"
proof -
  have add1: "(\<exists>d. fl_add binary32 (Fin 1) (Fin r) = Fin d \<and> 1 \<le> d) \<or> fl_add binary32 (Fin 1) (Fin r) = PInf"
    if "0 \<le> r" for r
  proof -
    from that have "(1 :: rat) \<le> 1 + r" by simp
    from round_rat_mono [OF this, of binary32] that to_float_nonneg [of "1 + r"] show ?thesis by auto
  qed
  show ?thesis
  proof (cases "fl_of_int binary32 (int n)")
    case (Fin r)
    with fl_of_int_nonneg [of "int n"] have r: "0 \<le> r" by auto
    then have "0 \<le> 13421773 / 134217728 * r" by simp
    from to_float_nonneg [OF this] consider
        q where "fl_mul binary32 tenth (Fin r) = Fin q" "0 \<le> q"
      | "fl_mul binary32 tenth (Fin r) = PInf"
      by (auto simp: tenth_Fin)
    then show ?thesis
    proof cases
      case 1
      with add1 [of q] Fin show ?thesis by (simp add: overall_divisor_def)
    qed (simp add: overall_divisor_def Fin)
  qed (use fl_of_int_nonneg [of "int n"] in \<open>auto simp: overall_divisor_def tenth_Fin signed_inf_def\<close>)
qed

lemma overall_clamped:
  "\<exists>q. fl_div binary32 (symbol_component h) (overall_divisor n) = Fin q \<and> 0 \<le> q"
proof -
  from symbol_component_bounds obtain a where a: "symbol_component h = Fin a" "0 \<le> a" "a \<le> 2 ^ 24" by blast
  from overall_divisor_cases [of n] show ?thesis
    using a fl_div_nonneg [OF a(2,3)] by auto
qed

lemma overall_confidence_bounds:
  "\<exists>r. calculate_overall_confidence h lfs = Fin r \<and> 0 \<le> r \<and> r \<le> 1"
proof -
  from overall_clamped [of h "length lfs"]
  obtain q where "fl_div binary32 (symbol_component h) (overall_divisor (length lfs)) = Fin q" "0 \<le> q"
    by blast
  then show ?thesis by (auto simp: calculate_overall_confidence_def fl_clamp_def)
qed

text \<open>The overall confidence is a number between 0 and 1 for every hotspot and every list of
  low-confidence fields, however long: the rounded \<open>f32\<close> arithmetic never gives NaN or infinity.\<close>

theorem overall_confidence_in_unit_interval:
  "\<exists>r. calculate_overall_confidence hotspot low_fields = Fin r \<and> 0 \<le> r \<and> r \<le> 1"
  by (rule overall_confidence_bounds)

section \<open>More doubt, less confidence\<close>

lemma to_float_mono: "x \<le> y \<Longrightarrow> fl_le (to_float binary32 x) (to_float binary32 y)"
proof -
  assume "x \<le> y"
  then have r: "round_rat binary32 x \<le> round_rat binary32 y" by (simp add: round_rat_mono)
  have p: "- pow2 (max_exp binary32) < pow2 (max_exp binary32)"
    using pow2_pos(1) [of "max_exp binary32"] by linarith
  show ?thesis using r p by (auto simp: to_float_def Let_def fl_le_def)
qed

definition nonneg :: "fl \<Rightarrow> bool" where
  "nonneg x \<longleftrightarrow> (\<exists>r. x = Fin r \<and> 0 \<le> r) \<or> x = PInf"

lemma nonneg_PInf [simp]: "nonneg PInf"
  by (simp add: nonneg_def)

lemma fl_of_int_mono: "m \<le> n \<Longrightarrow> fl_le (fl_of_int binary32 m) (fl_of_int binary32 n)"
  by (simp add: fl_of_int_def to_float_mono)

lemma nonneg_fl_of_int: "0 \<le> n \<Longrightarrow> nonneg (fl_of_int binary32 n)"
  using fl_of_int_nonneg by (auto simp: nonneg_def)

lemma nonneg_to_float: "0 \<le> x \<Longrightarrow> nonneg (to_float binary32 x)"
  using to_float_nonneg [of x] by (auto simp: nonneg_def)

lemma fl_le_Fin [simp]: "fl_le (Fin a) (Fin b) \<longleftrightarrow> a \<le> b"
  by (auto simp: fl_le_def)

lemma fl_le_PInf: "nonneg x \<Longrightarrow> fl_le x PInf"
  by (auto simp: nonneg_def fl_le_def)

lemma PInf_le: "nonneg y \<Longrightarrow> fl_le PInf y \<Longrightarrow> y = PInf"
  by (auto simp: nonneg_def fl_le_def)

lemma nonnegE: "nonneg x \<Longrightarrow> (\<And>r. x = Fin r \<Longrightarrow> 0 \<le> r \<Longrightarrow> P) \<Longrightarrow> (x = PInf \<Longrightarrow> P) \<Longrightarrow> P"
  by (auto simp: nonneg_def)

lemma tenth_PInf [simp]: "fl_mul binary32 tenth PInf = PInf"
  by (simp add: tenth_Fin signed_inf_def)

lemma tenth_mul:
  assumes "nonneg x"
  shows "nonneg (fl_mul binary32 tenth x)"
    "nonneg y \<Longrightarrow> fl_le x y \<Longrightarrow> fl_le (fl_mul binary32 tenth x) (fl_mul binary32 tenth y)"
proof -
  have n: "nonneg (fl_mul binary32 tenth z)" if "nonneg z" for z
    using that by (rule nonnegE) (auto simp: tenth_Fin signed_inf_def intro!: nonneg_to_float)
  then show "nonneg (fl_mul binary32 tenth x)" using assms by blast
  assume y: "nonneg y" "fl_le x y"
  show "fl_le (fl_mul binary32 tenth x) (fl_mul binary32 tenth y)"
  proof (cases "y = PInf")
    case True
    with n assms show ?thesis by (simp add: fl_le_PInf)
  next
    case False
    with y assms PInf_le obtain a b where "x = Fin a" "y = Fin b" "a \<le> b"
      by (fastforce simp: nonneg_def)
    then show ?thesis by (simp add: tenth_Fin to_float_mono)
  qed
qed

lemma add1_mono:
  assumes "nonneg x" "nonneg y" "fl_le x y"
  shows "fl_le (fl_add binary32 (Fin 1) x) (fl_add binary32 (Fin 1) y)"
proof (cases "y = PInf")
  case True
  have "nonneg (fl_add binary32 (Fin 1) x)" using assms(1)
    by (rule nonnegE) (auto intro!: nonneg_to_float)
  with True show ?thesis by (simp add: fl_le_PInf)
next
  case False
  with assms PInf_le obtain a b where "x = Fin a" "y = Fin b" "a \<le> b"
    by (fastforce simp: nonneg_def)
  then show ?thesis by (simp add: to_float_mono)
qed

lemma overall_divisor_mono: "m \<le> n \<Longrightarrow> fl_le (overall_divisor m) (overall_divisor n)"
  unfolding overall_divisor_def
  by (intro add1_mono tenth_mul nonneg_fl_of_int fl_of_int_mono) simp_all

lemma fl_div_antimono:
  assumes "0 \<le> a" "a \<le> 2 ^ 24" "fl_le d e" "d = Fin b \<and> 1 \<le> b \<or> d = PInf" "e = Fin c \<and> 1 \<le> c \<or> e = PInf"
  shows "fl_le (fl_div binary32 (Fin a) e) (fl_div binary32 (Fin a) d)"
proof -
  consider "d = Fin b" "1 \<le> b" "e = PInf" | "d = Fin b" "e = Fin c" "1 \<le> b" "b \<le> c" | "d = PInf" "e = PInf"
    using assms(3-) PInf_le [of e] by (auto simp: nonneg_def)
  then show ?thesis
  proof cases
    case 1
    with assms fl_div_nonneg [of a b] show ?thesis by auto
  next
    case 2
    with assms have "a / c \<le> a / b" by (intro divide_left_mono) auto
    with 2 show ?thesis by (auto intro: to_float_mono)
  qed simp
qed

lemma fl_clamp_mono: "fl_le (Fin a) (Fin b) \<Longrightarrow> fl_le (fl_clamp (Fin a) (Fin 0) (Fin 1)) (fl_clamp (Fin b) (Fin 0) (Fin 1))"
  by (simp add: fl_clamp_def)

lemma overall_antimono:
  assumes "length lfs \<le> length lfs'"
  shows "fl_le (calculate_overall_confidence h lfs') (calculate_overall_confidence h lfs)"
proof -
  from symbol_component_bounds obtain a where a: "symbol_component h = Fin a" "0 \<le> a" "a \<le> 2 ^ 24" by blast
  let ?q = "\<lambda>n. fl_div binary32 (Fin a) (overall_divisor n)"
  from overall_divisor_cases obtain b c where
    "overall_divisor (length lfs) = Fin b \<and> 1 \<le> b \<or> overall_divisor (length lfs) = PInf"
    "overall_divisor (length lfs') = Fin c \<and> 1 \<le> c \<or> overall_divisor (length lfs') = PInf" by metis
  from fl_div_antimono [OF a(2,3) overall_divisor_mono [OF assms] this]
  have le: "fl_le (?q (length lfs')) (?q (length lfs))" .
  from overall_clamped [of h] a obtain p q where "?q (length lfs) = Fin p" "?q (length lfs') = Fin q" by metis
  with le fl_clamp_mono show ?thesis by (simp only: calculate_overall_confidence_def a)
qed

section \<open>Full confidence\<close>

text \<open>A partial sum of up to five scores is a multiple of a quarter and therefore exact.\<close>

definition quarters :: "nat \<Rightarrow> rat" where
  "quarters k = of_nat k / 4"

fun score_quarters :: "symbol_confidence \<Rightarrow> nat" where
  "score_quarters Dwarf = 4"
| "score_quarters Kallsyms = 3"
| "score_quarters Dynsym = 2"
| "score_quarters Disasm = 1"
| "score_quarters NoConfidence = 0"

lemma score_rat_quarters: "score_rat c = quarters (score_quarters c)"
  by (cases c) (simp_all add: quarters_def)

lemma score_quarters_le: "score_quarters c \<le> 4" "score_quarters c = 4 \<longleftrightarrow> c = Dwarf"
  by (cases c; simp)+

lemma quarters_exact: "k \<le> 1000 \<Longrightarrow> to_float binary32 (quarters k) = Fin (quarters k)"
proof -
  assume "k \<le> 1000"
  then have "(of_nat k :: rat) \<le> of_nat 1000" by (simp only: of_nat_le_iff)
  then have k: "(of_nat k :: rat) \<le> 1000" by simp
  have "pow2 22 = 4194304" "pow2 (- 2) = 1 / 4" by code_simp+
  with k have "of_nat k / 4 = of_int (int k) * pow2 (- 2) \<and> \<bar>of_nat k / 4\<bar> < pow2 (precision binary32 + - 2)
      \<and> min_exp binary32 \<le> - 2"
    by (simp add: binary32_def)
  then have "representable binary32 (quarters k)"
    unfolding representable_def quarters_def by blast
  then have r: "round_rat binary32 (quarters k) = quarters k" by (rule round_rat_representable)
  have "quarters k \<le> 1000" using k by (simp add: quarters_def)
  with r show ?thesis using pow2_128_large by (subst to_float_Fin) (simp_all add: quarters_def)
qed

lemma quarters_add: "quarters j + quarters k = quarters (j + k)"
  by (simp add: quarters_def add_divide_distrib)

lemma f32_sum_quarters:
  "k + 4 * length cs \<le> 1000 \<Longrightarrow> foldl (fl_add binary32) (Fin (quarters k)) (map score cs)
     = Fin (quarters (k + sum_list (map score_quarters cs)))"
proof (induction cs arbitrary: k)
  case (Cons c cs)
  from Cons.prems score_quarters_le [of c] have "k + score_quarters c \<le> 1000"
    "k + score_quarters c + 4 * length cs \<le> 1000" by simp_all
  with Cons.IH [of "k + score_quarters c"] show ?case
    by (simp add: score_def score_rat_quarters quarters_add quarters_exact add.assoc)
qed simp

lemma sum_quarters_le: "sum_list (map score_quarters cs) \<le> 4 * length cs"
proof (induction cs)
  case (Cons c cs)
  with score_quarters_le(1) [of c] show ?case by simp
qed simp

lemma sum_quarters_max: "sum_list (map score_quarters cs) = 4 * length cs \<longleftrightarrow> (\<forall>c\<in>set cs. c = Dwarf)"
proof (induction cs)
  case (Cons c cs)
  from score_quarters_le(1) [of c] sum_quarters_le [of cs] score_quarters_le(2) [of c] Cons show ?case by auto
qed simp

definition all_dwarf :: "hotspot \<Rightarrow> bool" where
  "all_dwarf h = (case h of NotBlocked \<Rightarrow> True
     | Blocked frames \<Rightarrow> list_all (\<lambda>f. frame_symbol_confidence f = Dwarf) frames)"

definition frame_count :: "hotspot \<Rightarrow> nat" where
  "frame_count h = (case h of NotBlocked \<Rightarrow> 0 | Blocked frames \<Rightarrow> length frames)"

text \<open>The score below 1 that a list of five frames cannot pass with a frame short of \<open>Dwarf\<close>.\<close>

definition nearly_full :: rat where
  "nearly_full = round_rat binary32 (19 / 20)"

lemma nearly_full_facts: "nearly_full < 1" "round_rat binary32 nearly_full < 1"
  "0 \<le> nearly_full"
  by code_simp+

lemma symbol_component_full:
  assumes "frame_count h \<le> 5"
  shows "symbol_component h = Fin 1 \<and> all_dwarf h \<or>
    (\<exists>a. symbol_component h = Fin a \<and> 0 \<le> a \<and> a \<le> nearly_full \<and> \<not> all_dwarf h)"
proof (cases "\<exists>frames. h = Blocked frames \<and> frames \<noteq> []")
  case True
  then obtain frames where h: "h = Blocked frames" "frames \<noteq> []" by blast
  let ?cs = "map frame_symbol_confidence frames" and ?n = "length frames"
  let ?S = "sum_list (map score_quarters ?cs)"
  have n: "1 \<le> ?n" "?n \<le> 5" using h assms by (cases frames; simp add: frame_count_def)+
  have sum: "f32_sum (map (\<lambda>f. score (frame_symbol_confidence f)) frames) = Fin (quarters ?S)"
    using f32_sum_quarters [of 0 ?cs] n by (simp add: f32_sum_def quarters_def comp_def)
  have len: "fl_of_int binary32 (int ?n) = Fin (of_nat ?n)"
    using quarters_exact [of "4 * ?n"] n by (simp add: fl_of_int_def quarters_def)
  have comp: "symbol_component h = to_float binary32 (quarters ?S / of_nat ?n)"
    using h n sum len by (simp add: symbol_component_def)
  have full: "?S = 4 * ?n \<longleftrightarrow> all_dwarf h"
    using sum_quarters_max [of ?cs] h by (simp add: all_dwarf_def list_all_iff)
  show ?thesis
  proof (cases "?S = 4 * ?n")
    case True
    then have "quarters ?S / of_nat ?n = 1" using n h by (simp add: quarters_def)
    with comp True full show ?thesis using quarters_exact [of 4] by (simp add: quarters_def)
  next
    case False
    with sum_quarters_le [of ?cs] have "?S + 1 \<le> 4 * ?n" by simp
    then have "(of_nat (?S + 1) :: rat) \<le> of_nat (4 * ?n)" by (simp only: of_nat_le_iff)
    then have "(of_nat ?S :: rat) + 1 \<le> 4 * of_nat ?n" by simp
    moreover have "(1 :: rat) \<le> of_nat ?n" "(of_nat ?n :: rat) \<le> 5" using n by simp_all
    ultimately have le: "quarters ?S / of_nat ?n \<le> 19 / 20"
      unfolding quarters_def by (subst pos_divide_le_eq) linarith+
    have nn: "0 \<le> quarters ?S / of_nat ?n" by (simp add: quarters_def)
    from round_rat_mono [OF le, of binary32]
    have "round_rat binary32 (quarters ?S / of_nat ?n) \<le> nearly_full" by (simp add: nearly_full_def)
    with nn nearly_full_facts pow2_128_large round_rat_nonneg [OF nn, of binary32] to_float_Fin [OF nn] False full comp
    show ?thesis by simp
  qed
qed (auto simp: symbol_component_def all_dwarf_def split: hotspot.splits)

lemma overall_small_parts:
  assumes "symbol_component h = Fin a" "0 \<le> a" "a \<le> b" "round_rat binary32 b < 1" "b \<le> 1"
  shows "calculate_overall_confidence h lfs \<noteq> Fin 1"
proof -
  have "overall_divisor (length []) = Fin 1" by code_simp
  then have zero: "calculate_overall_confidence h [] = fl_clamp (to_float binary32 a) (Fin 0) (Fin 1)"
    using assms by (simp add: calculate_overall_confidence_def)
  have "round_rat binary32 a < 1" using round_rat_mono [OF assms(3), of binary32] assms(4) by simp
  with assms pow2_128_large have "\<exists>r. calculate_overall_confidence h [] = Fin r \<and> r < 1"
    using to_float_Fin [of a] round_rat_nonneg [OF assms(2), of binary32] by (simp add: zero fl_clamp_def)
  with overall_antimono [of "[]" lfs h] overall_confidence_bounds [of h lfs] show ?thesis by fastforce
qed

lemma overall_one_iff:
  assumes "frame_count h \<le> 5"
  shows "calculate_overall_confidence h lfs = Fin 1 \<longleftrightarrow> lfs = [] \<and> all_dwarf h"
  using symbol_component_full [OF assms]
proof (elim disjE exE conjE)
  assume full: "symbol_component h = Fin 1" "all_dwarf h"
  show ?thesis
  proof (cases lfs)
    case Nil
    have "fl_clamp (fl_div binary32 (Fin 1) (overall_divisor 0)) (Fin 0) (Fin 1) = Fin 1" by code_simp
    with Nil full show ?thesis by (simp add: calculate_overall_confidence_def)
  next
    case (Cons lf rest)
    have "fl_less (fl_clamp (fl_div binary32 (Fin 1) (overall_divisor 1)) (Fin 0) (Fin 1)) (Fin 1)" by code_simp
    with full have "fl_less (calculate_overall_confidence h [lf]) (Fin 1)"
      by (simp add: calculate_overall_confidence_def)
    moreover from Cons have "fl_le (calculate_overall_confidence h lfs) (calculate_overall_confidence h [lf])"
      by (intro overall_antimono) simp
    ultimately have "calculate_overall_confidence h lfs \<noteq> Fin 1"
      using overall_confidence_bounds [of h "[lf]"] by auto
    with Cons show ?thesis by simp
  qed
next
  fix a assume a: "symbol_component h = Fin a" "0 \<le> a" "a \<le> nearly_full" "\<not> all_dwarf h"
  with overall_small_parts [OF a(1,2,3)] nearly_full_facts show ?thesis by simp
qed

text \<open>For a hotspot of at most five frames, as the code builds it, the overall confidence is
  exactly 1 when no field is in doubt and every frame has debug information, and only then.\<close>

theorem overall_confidence_full_iff:
  assumes "frame_count hotspot \<le> mem_shape_top_n"
  shows "calculate_overall_confidence hotspot low_fields = Fin 1 \<longleftrightarrow> low_fields = [] \<and> all_dwarf hotspot"
  using overall_one_iff assms by (simp add: mem_shape_top_n_def)

theorem overall_confidence_full_iff_witness:
  "calculate_overall_confidence (Blocked [\<lparr>sf_idx = 0, sf_addr = asc ''0x1'',
     sf_symbol = Some \<lparr>sy_name = asc ''f'', sy_source = Kallsyms\<rparr>, sf_confidence = Some Kallsyms\<rparr>]) [] \<noteq> Fin 1"
proof -
  let ?h = "Blocked [\<lparr>sf_idx = 0, sf_addr = asc ''0x1'',
     sf_symbol = Some \<lparr>sy_name = asc ''f'', sy_source = Kallsyms\<rparr>, sf_confidence = Some Kallsyms\<rparr>]"
  have "frame_count ?h \<le> mem_shape_top_n" "\<not> all_dwarf ?h"
    by (simp_all add: frame_count_def mem_shape_top_n_def all_dwarf_def frame_symbol_confidence_def)
  with overall_confidence_full_iff [of ?h "[]"] show ?thesis by blast
qed

text \<open>Recording one more doubtful field never raises the overall confidence, whatever the
  rounding does.\<close>

theorem doubt_never_raises_confidence:
  "fl_le (calculate_overall_confidence hotspot (merge_low_confidence_field path c reason low_fields))
     (calculate_overall_confidence hotspot low_fields)"
  by (intro overall_antimono merge_length_ge)

end
