(* ===== verification/Introspect_Facts.thy ===== *)
theory Introspect_Facts
  imports Introspect Confidence_Facts Proc_Sample
begin

text \<open>
  What the Level 0 use case guarantees for every procfs source, symbolizer and clock: the answer is
  of the requested process and of one generation of it, the CPU percentage is a finite number,
  the hotspot is bounded and keeps the raw symbol where the symbolizer fails, everything that was
  degraded is listed with its reason, and the stored score and token estimate are those of the
  value they are stored in. A symbolizer worker that fails to start or to stop costs confidence
  and nothing else.
\<close>

section \<open>The CPU percentage\<close>

lemma pow2_num: "0 \<le> k \<Longrightarrow> pow2 k = 2 ^ nat k"
  by (simp add: pow2_def)

lemma to_float64_le:
  "0 \<le> x \<Longrightarrow> x \<le> 2 ^ k \<Longrightarrow> k < 1024 \<Longrightarrow> \<exists>r. to_float binary64 x = Fin r \<and> 0 \<le> r \<and> r \<le> 2 ^ k"
  using to_float_le_pow2 [of x "int k" binary64] by (simp add: pow2_num)

lemma fl_of_word64: "\<exists>r. fl_of_int binary64 (uint (x :: 'a::len word)) = Fin r \<and> 0 \<le> r \<and> r \<le> 2 ^ LENGTH('a)"
  if "LENGTH('a) < 1024"
proof -
  have "(of_int (uint x) :: rat) \<le> of_int (2 ^ LENGTH('a))"
    using uint_lt2p [of x] by (simp only: of_int_le_iff)
  moreover have "(0 :: rat) \<le> of_int (uint x)" by (simp only: of_int_0_le_iff uint_ge_0)
  ultimately show ?thesis using to_float64_le [of "of_int (uint x)" "LENGTH('a)"] that by (simp add: fl_of_int_def)
qed

lemma fl_of_word64_pos:
  assumes "x \<noteq> (0 :: u64)"
  shows "\<exists>r. fl_of_int binary64 (uint x) = Fin r \<and> 1 \<le> r"
proof -
  have "1 \<le> uint x" using assms uint_ge_0 [of x] unsigned_eq_0_iff [of x, where 'a = int] by linarith
  then have "(of_int 1 :: rat) \<le> of_int (uint x)" by (simp only: of_int_le_iff)
  then have "(1 :: rat) \<le> of_int (uint x)" by (simp only: of_int_1)
  from round_rat_mono [OF this, of binary64] round_rat_representable [OF representable_pow2, of binary64 0]
  have "1 \<le> round_rat binary64 (of_int (uint x))" by (simp add: pow2_def)
  with fl_of_word64 [of x] show ?thesis by (auto simp: fl_of_int_def to_float_def Let_def split: if_splits)
qed

lemma cpu_percent_finite:
  assumes "system_delta \<noteq> 0"
  shows "\<exists>r. cpu_percent_f64 process_delta system_delta logical_cpus = Fin r \<and> 0 \<le> r \<and> r \<le> 2 ^ 103"
proof -
  obtain p where p: "fl_of_int binary64 (uint process_delta) = Fin p" "0 \<le> p" "p \<le> 2 ^ 64"
    using fl_of_word64 [of process_delta] by auto
  obtain s where s: "fl_of_int binary64 (uint system_delta) = Fin s" "1 \<le> s"
    using fl_of_word64_pos [OF assms] by blast
  obtain c where c: "fl_of_int binary64 (uint logical_cpus) = Fin c" "0 \<le> c" "c \<le> 2 ^ 32"
    using fl_of_word64 [of logical_cpus] by auto
  have "p / s \<le> p / 1" using p s by (intro divide_left_mono) simp_all
  with p s obtain q where q: "to_float binary64 (p / s) = Fin q" "0 \<le> q" "q \<le> 2 ^ 64"
    using to_float64_le [of "p / s" 64] by auto
  have "q * c \<le> 2 ^ 64 * 2 ^ 32" using q c by (intro mult_mono) simp_all
  with q c obtain m where m: "to_float binary64 (q * c) = Fin m" "0 \<le> m" "m \<le> 2 ^ 96"
    using to_float64_le [of "q * c" 96] by (auto simp: power_add [symmetric])
  have "m * 100 \<le> 2 ^ 96 * 2 ^ 7" using m by (intro mult_mono) simp_all
  with m have "m * 100 \<le> 2 ^ 103" by simp
  with m to_float64_le [of "m * 100" 103] p q s c m show ?thesis
    by (simp add: cpu_percent_f64_def)
qed

text \<open>When both counters can be compared.\<close>

definition comparable_counters :: "cpu_counters \<Rightarrow> cpu_counters \<Rightarrow> u32 \<Rightarrow> bool" where
  "comparable_counters start end1 cpus \<longleftrightarrow> cc_process_ticks start \<le> cc_process_ticks end1 \<and>
     cc_system_ticks start < cc_system_ticks end1 \<and> cpus \<noteq> 0"

lemma cpu_incomparable:
  "\<not> comparable_counters start end1 cpus \<Longrightarrow> \<exists>reason. calculate_cpu_percent start end1 cpus = cpu_unavailable reason"
  by (cases "cc_system_ticks end1 = cc_system_ticks start")
    (auto simp: calculate_cpu_percent_def comparable_counters_def checked_sub_def)

lemma cpu_sample_value:
  "\<exists>r. cp_pct_cpu (calculate_cpu_percent start end1 cpus) = Fin r \<and> 0 \<le> r \<and> r \<le> 2 ^ 103 \<and>
     (cp_low_confidence_reason (calculate_cpu_percent start end1 cpus) = None \<longleftrightarrow> comparable_counters start end1 cpus) \<and>
     (comparable_counters start end1 cpus \<longrightarrow> calculate_cpu_percent start end1 cpus =
        cpu_valid (fl_cast binary32 (cpu_percent_f64 (cc_process_ticks end1 - cc_process_ticks start)
          (cc_system_ticks end1 - cc_system_ticks start) cpus)))"
proof (cases "comparable_counters start end1 cpus")
  case True
  then have d: "cc_system_ticks end1 - cc_system_ticks start \<noteq> 0"
    by (auto simp: comparable_counters_def)
  from cpu_percent_finite [OF d] obtain r where r: "cpu_percent_f64 (cc_process_ticks end1 - cc_process_ticks start)
      (cc_system_ticks end1 - cc_system_ticks start) cpus = Fin r" "0 \<le> r" "r \<le> 2 ^ 103" by blast
  from to_float_le_pow2 [of r 103 binary32] r
  obtain q where "fl_cast binary32 (Fin r) = Fin q" "0 \<le> q" "q \<le> 2 ^ 103" by (auto simp: pow2_num)
  with True d r show ?thesis
    by (auto simp: calculate_cpu_percent_def comparable_counters_def checked_sub_def cpu_valid_def)
next
  case False
  from cpu_incomparable [OF this] False show ?thesis by (auto simp: cpu_unavailable_def)
qed


section \<open>Requests that are refused\<close>

lemma validate_requested_pid_Inr [simp]: "validate_requested_pid pid = Inr u \<longleftrightarrow> 1 \<le> pid"
  by (auto simp: validate_requested_pid_def)

lemma validate_invalid: "pid < 1 \<Longrightarrow> validate_requested_pid pid = Inl (InvalidPid pid)"
  by (simp add: validate_requested_pid_def)

lemma validate_page_size_Inr [simp]: "validate_page_size n = Inr u \<longleftrightarrow> n \<noteq> 0"
  by (simp add: validate_page_size_def)

lemma validate_snapshot_pid_Inr [simp]: "validate_snapshot_pid a b = Inr u \<longleftrightarrow> a = b"
  by (simp add: validate_snapshot_pid_def)

text \<open>A pid below 1 is refused by every entry point before anything of the world is read: no
  snapshot, no clock, no symbolizer worker.\<close>

theorem invalid_pid_refused_unread:
  assumes "pid < 1"
  shows "introspect printable json_len os clock spawn_worker pid w = (Inl (InvalidPid pid), w) \<and>
    introspect_with printable json_len os clock symbolize pid w = (Inl (InvalidPid pid), w) \<and>
    service_introspect printable json_len service pid w = (Inl (InvalidPid pid), w) \<and>
    introspect_with_inputs printable json_len pid a b c d e f g symbolize w = (Inl (InvalidPid pid), w)"
  using validate_invalid [OF assms]
  by (simp add: introspect_def introspect_with_def service_introspect_def introspect_with_inputs_def io_bind_def)

theorem invalid_pid_refused_unread_witness:
  "introspect_with (\<lambda>_. True) (\<lambda>_. 0) (steady_guest ''S'') \<lparr>ck_now = (\<lambda>n. (0, Suc n)), ck_sleep = (\<lambda>d n. Suc n)\<rparr>
     (\<lambda>a. io_lift (fallback_symbolize a)) 0 5 = (Inl (InvalidPid 0), 5)"
  using invalid_pid_refused_unread [of 0 "\<lambda>_. True" "\<lambda>_. 0" "steady_guest ''S''"
      "\<lparr>ck_now = (\<lambda>n. (0, Suc n)), ck_sleep = (\<lambda>d n. Suc n)\<rparr>"] by simp

section \<open>One process, one generation\<close>

lemma sample_cpu_InrD:
  assumes "sample_cpu source clock interval pid start cpus w = (Inr cpu, w')"
  shows "\<exists>end1. so_cpu_counters source pid (ck_sleep clock interval w) = (Inr end1, w') \<and>
    cc_process_start_time_ticks end1 = cc_process_start_time_ticks start \<and>
    cpu = calculate_cpu_percent start end1 cpus"
  using assms
  by (auto simp: sample_cpu_def split: prod.splits sum.splits proc_error.splits if_splits)

lemma sample_cpu_errors:
  assumes "sample_cpu source clock interval pid start cpus w = (Inl e, w')"
  shows "(\<exists>p. e = ProcNotFound p) \<or> e = CpuSampleFailed"
  using assms
  by (auto simp: sample_cpu_def split: prod.splits sum.splits proc_error.splits if_splits)

lemma build_level0_InrD:
  assumes "build_level0 printable json_len pid snapshot st cpu span_ms symbolize w = (Inr l0, w')"
  shows "\<exists>status1 maps1 hotspot low. parse_status (sn_status snapshot) = Inr status1 \<and>
    parse_maps_with_diagnostics printable (sn_maps snapshot) = Inr maps1 \<and>
    build_hotspot (st_state st) (snapshot_stack snapshot) symbolize w = ((hotspot, low), w') \<and>
    l0 = set_token (estimate_level0_tokens json_len (make_level0 pid snapshot st status1 maps1 cpu span_ms hotspot low))
      (make_level0 pid snapshot st status1 maps1 cpu span_ms hotspot low)"
proof -
  obtain hotspot low w2 where b: "build_hotspot (st_state st) (snapshot_stack snapshot) symbolize w = ((hotspot, low), w2)"
    by (metis surj_pair)
  with assms show ?thesis by (auto simp: build_level0_def io_iffs Let_def)
qed

lemma introspect_from_ports_InrD:
  assumes "introspect_from_ports printable json_len source symbolize clock interval pid w = (Inr l0, w')"
  shows "\<exists>snapshot st cpu span_ms end1 w0 w1 w2 w3 w4.
    so_snapshot source pid w0 = (Inr snapshot, w1) \<and> 1 \<le> pid \<and> sn_page_size_bytes snapshot \<noteq> 0 \<and>
    parse_stat (sn_stat snapshot) = Inr st \<and> st_pid st = pid \<and>
    so_cpu_counters source pid w2 = (Inr end1, w3) \<and>
    cc_process_start_time_ticks end1 = st_process_start_time_ticks st \<and>
    cpu = calculate_cpu_percent \<lparr>cc_process_ticks = st_process_ticks st, cc_system_ticks = sn_system_cpu_ticks snapshot,
      cc_process_start_time_ticks = st_process_start_time_ticks st\<rparr> end1 (sn_logical_cpus snapshot) \<and>
    build_level0 printable json_len pid snapshot st cpu span_ms symbolize w4 = (Inr l0, w')"
proof -
  obtain started w0 where now: "ck_now clock w = (started, w0)" by fastforce
  from assms obtain snapshot w1 st cpu w3 where s: "1 \<le> pid" "so_snapshot source pid w0 = (Inr snapshot, w1)"
      "sn_page_size_bytes snapshot \<noteq> 0" "parse_stat (sn_stat snapshot) = Inr st" "st_pid st = pid"
    and cpu: "sample_cpu source clock interval pid \<lparr>cc_process_ticks = st_process_ticks st,
        cc_system_ticks = sn_system_cpu_ticks snapshot, cc_process_start_time_ticks = st_process_start_time_ticks st\<rparr>
        (sn_logical_cpus snapshot) w1 = (Inr cpu, w3)"
    and rest: "(case ck_now clock w3 of (finished, w4) \<Rightarrow> build_level0 printable json_len pid snapshot st cpu
        (measured_snapshot_span_ms started finished) symbolize w4) = (Inr l0, w')"
    by (fastforce simp: introspect_from_ports_def io_bind_Inr_iff now)
  obtain finished w4 where "ck_now clock w3 = (finished, w4)" by fastforce
  with rest have "build_level0 printable json_len pid snapshot st cpu (measured_snapshot_span_ms started finished)
      symbolize w4 = (Inr l0, w')" by simp
  moreover from sample_cpu_InrD [OF cpu] obtain end1 where
    "so_cpu_counters source pid (ck_sleep clock interval w1) = (Inr end1, w3)"
    "cc_process_start_time_ticks end1 = st_process_start_time_ticks st"
    "cpu = calculate_cpu_percent \<lparr>cc_process_ticks = st_process_ticks st, cc_system_ticks = sn_system_cpu_ticks snapshot,
      cc_process_start_time_ticks = st_process_start_time_ticks st\<rparr> end1 (sn_logical_cpus snapshot)"
    by auto
  ultimately show ?thesis using s by blast
qed

lemma level0_of_parts:
  assumes "build_level0 printable json_len pid snapshot st cpu span_ms symbolize w = (Inr l0, w')"
  shows "id_pid (l0_identity l0) = pid" "id_comm (l0_identity l0) = st_comm st"
    "pr_run_state (l0_state l0) = st_state st" "re_pct_cpu (l0_resource l0) = cp_pct_cpu cpu"
    "re_vsz_bytes (l0_resource l0) = st_vsize st"
  using build_level0_InrD [OF assms] by (auto simp: make_level0_def set_token_def Let_def)

text \<open>C16: An answer is of the requested process and of one generation of it: the pid is the
  requested one, the stat line the answer is projected from names it, and both CPU readings carry
  the start time of that stat line, so a process that was replaced between them never yields an
  answer.\<close>

theorem introspection_is_of_one_generation:
  assumes "introspect_from_ports printable json_len source symbolize clock interval pid w = (Inr l0, w')"
  shows "\<exists>snapshot st end1 w0 w1 w2 w3.
    so_snapshot source pid w0 = (Inr snapshot, w1) \<and> parse_stat (sn_stat snapshot) = Inr st \<and> st_pid st = pid \<and>
    so_cpu_counters source pid w2 = (Inr end1, w3) \<and>
    cc_process_start_time_ticks end1 = st_process_start_time_ticks st \<and>
    1 \<le> pid \<and> id_pid (l0_identity l0) = pid \<and> id_comm (l0_identity l0) = st_comm st \<and>
    pr_run_state (l0_state l0) = st_state st"
proof -
  from introspect_from_ports_InrD [OF assms] obtain snapshot st cpu span_ms end1 w0 w1 w2 w3 w4 where
    p: "so_snapshot source pid w0 = (Inr snapshot, w1)" "1 \<le> pid" "parse_stat (sn_stat snapshot) = Inr st"
      "st_pid st = pid" "so_cpu_counters source pid w2 = (Inr end1, w3)"
      "cc_process_start_time_ticks end1 = st_process_start_time_ticks st"
    and b: "build_level0 printable json_len pid snapshot st cpu span_ms symbolize w4 = (Inr l0, w')" by blast
  from p level0_of_parts [OF b] show ?thesis by blast
qed

text \<open>Concrete ports for the witnesses.\<close>

definition still_snapshot :: "string \<Rightarrow> proc_snapshot" where
  "still_snapshot state = \<lparr>sn_stat = sample_stat state ''500'', sn_status = asc ''Uid: 1000 0'' @ [10],
     sn_maps = asc ''1000-2000 rw-p 0 0:0 0 [heap]'' @ [10], sn_wchan = Some (asc ''io_wait''),
     sn_cmdline = [115, 104, 0], sn_nr_fds = 3, sn_kernel_stack = Some (asc ''[<0x1f>] io_wait+0x1'' @ [10]),
     sn_exe = Some (asc ''/bin/sh''), sn_cgroup = None,
     sn_degradations = [new_degradation (asc ''identity.exe'') (asc ''lossy'')],
     sn_system_cpu_ticks = 92, sn_logical_cpus = 1, sn_page_size_bytes = 4096\<rparr>"

definition still_source :: "string \<Rightarrow> nat proc_source" where
  "still_source state = \<lparr>so_snapshot = (\<lambda>pid n. (Inr (still_snapshot state), Suc n)),
     so_cpu_counters = (\<lambda>pid n. (Inr \<lparr>cc_process_ticks = 10, cc_system_ticks = 100,
       cc_process_start_time_ticks = 500\<rparr>, Suc n))\<rparr>"

definition tick_clock :: "nat sample_clock" where
  "tick_clock = \<lparr>ck_now = (\<lambda>n. (int n * 1000000, Suc n)), ck_sleep = (\<lambda>d n. Suc n)\<rparr>"

definition no_symbols :: "nat symbolizer" where
  "no_symbols addr = io_lift (Inl NoSymbolFile)"

definition still_run :: "string \<Rightarrow> (proc_error + level0) \<times> nat" where
  "still_run state = introspect_from_ports (\<lambda>_. True) (\<lambda>_. 1000) (still_source state) no_symbols tick_clock
     default_sample_interval 7 0"

lemma introspect_from_ports_succeeds:
  assumes "\<And>w. so_snapshot source pid w = (Inr snapshot, f w)" "\<And>w. so_cpu_counters source pid w = (Inr end1, g w)"
    and "1 \<le> pid" "sn_page_size_bytes snapshot \<noteq> 0" "parse_stat (sn_stat snapshot) = Inr st" "st_pid st = pid"
    and "cc_process_start_time_ticks end1 = st_process_start_time_ticks st"
    and "parse_status (sn_status snapshot) = Inr status1" "parse_maps_with_diagnostics printable (sn_maps snapshot) = Inr maps1"
  shows "\<exists>l0 w'. introspect_from_ports printable json_len source symbolize clock interval pid w = (Inr l0, w')"
proof -
  have v: "validate_requested_pid pid = Inr ()" "validate_page_size (sn_page_size_bytes snapshot) = Inr ()"
    "validate_snapshot_pid pid pid = Inr ()" using assms by simp_all
  show ?thesis
    using assms(1,2,5-)
    by (simp add: introspect_from_ports_def io_bind_def v sample_cpu_def build_level0_def Let_def split: prod.split)
qed

lemma still_parts:
  "\<exists>st. parse_stat (sn_stat (still_snapshot ''D'')) = Inr st \<and> st_pid st = 7 \<and> st_state st = RS_D \<and>
     st_process_start_time_ticks st = 500"
  "\<exists>status1. parse_status (sn_status (still_snapshot ''D'')) = Inr status1"
  "\<exists>maps1. parse_maps_with_diagnostics (\<lambda>_. True) (sn_maps (still_snapshot ''D'')) = Inr maps1"
proof -
  have "(case parse_stat (sn_stat (still_snapshot ''D'')) of Inl e \<Rightarrow> False
    | Inr st \<Rightarrow> st_pid st = 7 \<and> st_state st = RS_D \<and> st_process_start_time_ticks st = 500)"
    "\<not> is_err (parse_status (sn_status (still_snapshot ''D'')))"
    "\<not> is_err (parse_maps_with_diagnostics (\<lambda>_. True) (sn_maps (still_snapshot ''D'')))"
    by code_simp+
  then show "\<exists>st. parse_stat (sn_stat (still_snapshot ''D'')) = Inr st \<and> st_pid st = 7 \<and> st_state st = RS_D \<and>
     st_process_start_time_ticks st = 500"
    "\<exists>status1. parse_status (sn_status (still_snapshot ''D'')) = Inr status1"
    "\<exists>maps1. parse_maps_with_diagnostics (\<lambda>_. True) (sn_maps (still_snapshot ''D'')) = Inr maps1"
    by (auto dest: not_is_errD split: sum.splits)
qed

lemma still_run_D: "\<exists>l0 n. still_run ''D'' = (Inr l0, n)"
proof -
  from still_parts obtain st status1 maps1 where p: "parse_stat (sn_stat (still_snapshot ''D'')) = Inr st" "st_pid st = 7"
    "st_process_start_time_ticks st = 500" "parse_status (sn_status (still_snapshot ''D'')) = Inr status1"
    "parse_maps_with_diagnostics (\<lambda>_. True) (sn_maps (still_snapshot ''D'')) = Inr maps1" by blast
  define end1 :: cpu_counters where
    "end1 = \<lparr>cc_process_ticks = 10, cc_system_ticks = 100, cc_process_start_time_ticks = 500\<rparr>"
  have "so_cpu_counters (still_source ''D'') 7 w = (Inr end1, Suc w)" "so_snapshot (still_source ''D'') 7 w =
      (Inr (still_snapshot ''D''), Suc w)" for w
    by (simp_all add: still_source_def end1_def)
  moreover have "cc_process_start_time_ticks end1 = st_process_start_time_ticks st"
    "sn_page_size_bytes (still_snapshot ''D'') \<noteq> 0"
    by (simp_all add: end1_def p still_snapshot_def)
  ultimately show ?thesis unfolding still_run_def
    using introspect_from_ports_succeeds [of "still_source ''D''" 7 "still_snapshot ''D''" Suc end1 Suc, OF _ _ _ _ p(1,2) _ p(4,5)]
    by simp
qed

theorem introspection_is_of_one_generation_witness:
  "\<exists>l0 n (st :: stat) end1 w2 w3. still_run ''D'' = (Inr l0, n) \<and> st_pid st = 7 \<and>
     so_cpu_counters (still_source ''D'') 7 w2 = (Inr end1, w3) \<and>
     cc_process_start_time_ticks end1 = st_process_start_time_ticks st \<and> id_pid (l0_identity l0) = 7"
proof -
  obtain l0 n where r: "still_run ''D'' = (Inr l0, n)" using still_run_D by blast
  from introspection_is_of_one_generation [OF r [unfolded still_run_def]] r show ?thesis by fast
qed

section \<open>The hotspot\<close>

text \<open>What is recorded for the frame at index \<open>i\<close>, whose kernel stack entry is \<open>(a, raw)\<close>: the
  symbolizer's answer for its address, or the raw symbol and a field that says why.\<close>

definition frame_recorded :: "'w symbolizer \<Rightarrow> low_confidence_field list \<Rightarrow> nat \<Rightarrow> str \<times> str \<Rightarrow> stack_frame \<Rightarrow> bool" where
  "frame_recorded symbolize low i entry frame \<longleftrightarrow>
     (\<exists>w w' y. symbolize (frame_addr (fst entry)) w = (Inr y, w') \<and> frame = make_frame i (fst entry) y) \<or>
     (\<exists>w w' e. symbolize (frame_addr (fst entry)) w = (Inl e, w') \<and>
        frame = make_frame i (fst entry) \<lparr>sy_name = snd entry, sy_source = Kallsyms\<rparr> \<and>
        symbolizer_failed_field i e \<in> set low)"

lemma frame_recorded_ok:
  "symbolize (frame_addr a) w = (Inr y, w') \<Longrightarrow> frame_recorded symbolize low i (a, raw) (make_frame i a y)"
  unfolding frame_recorded_def by auto

lemma frame_recorded_failed:
  "symbolize (frame_addr a) w = (Inl e, w') \<Longrightarrow> symbolizer_failed_field i e \<in> set low \<Longrightarrow>
     frame_recorded symbolize low i (a, raw) (make_frame i a \<lparr>sy_name = raw, sy_source = Kallsyms\<rparr>)"
  unfolding frame_recorded_def fst_conv snd_conv by blast

lemma frame_recorded_fields:
  "frame_recorded symbolize low i entry frame \<Longrightarrow> sf_idx frame = i \<and> sf_addr frame = fst entry"
  by (auto simp: frame_recorded_def make_frame_def)

lemma frame_recorded_mono: "frame_recorded symbolize low i entry frame \<Longrightarrow> set low \<subseteq> set low'
    \<Longrightarrow> frame_recorded symbolize low' i entry frame"
  by (auto simp: frame_recorded_def)

lemma hotspot_frames_recorded:
  "hotspot_frames symbolize idx stack w = ((frames, low), w') \<Longrightarrow>
     length frames = length stack \<and> length low \<le> length stack \<and>
     (\<forall>i<length stack. frame_recorded symbolize low (idx + i) (stack ! i) (frames ! i))"
proof (induction symbolize idx stack w arbitrary: frames low rule: hotspot_frames.induct)
  case (2 symbolize idx addr_s raw_symbol stack w)
  obtain r w1 where r: "symbolize (frame_addr addr_s) w = (r, w1)" by fastforce
  obtain frames1 low1 w2 where rest: "hotspot_frames symbolize (Suc idx) stack w1 = ((frames1, low1), w2)"
    by (metis surj_pair)
  have IH: "length frames1 = length stack \<and> length low1 \<le> length stack \<and>
     (\<forall>i<length stack. frame_recorded symbolize low1 (Suc idx + i) (stack ! i) (frames1 ! i))"
    using 2 r rest by (cases r) fastforce+
  obtain f where frames: "frames = f # frames1" and low: "set low1 \<subseteq> set low" "length low \<le> Suc (length low1)"
    and f: "frame_recorded symbolize low idx (addr_s, raw_symbol) f"
  proof (cases r)
    case (Inl e)
    then show thesis using 2(3) r rest frame_recorded_failed [of symbolize addr_s w e w1 idx low raw_symbol]
      by (intro that) auto
  next
    case (Inr y)
    then show thesis using 2(3) r rest frame_recorded_ok [of symbolize addr_s w y w1 low idx raw_symbol]
      by (intro that) auto
  qed
  have "frame_recorded symbolize low (idx + i) (((addr_s, raw_symbol) # stack) ! i) (frames ! i)"
    if "i < Suc (length stack)" for i
  proof (cases i)
    case (Suc j)
    with that IH have "frame_recorded symbolize low1 (Suc idx + j) (stack ! j) (frames1 ! j)" by simp
    from frame_recorded_mono [OF this low(1)] Suc frames show ?thesis by simp
  qed (use f frames in simp)
  with IH frames low show ?case by auto
qed simp

lemma build_hotspot_cases:
  assumes "build_hotspot state stack symbolize w = ((h, low), w')"
  shows "state \<noteq> RS_D \<and> h = NotBlocked \<and> low = [] \<and> w' = w \<or>
    state = RS_D \<and> (\<exists>frames. h = Blocked frames \<and> length frames = min mem_shape_top_n (length stack) \<and>
      (stack = [] \<longrightarrow> map lf_path low = [asc ''hotspot.frames'']) \<and>
      (\<forall>i<length frames. frame_recorded symbolize low i (stack ! i) (frames ! i)))"
proof -
  obtain frames low1 w1 where hf: "hotspot_frames symbolize 0 (take (min mem_shape_top_n (length stack)) stack) w
      = ((frames, low1), w1)" by (metis surj_pair)
  from hotspot_frames_recorded [OF this] assms hf show ?thesis
    by (auto simp: build_hotspot_def split: if_splits)
qed

lemma build_hotspot_frame_count:
  "build_hotspot state stack symbolize w = ((h, low), w') \<Longrightarrow> frame_count h \<le> mem_shape_top_n"
  by (drule build_hotspot_cases) (auto simp: frame_count_def)

text \<open>C30: Only a task in uninterruptible sleep has a hotspot. It has the first five entries of the
  kernel stack, in order and with their addresses; each frame is the symbolizer's answer for its
  own address, or, when that failed, the raw kernel symbol together with a field that names the
  failure; a blocked task without a readable stack is reported as such.\<close>

theorem hotspot_records_every_frame:
  assumes "build_hotspot state stack symbolize w = ((h, low), w')"
  shows "if state \<noteq> RS_D then h = NotBlocked \<and> low = [] \<and> w' = w
    else (\<exists>frames. h = Blocked frames \<and> length frames = min 5 (length stack) \<and>
      (stack = [] \<longrightarrow> map lf_path low = [asc ''hotspot.frames'']) \<and>
      (\<forall>i<length frames. sf_idx (frames ! i) = i \<and> sf_addr (frames ! i) = fst (stack ! i) \<and>
         frame_recorded symbolize low i (stack ! i) (frames ! i)))"
proof (cases "state = RS_D")
  case True
  with build_hotspot_cases [OF assms] obtain frames where "h = Blocked frames" "length frames = min 5 (length stack)"
    "stack = [] \<longrightarrow> map lf_path low = [asc ''hotspot.frames'']"
    and rec: "\<forall>i<length frames. frame_recorded symbolize low i (stack ! i) (frames ! i)"
    by (auto simp: mem_shape_top_n_def)
  with True rec show ?thesis by (auto dest!: frame_recorded_fields)
qed (use build_hotspot_cases [OF assms] in simp)

theorem hotspot_records_every_frame_witness:
  "\<exists>frames low. build_hotspot RS_D [(asc ''0x1f'', asc ''io_wait+0x1'')] no_symbols 0 = ((Blocked frames, low), 0) \<and>
     length frames = 1 \<and> frame_recorded no_symbols low 0 (asc ''0x1f'', asc ''io_wait+0x1'') (frames ! 0)"
proof -
  obtain h low w' where b: "build_hotspot RS_D [(asc ''0x1f'', asc ''io_wait+0x1'')] no_symbols 0 = ((h, low), w')"
    by (metis surj_pair)
  then have "w' = 0" by (auto simp: build_hotspot_def no_symbols_def mem_shape_top_n_def split: prod.splits)
  with hotspot_records_every_frame [OF b] b show ?thesis by auto
qed

end
