(* ===== verification/Level0_Facts.thy ===== *)
theory Level0_Facts
  imports Introspect_Facts "HOL-Library.Sublist"
begin

text \<open>
  Level 0 as a whole: the invariant of every answer, what is always noted among the fields in doubt,
  what full confidence means, and what a failing symbolizer worker costs.
\<close>

section \<open>The invariant of an answer\<close>

definition level0_consistent :: "(level0 \<Rightarrow> u64) \<Rightarrow> level0 \<Rightarrow> bool" where
  "level0_consistent json_len l0 \<longleftrightarrow>
     cf_overall (l0_confidence l0) = calculate_overall_confidence (l0_hotspot l0) (cf_low_fields (l0_confidence l0)) \<and>
     distinct (map lf_path (cf_low_fields (l0_confidence l0))) \<and>
     ch_token (l0_cost_hint l0) = estimate_level0_tokens json_len l0 \<and>
     frame_count (l0_hotspot l0) \<le> mem_shape_top_n"

lemma set_token_simps [simp]:
  "l0_identity (set_token t l0) = l0_identity l0" "l0_state (set_token t l0) = l0_state l0"
  "l0_resource (set_token t l0) = l0_resource l0" "l0_mem_shape (set_token t l0) = l0_mem_shape l0"
  "l0_hotspot (set_token t l0) = l0_hotspot l0" "l0_confidence (set_token t l0) = l0_confidence l0"
  "ch_token (l0_cost_hint (set_token t l0)) = t" "set_token u (set_token t l0) = set_token u l0"
  by (simp_all add: set_token_def)

lemma estimate_set_token [simp]:
  "estimate_level0_tokens json_len (set_token t l0) = estimate_level0_tokens json_len l0"
  by (simp add: estimate_level0_tokens_def)

lemma frame_path_inj: "frame_path m = frame_path n \<longleftrightarrow> m = n"
  by (auto simp: frame_path_def dest: fmt_dec_inj)

lemma hotspot_frames_low_paths:
  "hotspot_frames symbolize idx stack w = ((frames, low), w') \<Longrightarrow>
     distinct (map lf_path low) \<and> lf_path ` set low \<subseteq> frame_path ` {idx..}"
proof (induction symbolize idx stack w arbitrary: frames low rule: hotspot_frames.induct)
  case (2 symbolize idx addr_s raw_symbol stack w)
  obtain r w1 where r: "symbolize (frame_addr addr_s) w = (r, w1)" by fastforce
  obtain frames1 low1 w2 where rest: "hotspot_frames symbolize (Suc idx) stack w1 = ((frames1, low1), w2)"
    by (metis surj_pair)
  have IH: "distinct (map lf_path low1) \<and> lf_path ` set low1 \<subseteq> frame_path ` {Suc idx..}"
    using 2 r rest by (cases r) fastforce+
  have "frame_path idx \<notin> frame_path ` {Suc idx..}" by (auto simp: frame_path_inj)
  with IH have new: "frame_path idx \<notin> lf_path ` set low1" by blast
  have sub: "frame_path ` {Suc idx..} \<subseteq> frame_path ` {idx..}" by (intro image_mono) auto
  show ?case
  proof (cases r)
    case (Inl e)
    then have "low = symbolizer_failed_field idx e # low1" using 2(3) r rest by simp
    with IH new sub show ?thesis by (auto simp: symbolizer_failed_field_def)
  next
    case (Inr y)
    then have "low = low1" using 2(3) r rest by simp
    with IH sub show ?thesis by blast
  qed
qed simp

lemma build_hotspot_distinct:
  assumes "build_hotspot state stack symbolize w = ((h, low), w')"
  shows "distinct (map lf_path low)"
proof -
  obtain frames low1 w1 where hf: "hotspot_frames symbolize 0 (take (min mem_shape_top_n (length stack)) stack) w
      = ((frames, low1), w1)" by (metis surj_pair)
  from hotspot_frames_low_paths [OF this] assms hf show ?thesis
    by (auto simp: build_hotspot_def split: if_splits)
qed

text \<open>Every step of the bookkeeping merges; a property that merging keeps is kept by all of them.\<close>

definition merge_stable :: "(low_confidence_field list \<Rightarrow> bool) \<Rightarrow> bool" where
  "merge_stable P \<longleftrightarrow> (\<forall>p c r lfs. P lfs \<longrightarrow> P (merge_low_confidence_field p c r lfs))"

lemma merge_stableD: "merge_stable P \<Longrightarrow> P lfs \<Longrightarrow> P (merge_low_confidence_field p c r lfs)"
  by (simp add: merge_stable_def)

lemma note_if_keeps: "merge_stable P \<Longrightarrow> P lfs \<Longrightarrow> P (note_if b path reason lfs)"
  by (simp add: note_if_def merge_stableD [where P = P])

lemma fold_keeps: "(\<And>x y. P y \<Longrightarrow> P (f x y)) \<Longrightarrow> P y \<Longrightarrow> P (fold f xs y)"
  by (induction xs arbitrary: y) simp_all

lemma note_unsymbolized_keeps: "merge_stable P \<Longrightarrow> P lfs \<Longrightarrow> P (note_unsymbolized frame lfs)"
  by (simp add: note_unsymbolized_def merge_stableD [where P = P])

lemma note_mismatch_keeps: "merge_stable P \<Longrightarrow> P lfs \<Longrightarrow> P (note_mismatch wchan_raw stack h lfs)"
  by (simp add: note_mismatch_def Let_def merge_stableD [where P = P] split: hotspot.split option.split list.split)

lemma build_confidence_keeps: "merge_stable P \<Longrightarrow> P lfs \<Longrightarrow> P (cf_low_fields (build_confidence wchan_raw stack h lfs))"
proof -
  assume P: "merge_stable P" "P lfs"
  then have "P (fold note_unsymbolized frames lfs)" for frames
    by (intro fold_keeps [where P = P] note_unsymbolized_keeps [where P = P])
  with P show ?thesis
    by (cases h) (simp_all add: build_confidence_def Let_def note_mismatch_keeps [where P = P])
qed

lemma merge_proc_degradations_keeps: "merge_stable P \<Longrightarrow> P lfs \<Longrightarrow> P (merge_proc_degradations ds lfs)"
  unfolding merge_proc_degradations_def merge_proc_degradation_def by (intro fold_keeps [where P = P] merge_stableD [where P = P])

lemma note_state_keeps: "merge_stable P \<Longrightarrow> P lfs \<Longrightarrow> P (note_state state wchan_raw lfs)"
  unfolding note_state_def by (intro note_if_keeps [where P = P])

lemma note_fields_keeps: "merge_stable P \<Longrightarrow> P lfs \<Longrightarrow> P (note_fields snapshot st cpu lfs)"
  by (simp add: note_fields_def note_if_keeps [where P = P] Let_def merge_stableD [where P = P] split: option.split)

lemma level0_low_fields_keeps: "merge_stable P \<Longrightarrow> P low \<Longrightarrow> P (level0_low_fields snapshot st status1 maps1 cpu h low)"
  unfolding level0_low_fields_def
  by (intro note_fields_keeps [where P = P] note_state_keeps [where P = P] merge_proc_degradations_keeps [where P = P] build_confidence_keeps [where P = P])

lemma distinct_stable: "merge_stable (\<lambda>lfs. distinct (map lf_path lfs))"
  by (simp add: merge_stable_def merge_distinct)

lemma build_level0_consistent:
  assumes "build_level0 printable json_len pid snapshot st cpu span_ms symbolize w = (Inr l0, w')"
  shows "level0_consistent json_len l0"
proof -
  from build_level0_InrD [OF assms] obtain status1 maps1 h low where
    b: "build_hotspot (st_state st) (snapshot_stack snapshot) symbolize w = ((h, low), w')"
    and l0: "l0 = set_token (estimate_level0_tokens json_len (make_level0 pid snapshot st status1 maps1 cpu span_ms h low))
      (make_level0 pid snapshot st status1 maps1 cpu span_ms h low)" by blast
  from build_hotspot_frame_count [OF b] have "frame_count h \<le> mem_shape_top_n" .
  moreover have "distinct (map lf_path (level0_low_fields snapshot st status1 maps1 cpu h low))"
    by (rule level0_low_fields_keeps [OF distinct_stable build_hotspot_distinct [OF b]])
  ultimately show ?thesis
    by (simp add: l0 level0_consistent_def) (simp add: make_level0_def Let_def)
qed

lemma from_ports_consistent:
  "introspect_from_ports printable json_len source symbolize clock interval pid w = (Inr l0, w') \<Longrightarrow>
     level0_consistent json_len l0"
  by (drule introspect_from_ports_InrD) (blast dest: build_level0_consistent)

lemma record_degradation_consistent:
  "level0_consistent json_len l0 \<Longrightarrow> level0_consistent json_len (record_symbolizer_degradation json_len reason l0)"
  by (simp add: level0_consistent_def record_symbolizer_degradation_def Let_def merge_distinct)

lemma service_is_from_ports:
  "1 \<le> pid \<Longrightarrow> service_introspect printable json_len service pid =
     introspect_from_ports printable json_len (sv_source service) (sv_symbolizer service) (sv_clock service)
       (sv_sample_interval service) pid"
  by (simp add: service_introspect_def io_bind_def fun_eq_iff validate_requested_pid_def)

text \<open>The two outcomes of the assembly: the worker started or it did not. The base run is the one
  with the symbolizer at hand, the cost is what the failure adds to its answer.\<close>

definition worker_symbolizer :: "symbolize_error + 'w introspection_worker \<Rightarrow> 'w symbolizer" where
  "worker_symbolizer spawned = (case spawned of
     Inl e \<Rightarrow> (\<lambda>addr. io_lift (fallback_symbolize addr)) | Inr worker \<Rightarrow> iw_symbolizer worker)"

definition worker_failure :: "symbolize_error + 'w introspection_worker \<Rightarrow> 'w \<Rightarrow> str option" where
  "worker_failure spawned w = (case spawned of
     Inl e \<Rightarrow> Some (init_failed_reason e)
   | Inr worker \<Rightarrow> (case fst (iw_shutdown worker w) of
       Inl e \<Rightarrow> Some (shutdown_failed_reason e) | Inr u \<Rightarrow> None))"

definition with_failure :: "(level0 \<Rightarrow> u64) \<Rightarrow> str option \<Rightarrow> level0 \<Rightarrow> level0" where
  "with_failure json_len failure l0 =
     (case failure of None \<Rightarrow> l0 | Some reason \<Rightarrow> record_symbolizer_degradation json_len reason l0)"

lemma assemble_is_base_with_failure:
  assumes "1 \<le> pid" "spawn_worker w = (spawned, w1)"
    and "introspect_from_ports printable json_len source (worker_symbolizer spawned) clock interval pid w1 = (r, w2)"
  shows "fst (assemble_default_introspection printable json_len pid source clock interval spawn_worker w) =
    (case r of Inl e \<Rightarrow> Inl e | Inr base \<Rightarrow> Inr (with_failure json_len (worker_failure spawned w2) base))"
proof -
  have v: "io_lift (validate_requested_pid pid) = io_ok ()"
    using assms(1) by (simp add: validate_requested_pid_def io_lift_def io_ok_def)
  show ?thesis
  proof (cases spawned)
    case (Inl e)
    with assms show ?thesis
      by (cases r) (simp_all add: assemble_default_introspection_def v service_is_from_ports io_bind_def worker_symbolizer_def
          worker_failure_def with_failure_def)
  next
    case (Inr worker)
    obtain sd w3 where sd: "iw_shutdown worker w2 = (sd, w3)" by fastforce
    with Inr assms show ?thesis
      by (cases r; cases sd) (simp_all add: assemble_default_introspection_def v io_bind_def worker_symbolizer_def
          worker_failure_def with_failure_def)
  qed
qed

lemma with_failure_consistent: "level0_consistent json_len l0 \<Longrightarrow> level0_consistent json_len (with_failure json_len f l0)"
  by (simp add: with_failure_def record_degradation_consistent split: option.split)

lemma assemble_InrD:
  assumes "assemble_default_introspection printable json_len pid source clock interval spawn_worker w = (Inr l0, w')"
  shows "\<exists>spawned w1 base w2. spawn_worker w = (spawned, w1) \<and>
    introspect_from_ports printable json_len source (worker_symbolizer spawned) clock interval pid w1 = (Inr base, w2) \<and>
    l0 = with_failure json_len (worker_failure spawned w2) base"
proof -
  have pid: "1 \<le> pid"
    using assms by (auto simp: assemble_default_introspection_def io_bind_Inr_iff)
  obtain spawned w1 where sp: "spawn_worker w = (spawned, w1)" by fastforce
  obtain r w2 where r: "introspect_from_ports printable json_len source (worker_symbolizer spawned) clock interval pid w1
    = (r, w2)" by fastforce
  from assemble_is_base_with_failure [where spawn_worker = spawn_worker and w = w, OF pid sp r] assms sp r show ?thesis
    by (cases r) auto
qed

text \<open>C13: Every answer, whether its symbolizer worker worked, failed to start or failed to stop, is
  consistent: the stored confidence is that of the stored hotspot and fields, no path is listed
  twice, the stored token count is the estimate of the value itself, and there are at most five
  frames.\<close>

theorem every_answer_is_consistent:
  assumes "assemble_default_introspection printable json_len pid source clock interval spawn_worker w = (Inr l0, w')"
  shows "level0_consistent json_len l0"
  using assemble_InrD [OF assms] by (auto dest: from_ports_consistent intro: with_failure_consistent)

definition broken_worker :: "(nat, symbolize_error, nat introspection_worker) io" where
  "broken_worker n = (Inr \<lparr>iw_symbolizer = no_symbols, iw_shutdown = (\<lambda>m. (Inl ShutdownTimeout, Suc m))\<rparr>, n)"

definition assembled_run :: "(proc_error + level0) \<times> nat" where
  "assembled_run = assemble_default_introspection (\<lambda>_. True) (\<lambda>_. 1000) 7 (still_source ''D'') tick_clock
     default_sample_interval broken_worker 0"

lemma assembled_run_ok: "\<exists>l0 n. assembled_run = (Inr l0, n)"
proof -
  obtain base n where b: "still_run ''D'' = (Inr base, n)" using still_run_D by blast
  have sp: "broken_worker 0 = (fst (broken_worker 0), 0)" and "worker_symbolizer (fst (broken_worker 0)) = no_symbols"
    by (simp_all add: broken_worker_def worker_symbolizer_def)
  with b have "introspect_from_ports (\<lambda>_. True) (\<lambda>_. 1000) (still_source ''D'') (worker_symbolizer (fst (broken_worker 0)))
      tick_clock default_sample_interval 7 0 = (Inr base, n)" by (simp add: still_run_def)
  from assemble_is_base_with_failure [where spawn_worker = broken_worker and w = 0, OF _ sp this]
  have "fst assembled_run = Inr (with_failure (\<lambda>_. 1000) (worker_failure (fst (broken_worker 0)) n) base)"
    by (simp add: assembled_run_def)
  then show ?thesis by (metis prod.collapse)
qed

theorem every_answer_is_consistent_witness:
  "\<exists>l0 n. assembled_run = (Inr l0, n) \<and> level0_consistent (\<lambda>_. 1000) l0"
proof -
  obtain l0 n where r: "assembled_run = (Inr l0, n)" using assembled_run_ok by blast
  from every_answer_is_consistent [OF r [unfolded assembled_run_def]] r show ?thesis by blast
qed

section \<open>A failing symbolizer worker\<close>

text \<open>Two answers that differ at most in their confidence and in their cost.\<close>

definition same_observations :: "level0 \<Rightarrow> level0 \<Rightarrow> bool" where
  "same_observations l0 l1 \<longleftrightarrow>
     l0\<lparr>l0_confidence := l0_confidence l1, l0_cost_hint := l0_cost_hint l1\<rparr> = l1"

lemma record_degradation_same: "same_observations (record_symbolizer_degradation json_len reason l0) l0"
  by (cases l0) (simp add: same_observations_def record_symbolizer_degradation_def set_token_def Let_def)

lemma record_degradation_low_map:
  "low_map (cf_low_fields (l0_confidence (record_symbolizer_degradation json_len reason l0))) =
     note_low (asc ''hotspot.frames'') NoConfidence reason (low_map (cf_low_fields (l0_confidence l0)))"
  by (simp add: record_symbolizer_degradation_def Let_def low_map_merge symbolizer_confidence_path_def)

lemma record_degradation_confidence:
  "level0_consistent json_len l0 \<Longrightarrow>
     fl_le (cf_overall (l0_confidence (record_symbolizer_degradation json_len reason l0))) (cf_overall (l0_confidence l0))"
  by (simp add: level0_consistent_def record_symbolizer_degradation_def Let_def overall_antimono merge_length_ge)

text \<open>C14: A symbolizer worker that fails to start or to stop costs confidence and nothing else: the
  request succeeds or fails exactly as it does with the symbolizer at hand (the raw symbols, when
  the worker did not start), every observation is that of this base run, and the failure is noted
  at \<open>hotspot.frames\<close> and never raises the overall confidence.\<close>

theorem worker_failure_costs_only_confidence:
  assumes "1 \<le> pid" "spawn_worker w = (spawned, w1)"
    and "introspect_from_ports printable json_len source (worker_symbolizer spawned) clock interval pid w1 = (r, w2)"
  shows "case fst (assemble_default_introspection printable json_len pid source clock interval spawn_worker w) of
      Inl e \<Rightarrow> r = Inl e
    | Inr l0 \<Rightarrow> \<exists>base. r = Inr base \<and> same_observations l0 base \<and>
        (case worker_failure spawned w2 of
           None \<Rightarrow> l0 = base
         | Some reason \<Rightarrow> low_map (cf_low_fields (l0_confidence l0)) =
               note_low (asc ''hotspot.frames'') NoConfidence reason (low_map (cf_low_fields (l0_confidence base))) \<and>
             fl_le (cf_overall (l0_confidence l0)) (cf_overall (l0_confidence base)))"
proof (cases r)
  case (Inr base)
  have c: "level0_consistent json_len base" by (rule from_ports_consistent [OF assms(3) [unfolded Inr]])
  have refl: "same_observations base base" by (simp add: same_observations_def)
  show ?thesis
    unfolding assemble_is_base_with_failure [where spawn_worker = spawn_worker and w = w, OF assms] with_failure_def Inr
    by (cases "worker_failure spawned w2")
      (simp_all add: refl record_degradation_same record_degradation_low_map record_degradation_confidence [OF c])
next
  case (Inl e)
  then show ?thesis
    unfolding assemble_is_base_with_failure [where spawn_worker = spawn_worker and w = w, OF assms] by simp
qed

theorem worker_failure_costs_only_confidence_witness:
  "\<exists>l0 n base m. assembled_run = (Inr l0, n) \<and> still_run ''D'' = (Inr base, m) \<and> same_observations l0 base \<and>
     low_map (cf_low_fields (l0_confidence l0)) = note_low (asc ''hotspot.frames'') NoConfidence
       (shutdown_failed_reason ShutdownTimeout) (low_map (cf_low_fields (l0_confidence base)))"
proof -
  let ?worker = "\<lparr>iw_symbolizer = no_symbols, iw_shutdown = (\<lambda>m. (Inl ShutdownTimeout, Suc m))\<rparr>"
  obtain base m where b: "still_run ''D'' = (Inr base, m)" using still_run_D by blast
  obtain l0 n where r: "assembled_run = (Inr l0, n)" using assembled_run_ok by blast
  have sp: "broken_worker 0 = (Inr ?worker, 0)" by (simp add: broken_worker_def)
  have "introspect_from_ports (\<lambda>_. True) (\<lambda>_. 1000) (still_source ''D'') (worker_symbolizer (Inr ?worker)) tick_clock
      default_sample_interval 7 0 = (Inr base, m)"
    using b by (simp add: still_run_def worker_symbolizer_def)
  from worker_failure_costs_only_confidence [where spawn_worker = broken_worker and w = 0, OF _ sp this] r b
  show ?thesis by (simp add: assembled_run_def worker_failure_def)
qed

section \<open>What is missing is noted\<close>

text \<open>A path is noted when it is listed without confidence, with the given text in its reason.\<close>

definition noted :: "str \<Rightarrow> str \<Rightarrow> low_confidence_field list \<Rightarrow> bool" where
  "noted path reason lfs \<longleftrightarrow> (\<exists>r. low_map lfs path = Some (Some NoConfidence, r) \<and> sublist reason r)"

lemma NoConfidence_least: "NoConfidence \<le> c"
  using score_rat_bounds by (simp add: less_eq_symbol_confidence_def)

lemma worst_NoConfidence [simp]: "worst old NoConfidence = NoConfidence" "worst (Some NoConfidence) c = NoConfidence"
  using NoConfidence_least by (auto simp: worst_def min_def antisym split: option.splits)

lemma sublist_add_reason: "sublist s old \<Longrightarrow> sublist s (add_reason old r)" "sublist r (add_reason old r)"
proof -
  show "sublist s (add_reason old r)" if "sublist s old"
    using that by (simp add: add_reason_def sublist_append_rightI sublist_order.order.trans)
  have "add_reason old r = old \<and> old = r \<or> add_reason old r = (old @ asc ''; '') @ r"
    by (auto simp: add_reason_def)
  then show "sublist r (add_reason old r)"
    by (elim disjE conjE) (simp, metis append_Nil2 sublist_def)
qed

lemma noted_merge: "noted path reason (merge_low_confidence_field path NoConfidence reason lfs)"
  by (auto simp: noted_def low_map_merge note_low_def sublist_add_reason split: option.split)

lemma noted_stable: "merge_stable (noted path reason)"
  by (auto simp: merge_stable_def noted_def low_map_merge note_low_def sublist_add_reason split: option.split)

lemma noted_note_if: "b \<Longrightarrow> noted (asc path) reason (note_if b path reason lfs)"
  by (simp add: note_if_def noted_merge)

lemma noted_degradations: "d \<in> set ds \<Longrightarrow> noted (dg_path d) (dg_reason d) (merge_proc_degradations ds lfs)"
proof (induction ds arbitrary: lfs)
  case (Cons e ds)
  show ?case
  proof (cases "d \<in> set ds")
    case False
    with Cons.prems have "noted (dg_path d) (dg_reason d) (merge_proc_degradation e lfs)"
      by (simp add: merge_proc_degradation_def noted_merge)
    from merge_proc_degradations_keeps [OF noted_stable this, of ds] show ?thesis
      by (simp add: merge_proc_degradations_def)
  qed (use Cons in \<open>simp add: merge_proc_degradations_def\<close>)
qed simp

lemma noted_note_fields:
  "missing_context_switches st \<noteq> [] \<Longrightarrow> noted (asc ''resource.ctxt_switches'')
     (asc ''status missing '' @ join_and (missing_context_switches st)) (note_fields snapshot st cpu lfs)"
  "sn_cgroup snapshot = None \<Longrightarrow> noted (asc ''identity.cgroup'') (asc ''cgroup path unavailable'') (note_fields snapshot st cpu lfs)"
  "sn_exe snapshot = None \<Longrightarrow> noted (asc ''identity.exe'') (asc ''exe target unavailable'') (note_fields snapshot st cpu lfs)"
  "cp_low_confidence_reason cpu = Some reason \<Longrightarrow> noted (asc ''resource.pct_cpu'') reason (note_fields snapshot st cpu lfs)"
  by (simp_all add: note_fields_def Let_def noted_note_if noted_merge merge_stableD [OF noted_stable]
      note_if_keeps [OF noted_stable] del: asc_simps split: option.split)

lemma noted_note_state:
  "is_unknown state \<Longrightarrow> noted (asc ''state.run_state'')
     (asc ''unknown kernel run state preserved as a forward-compatible fallback'') (note_state state wchan_raw lfs)"
  "state = RS_S \<or> state = RS_D \<Longrightarrow> wchan_raw = None \<Longrightarrow> noted (asc ''state.wchan'')
     (asc ''sleeping or blocked state has no readable wchan'') (note_state state wchan_raw lfs)"
  by (auto simp: note_state_def noted_note_if note_if_keeps [OF noted_stable] simp del: asc_simps)

text \<open>What a reader of an answer can rely on: every gap of the answer is noted.\<close>

definition gaps_noted :: "level0 \<Rightarrow> bool" where
  "gaps_noted l0 \<longleftrightarrow> (let lfs = cf_low_fields (l0_confidence l0) in
     (id_exe (l0_identity l0) = None \<longrightarrow> noted (asc ''identity.exe'') (asc ''exe target unavailable'') lfs) \<and>
     (id_cgroup (l0_identity l0) = None \<longrightarrow> noted (asc ''identity.cgroup'') (asc ''cgroup path unavailable'') lfs) \<and>
     (is_unknown (pr_run_state (l0_state l0)) \<longrightarrow> noted (asc ''state.run_state'')
        (asc ''unknown kernel run state preserved as a forward-compatible fallback'') lfs) \<and>
     ((pr_run_state (l0_state l0) = RS_S \<or> pr_run_state (l0_state l0) = RS_D) \<and> pr_wchan (l0_state l0) = None \<longrightarrow>
        noted (asc ''state.wchan'') (asc ''sleeping or blocked state has no readable wchan'') lfs))"

lemma level0_low_fields_noted:
  defines "lfs \<equiv> \<lambda>snapshot st status1 maps1 cpu h low. level0_low_fields snapshot st status1 maps1 cpu h low"
  shows "d \<in> set (sn_degradations snapshot) \<union> set (pm_degradations maps1) \<Longrightarrow>
      noted (dg_path d) (dg_reason d) (lfs snapshot st status1 maps1 cpu h low)"
    "missing_context_switches status1 \<noteq> [] \<Longrightarrow> noted (asc ''resource.ctxt_switches'')
      (asc ''status missing '' @ join_and (missing_context_switches status1)) (lfs snapshot st status1 maps1 cpu h low)"
    "cp_low_confidence_reason cpu = Some reason \<Longrightarrow> noted (asc ''resource.pct_cpu'') reason (lfs snapshot st status1 maps1 cpu h low)"
  unfolding lfs_def level0_low_fields_def
  by (auto simp: noted_note_fields note_fields_keeps [OF noted_stable] note_state_keeps [OF noted_stable]
      noted_degradations merge_proc_degradations_keeps [OF noted_stable] simp del: asc_simps)

lemma make_level0_gaps_noted: "gaps_noted (make_level0 pid snapshot st status1 maps1 cpu span_ms h low)"
  unfolding gaps_noted_def make_level0_def level0_low_fields_def Let_def
  by (simp add: noted_note_fields note_fields_keeps [OF noted_stable] noted_note_state del: asc_simps)

lemma gaps_noted_set_token [simp]: "gaps_noted (set_token t l0) = gaps_noted l0"
  by (simp add: gaps_noted_def)



section \<open>Confidence and completeness\<close>

lemma noted_not_Nil: "noted path reason lfs \<Longrightarrow> lfs \<noteq> []"
  by (auto simp: noted_def)

lemma gaps_noted_record: "gaps_noted l0 \<Longrightarrow> gaps_noted (record_symbolizer_degradation json_len reason l0)"
  by (simp add: gaps_noted_def record_symbolizer_degradation_def Let_def merge_stableD [OF noted_stable] del: asc_simps)

lemma from_ports_gaps_noted:
  assumes "introspect_from_ports printable json_len source symbolize clock interval pid w = (Inr l0, w')"
  shows "gaps_noted l0"
  using introspect_from_ports_InrD [OF assms] by (auto dest!: build_level0_InrD simp: make_level0_gaps_noted)

lemma with_failure_gaps_noted: "gaps_noted l0 \<Longrightarrow> gaps_noted (with_failure json_len f l0)"
  by (simp add: with_failure_def gaps_noted_record split: option.split)

text \<open>An answer in which something is missing, or a frame without debug information.\<close>

definition incomplete :: "level0 \<Rightarrow> bool" where
  "incomplete l0 \<longleftrightarrow> id_exe (l0_identity l0) = None \<or> id_cgroup (l0_identity l0) = None \<or>
     is_unknown (pr_run_state (l0_state l0)) \<or>
     (pr_run_state (l0_state l0) = RS_S \<or> pr_run_state (l0_state l0) = RS_D) \<and> pr_wchan (l0_state l0) = None \<or>
     \<not> all_dwarf (l0_hotspot l0)"

lemma consistent_incomplete:
  assumes "level0_consistent json_len l0" "gaps_noted l0" "incomplete l0"
  shows "\<exists>r. cf_overall (l0_confidence l0) = Fin r \<and> 0 \<le> r \<and> r < 1"
proof -
  let ?c = "calculate_overall_confidence (l0_hotspot l0) (cf_low_fields (l0_confidence l0))"
  have "cf_low_fields (l0_confidence l0) \<noteq> [] \<or> \<not> all_dwarf (l0_hotspot l0)"
    using assms(2,3) by (auto simp: incomplete_def gaps_noted_def Let_def dest: noted_not_Nil)
  moreover have "frame_count (l0_hotspot l0) \<le> 5"
    using assms(1) by (simp add: level0_consistent_def mem_shape_top_n_def)
  ultimately have "?c \<noteq> Fin 1" using overall_one_iff by blast
  moreover obtain r where "?c = Fin r" "0 \<le> r" "r \<le> 1" using overall_confidence_bounds by blast
  ultimately show ?thesis using assms(1) by (auto simp: level0_consistent_def)
qed

text \<open>C32: An incomplete answer never claims full confidence: if the executable, the control group or
  the wait channel of a sleeping task is missing, the state is unknown, or a blocked frame lacks
  debug information, the overall confidence is below 1.\<close>

theorem incomplete_answers_lose_confidence:
  assumes "assemble_default_introspection printable json_len pid source clock interval spawn_worker w = (Inr l0, w')"
    and "incomplete l0"
  shows "\<exists>r. cf_overall (l0_confidence l0) = Fin r \<and> 0 \<le> r \<and> r < 1"
proof -
  from assemble_InrD [OF assms(1)] have "level0_consistent json_len l0" "gaps_noted l0"
    by (auto dest: from_ports_consistent from_ports_gaps_noted intro: with_failure_consistent with_failure_gaps_noted)
  with assms(2) show ?thesis by (rule_tac consistent_incomplete)
qed

theorem incomplete_answers_lose_confidence_witness:
  "\<exists>l0 n r. assembled_run = (Inr l0, n) \<and> id_cgroup (l0_identity l0) = None \<and>
     cf_overall (l0_confidence l0) = Fin r \<and> r < 1"
proof -
  obtain l0 n where r: "assembled_run = (Inr l0, n)" using assembled_run_ok by blast
  from assemble_InrD [OF r [unfolded assembled_run_def]] obtain spawned w1 base w2 where
    b: "introspect_from_ports (\<lambda>_. True) (\<lambda>_. 1000) (still_source ''D'') (worker_symbolizer spawned) tick_clock
      default_sample_interval 7 w1 = (Inr base, w2)"
    and l0: "l0 = with_failure (\<lambda>_. 1000) (worker_failure spawned w2) base" by blast
  have "id_cgroup (l0_identity base) = None"
    using introspect_from_ports_InrD [OF b]
    by (auto dest!: build_level0_InrD simp: still_source_def still_snapshot_def make_level0_def Let_def)
  then have "id_cgroup (l0_identity l0) = None"
    by (simp add: l0 with_failure_def record_symbolizer_degradation_def Let_def split: option.split)
  with incomplete_answers_lose_confidence [OF r [unfolded assembled_run_def]] r show ?thesis
    by (auto simp: incomplete_def)
qed

section \<open>The command line\<close>

fun spaced :: "str list \<Rightarrow> str" where
  "spaced [] = []"
| "spaced [a] = a"
| "spaced (a # b # args) = a @ [32] @ spaced (b # args)"

definition argument_block :: "str list \<Rightarrow> str" where
  "argument_block args = concat (map (\<lambda>a. a @ [0]) args)"

lemma map_no_nul: "0 \<notin> set a \<Longrightarrow> map (\<lambda>c. if c = 0 then 32 else c) a = a"
  by (induction a) auto

lemma spaced_block:
  "\<forall>a\<in>set args. 0 \<notin> set a \<Longrightarrow> args \<noteq> [] \<Longrightarrow>
     map (\<lambda>c. if c = 0 then 32 else c) (argument_block args) = spaced args @ [32]"
  by (induction args rule: spaced.induct) (simp_all add: argument_block_def map_no_nul)

lemma from_utf8_lossy_encode: "valid_str s \<Longrightarrow> from_utf8_lossy (encode_utf8 s) = s"
  by (simp add: from_utf8_lossy_def utf8_chunks_encode comp_def)

text \<open>The command line shown for a block of NUL-terminated arguments is the arguments with single
  spaces between them, without outer white space: whole when it has at most 256 characters, else its
  first 256 and an ellipsis; the full length is that of the untruncated text in bytes.\<close>

theorem build_cmdline_shows_arguments:
  assumes "\<forall>a\<in>set args. valid_str a \<and> 0 \<notin> set a" "args \<noteq> []"
  shows "build_cmdline (encode_utf8 (argument_block args)) =
    (let shown = trim (spaced args) in
     \<lparr>cl_short = (if length shown \<le> 256 then shown else take 256 shown @ [8230]), cl_full_len = byte_len shown\<rparr>)"
proof -
  have "valid_str (argument_block args)"
    using assms(1) by (auto simp: argument_block_def valid_str_def scalar_def)
  then have "trim (map (\<lambda>c. if c = 0 then 32 else c) (from_utf8_lossy (encode_utf8 (argument_block args)))) = trim (spaced args)"
    using spaced_block [of args] assms by (simp add: from_utf8_lossy_encode trim_snoc_ws)
  then show ?thesis
    by (auto simp: build_cmdline_def Let_def cmdline_short_max_def)
qed

theorem build_cmdline_shows_arguments_witness:
  "build_cmdline (encode_utf8 (argument_block [asc ''sh'', asc ''-c'', asc ''ls''])) =
     \<lparr>cl_short = asc ''sh -c ls'', cl_full_len = 8\<rparr>"
proof -
  have "\<forall>a\<in>set [asc ''sh'', asc ''-c'', asc ''ls'']. valid_str a \<and> 0 \<notin> set a" by code_simp
  moreover have "trim (spaced [asc ''sh'', asc ''-c'', asc ''ls'']) = asc ''sh -c ls''"
    "length (asc ''sh -c ls'') = 8" "byte_len (asc ''sh -c ls'') = 8" by code_simp+
  ultimately show ?thesis using build_cmdline_shows_arguments [of "[asc ''sh'', asc ''-c'', asc ''ls'']"]
    by (simp del: asc_simps)
qed

end
