(* ===== verification/Interfaces.thy ===== *)
theory Interfaces
  imports Fovea_Prelude
begin

text \<open>
  The contracts that several components share: a latch (a condition no step can undo), a bounded
  first-in first-out channel, and an append-only numbered log. Each is interpreted on the code's
  own definitions by the component that provides it. The bounded channel of the standard library
  (\<open>mpsc::sync_channel\<close>, seen through \<open>try_send\<close> and \<open>try_recv\<close>) is here because the symbolizer
  worker and the mock transport both use one.
\<close>

section \<open>Latches\<close>

locale latch =
  fixes closed :: "'s \<Rightarrow> bool" and step :: "'s \<Rightarrow> 's \<Rightarrow> bool"
  assumes step_closed: "step s t \<Longrightarrow> closed s \<Longrightarrow> closed t"
begin

lemma run_closed: "step\<^sup>*\<^sup>* s t \<Longrightarrow> closed s \<Longrightarrow> closed t"
  by (induction rule: rtranclp_induct) (auto dest: step_closed)

lemma open_before: "step\<^sup>*\<^sup>* s t \<Longrightarrow> \<not> closed t \<Longrightarrow> \<not> closed s"
  using run_closed by blast

end

section \<open>Bounded channels\<close>

datatype 'a channel_op = Send 'a | Receive

locale bounded_channel =
  fixes send :: "'q \<Rightarrow> 'a \<Rightarrow> 'q option"
    and receive :: "'q \<Rightarrow> ('a \<times> 'q) option"
    and contents :: "'q \<Rightarrow> 'a list"
    and capacity :: nat
  assumes send_Some: "send q x = Some q' \<Longrightarrow> contents q' = contents q @ [x] \<and> length (contents q) < capacity"
    and send_None: "send q x = None \<Longrightarrow> capacity \<le> length (contents q)"
    and receive_Some: "receive q = Some (x, q') \<Longrightarrow> contents q = x # contents q'"
    and receive_None: "receive q = None \<Longrightarrow> contents q = []"
begin

text \<open>A run of operations: the messages accepted and received, and the channel after it.\<close>

fun run :: "'q \<Rightarrow> 'a channel_op list \<Rightarrow> 'a list \<times> 'a list \<times> 'q" where
  "run q [] = ([], [], q)"
| "run q (Send x # ops) =
     (case send q x of
        None \<Rightarrow> run q ops
      | Some q' \<Rightarrow> (case run q' ops of (acc, rcv, r) \<Rightarrow> (x # acc, rcv, r)))"
| "run q (Receive # ops) =
     (case receive q of
        None \<Rightarrow> run q ops
      | Some (x, q') \<Rightarrow> (case run q' ops of (acc, rcv, r) \<Rightarrow> (acc, x # rcv, r)))"

lemma run_fifo: "run q ops = (acc, rcv, r) \<Longrightarrow> contents q @ acc = rcv @ contents r"
proof (induction q ops arbitrary: acc rcv rule: run.induct)
  case (2 q x ops)
  show ?case
  proof (cases "send q x")
    case (Some q')
    with send_Some [OF Some] 2(2) [OF Some] 2(3-) show ?thesis by (fastforce split: prod.splits)
  qed (use 2 in simp)
next
  case (3 q ops)
  then show ?case by (auto split: option.splits prod.splits dest!: receive_Some)
qed simp

lemma run_bounded:
  "run q ops = (acc, rcv, r) \<Longrightarrow> length (contents q) \<le> capacity \<Longrightarrow> length (contents r) \<le> capacity"
proof (induction q ops arbitrary: acc rcv rule: run.induct)
  case (2 q x ops)
  show ?case
  proof (cases "send q x")
    case (Some q')
    with send_Some [OF Some] 2(2) [OF Some] 2(3-) show ?thesis by (fastforce split: prod.splits)
  qed (use 2 in simp)
next
  case (3 q ops)
  then show ?case by (auto split: option.splits prod.splits dest!: receive_Some)
qed simp

end

definition try_send :: "nat \<Rightarrow> 'a list \<Rightarrow> 'a \<Rightarrow> 'a list option" where
  "try_send cap q x = (if length q < cap then Some (q @ [x]) else None)"

definition try_recv :: "'a list \<Rightarrow> ('a \<times> 'a list) option" where
  "try_recv q = (case q of [] \<Rightarrow> None | x # r \<Rightarrow> Some (x, r))"

interpretation sync_channel: bounded_channel "try_send cap" try_recv "\<lambda>q. q" cap
  for cap
  by unfold_locales (auto simp: try_send_def try_recv_def split: if_splits list.splits)

section \<open>Numbered logs\<close>

text \<open>A log whose appends answer with the number of the new record: the first record is number 1
  and no append changes what is recorded.\<close>

locale numbered_log =
  fixes append :: "'l \<Rightarrow> 'a \<Rightarrow> ('e + nat) \<times> 'l" and records :: "'l \<Rightarrow> 'a list" and numbers :: "'l \<Rightarrow> nat list"
  assumes append_Inr: "append l x = (Inr n, l') \<Longrightarrow> records l' = records l @ [x] \<and> numbers l' = numbers l @ [n]
      \<and> n = Suc (length (numbers l))"
    and append_Inl: "append l x = (Inl e, l') \<Longrightarrow> l' = l"
begin

fun append_all :: "'l \<Rightarrow> 'a list \<Rightarrow> 'l" where
  "append_all l [] = l"
| "append_all l (x # xs) = append_all (snd (append l x)) xs"

lemma append_all_prefix: "\<exists>ys. records (append_all l xs) = records l @ ys"
proof (induction xs arbitrary: l)
  case (Cons x xs)
  obtain r l' where a: "append l x = (r, l')" by fastforce
  from Cons [of l'] obtain ys where ys: "records (append_all l' xs) = records l' @ ys" by blast
  show ?case
  proof (cases r)
    case (Inl e)
    with a append_Inl [of l x e l'] have "l' = l" by simp
    with a ys show ?thesis by auto
  next
    case (Inr n)
    with append_Inr a ys show ?thesis by auto
  qed
qed simp

lemma append_all_numbers:
  "numbers l = [1..<Suc (length (numbers l))] \<Longrightarrow>
     numbers (append_all l xs) = [1..<Suc (length (numbers (append_all l xs)))]"
proof (induction xs arbitrary: l)
  case (Cons x xs)
  obtain r l' where a: "append l x = (r, l')" by fastforce
  have "numbers l' = [1..<Suc (length (numbers l'))]"
  proof (cases r)
    case (Inl e)
    with a append_Inl [of l x e l'] have "l' = l" by simp
    with Cons.prems show ?thesis by simp
  next
    case (Inr n)
    with append_Inr [of l x n l'] a have n: "numbers l' = numbers l @ [Suc (length (numbers l))]" by simp
    define k where "k = length (numbers l)"
    have "numbers l = [1..<Suc k]" unfolding k_def by (rule Cons.prems)
    moreover from n have "numbers l' = numbers l @ [Suc k]" by (simp only: k_def)
    ultimately have nums: "numbers l' = [1..<Suc (Suc k)]" by (simp del: upt_Suc add: upt_Suc_append)
    show ?thesis by (subst nums) (simp only: nums length_upt diff_Suc_1)
  qed
  from Cons.IH [OF this] show ?case by (simp only: append_all.simps a snd_conv)
qed simp

end

end
