(* ===== verification/Worker.thy ===== *)
theory Worker
  imports Symbolizer Interfaces
begin

text \<open>
  The symbolizer worker of \<open>symbolize.rs\<close>: the lifecycle behind its mutex, the worker thread as a
  program counter that makes one locked or channel action per step, the client calls and the
  handle, interleaved freely by \<open>sys_step\<close>. The backend is a parameter: its answer to the n-th
  call, \<open>None\<close> for a panic. Time is not modelled: a timeout may strike whenever no answer is there.
  The request queue is the bounded channel of \<open>Interfaces\<close> (a capacity of at least 1; with
  capacity 0 the standard library hands over only to a waiting receiver).
\<close>

section \<open>The lifecycle\<close>

datatype worker_state = Running | Executing | ShutdownRequested | Stopped | Panicked

definition terminal_error :: "worker_state \<Rightarrow> symbolize_error option" where
  "terminal_error st =
     (case st of
        Running \<Rightarrow> None
      | Executing \<Rightarrow> None
      | ShutdownRequested \<Rightarrow> Some WorkerStopped
      | Stopped \<Rightarrow> Some WorkerStopped
      | Panicked \<Rightarrow> Some WorkerPanic)"

text \<open>\<open>None\<close> is the \<open>unreachable!\<close> branch.\<close>

definition begin_request :: "worker_state \<Rightarrow> ((symbolize_error + unit) \<times> worker_state) option" where
  "begin_request st =
     (case st of
        Running \<Rightarrow> Some (Inr (), Executing)
      | ShutdownRequested \<Rightarrow> Some (Inl WorkerStopped, st)
      | Stopped \<Rightarrow> Some (Inl WorkerStopped, st)
      | Panicked \<Rightarrow> Some (Inl WorkerPanic, st)
      | Executing \<Rightarrow> None)"

definition finish_request :: "worker_state \<Rightarrow> (bool \<times> worker_state) option" where
  "finish_request st =
     (case st of
        Executing \<Rightarrow> Some (False, Running)
      | ShutdownRequested \<Rightarrow> Some (True, st)
      | Stopped \<Rightarrow> Some (True, st)
      | Panicked \<Rightarrow> Some (True, st)
      | Running \<Rightarrow> None)"

definition request_shutdown :: "worker_state \<Rightarrow> bool \<times> worker_state" where
  "request_shutdown st =
     (if st = Running \<or> st = Executing then (True, ShutdownRequested) else (False, st))"

definition is_shutdown_requested :: "worker_state \<Rightarrow> bool" where
  "is_shutdown_requested st \<longleftrightarrow> st = ShutdownRequested \<or> st = Stopped"

definition mark_stopped :: "worker_state \<Rightarrow> worker_state" where
  "mark_stopped st = (if st \<noteq> Panicked then Stopped else st)"

definition mark_panicked :: "worker_state \<Rightarrow> worker_state" where
  "mark_panicked st = Panicked"

text \<open>The error of a client whose channel is closed.\<close>

definition disconnected_error :: "worker_state \<Rightarrow> symbolize_error" where
  "disconnected_error st = (case terminal_error st of None \<Rightarrow> WorkerStopped | Some e \<Rightarrow> e)"

section \<open>The system\<close>

record request =
  rq_id :: nat
  rq_addr :: u64

text \<open>Where the worker thread is. \<open>Rejecting e u\<close> drains the queue with the error \<open>e\<close> and then
  unwinds (\<open>u\<close>) or stops; \<open>Leaving\<close> is the end of the thread before its receiver is dropped.\<close>

datatype worker_pc =
    Polling
  | Checking
  | Receiving
  | Beginning request
  | Refusing request symbolize_error
  | Calling request
  | Replying request sym_result
  | Finishing
  | Panicking request
  | PanicReplying request
  | Rejecting symbolize_error bool
  | Stopping
  | Leaving bool
  | Exited bool
  | Unreachable

datatype call = Starting u64 | Checked u64 | Waiting u64 | Returned u64 sym_result

datatype handle_pc =
    Holding | Requested bool | Signalled bool | Joined "symbolize_error + unit" | Dropping | Dropped

record worker_sys =
  wk_state :: worker_state
  wk_pc :: worker_pc
  wk_queue :: "request list"
  wk_served :: nat
  wk_calls :: "call list"
  wk_replies :: "nat \<Rightarrow> sym_result option"
  wk_clients :: bool
  wk_handle :: handle_pc

definition initial_sys :: worker_sys where
  "initial_sys = \<lparr>wk_state = Running, wk_pc = Polling, wk_queue = [], wk_served = 0, wk_calls = [],
     wk_replies = (\<lambda>_. None), wk_clients = True, wk_handle = Holding\<rparr>"

definition shutdown_signalled :: "handle_pc \<Rightarrow> bool" where
  "shutdown_signalled h = (case h of Holding \<Rightarrow> False | Requested b \<Rightarrow> False | Dropping \<Rightarrow> False | _ \<Rightarrow> True)"

text \<open>The answer put into the request's own one-place channel.\<close>

definition reply :: "request \<Rightarrow> sym_result \<Rightarrow> worker_sys \<Rightarrow> worker_sys" where
  "reply r res s = s\<lparr>wk_replies := (wk_replies s)(rq_id r := Some res)\<rparr>"

section \<open>The worker thread\<close>

type_synonym backend = "nat \<Rightarrow> u64 \<Rightarrow> sym_result option"

definition receive_step :: "worker_sys \<Rightarrow> worker_sys" where
  "receive_step s =
     (case try_recv (wk_queue s) of
        Some (r, q) \<Rightarrow> s\<lparr>wk_queue := q, wk_pc := Beginning r\<rparr>
      | None \<Rightarrow> s\<lparr>wk_pc := (if wk_clients s then Polling else Stopping)\<rparr>)"

definition begin_step :: "request \<Rightarrow> worker_sys \<Rightarrow> worker_sys" where
  "begin_step r s =
     (case begin_request (wk_state s) of
        None \<Rightarrow> s\<lparr>wk_pc := Unreachable\<rparr>
      | Some (Inr u, st) \<Rightarrow> s\<lparr>wk_state := st, wk_pc := Calling r\<rparr>
      | Some (Inl e, st) \<Rightarrow> s\<lparr>wk_state := st, wk_pc := Refusing r e\<rparr>)"

definition call_step :: "backend \<Rightarrow> request \<Rightarrow> worker_sys \<Rightarrow> worker_sys" where
  "call_step backend r s =
     (case backend (wk_served s) (rq_addr r) of
        None \<Rightarrow> s\<lparr>wk_served := Suc (wk_served s), wk_pc := Panicking r\<rparr>
      | Some res \<Rightarrow> s\<lparr>wk_served := Suc (wk_served s), wk_pc := Replying r res\<rparr>)"

definition finish_step :: "worker_sys \<Rightarrow> worker_sys" where
  "finish_step s =
     (case finish_request (wk_state s) of
        None \<Rightarrow> s\<lparr>wk_pc := Unreachable\<rparr>
      | Some (stop, st) \<Rightarrow> s\<lparr>wk_state := st, wk_pc := (if stop then Rejecting WorkerStopped False else Polling)\<rparr>)"

definition reject_step :: "symbolize_error \<Rightarrow> bool \<Rightarrow> worker_sys \<Rightarrow> worker_sys" where
  "reject_step e unwinds s =
     (case try_recv (wk_queue s) of
        Some (r, q) \<Rightarrow> reply r (Inl e) (s\<lparr>wk_queue := q\<rparr>)
      | None \<Rightarrow> s\<lparr>wk_pc := (if unwinds then Leaving True else Stopping)\<rparr>)"

definition worker_step :: "backend \<Rightarrow> worker_sys \<Rightarrow> worker_sys" where
  "worker_step backend s =
     (case wk_pc s of
        Polling \<Rightarrow>
          s\<lparr>wk_state := (if shutdown_signalled (wk_handle s) then snd (request_shutdown (wk_state s)) else wk_state s),
            wk_pc := Checking\<rparr>
      | Checking \<Rightarrow>
          s\<lparr>wk_pc := (if is_shutdown_requested (wk_state s) then Rejecting WorkerStopped False else Receiving)\<rparr>
      | Receiving \<Rightarrow> receive_step s
      | Beginning r \<Rightarrow> begin_step r s
      | Refusing r e \<Rightarrow> reply r (Inl e) (s\<lparr>wk_pc := Rejecting e False\<rparr>)
      | Calling r \<Rightarrow> call_step backend r s
      | Replying r res \<Rightarrow> reply r res (s\<lparr>wk_pc := Finishing\<rparr>)
      | Finishing \<Rightarrow> finish_step s
      | Panicking r \<Rightarrow> s\<lparr>wk_state := mark_panicked (wk_state s), wk_pc := PanicReplying r\<rparr>
      | PanicReplying r \<Rightarrow> reply r (Inl WorkerPanic) (s\<lparr>wk_pc := Rejecting WorkerPanic True\<rparr>)
      | Rejecting e unwinds \<Rightarrow> reject_step e unwinds s
      | Stopping \<Rightarrow> s\<lparr>wk_state := mark_stopped (wk_state s), wk_pc := Leaving False\<rparr>
      | Leaving unwinds \<Rightarrow> s\<lparr>wk_pc := Exited unwinds, wk_queue := []\<rparr>
      | Exited unwinds \<Rightarrow> s
      | Unreachable \<Rightarrow> s)"

section \<open>Client calls\<close>

definition exited :: "worker_sys \<Rightarrow> bool" where
  "exited s = (case wk_pc s of Exited b \<Rightarrow> True | _ \<Rightarrow> False)"

definition held :: "worker_pc \<Rightarrow> request list" where
  "held pc = (case pc of Beginning r \<Rightarrow> [r] | Refusing r e \<Rightarrow> [r] | Calling r \<Rightarrow> [r] | Replying r res \<Rightarrow> [r]
     | Panicking r \<Rightarrow> [r] | PanicReplying r \<Rightarrow> [r] | _ \<Rightarrow> [])"

text \<open>The requests whose reply sender is alive.\<close>

definition pending :: "worker_sys \<Rightarrow> request list" where
  "pending s = held (wk_pc s) @ wk_queue s"

definition set_call :: "nat \<Rightarrow> call \<Rightarrow> worker_sys \<Rightarrow> worker_sys" where
  "set_call i c s = s\<lparr>wk_calls := (wk_calls s)[i := c]\<rparr>"

definition call_at :: "worker_sys \<Rightarrow> nat \<Rightarrow> call option" where
  "call_at s i = (if i < length (wk_calls s) then Some (wk_calls s ! i) else None)"

definition call_start :: "u64 \<Rightarrow> worker_sys \<Rightarrow> worker_sys option" where
  "call_start addr s = (if wk_clients s then Some (s\<lparr>wk_calls := wk_calls s @ [Starting addr]\<rparr>) else None)"

definition call_check :: "nat \<Rightarrow> worker_sys \<Rightarrow> worker_sys option" where
  "call_check i s =
     (case call_at s i of
        Some (Starting a) \<Rightarrow> Some (set_call i
          (case terminal_error (wk_state s) of None \<Rightarrow> Checked a | Some e \<Rightarrow> Returned a (Inl e)) s)
      | _ \<Rightarrow> None)"

definition call_send :: "nat \<Rightarrow> nat \<Rightarrow> worker_sys \<Rightarrow> worker_sys option" where
  "call_send capacity i s =
     (case call_at s i of
        Some (Checked a) \<Rightarrow>
          if exited s then Some (set_call i (Returned a (Inl (disconnected_error (wk_state s)))) s)
          else (case try_send capacity (wk_queue s) \<lparr>rq_id = i, rq_addr = a\<rparr> of
              None \<Rightarrow> Some (set_call i (Returned a (Inl QueueFull)) s)
            | Some q \<Rightarrow> Some (set_call i (Waiting a) (s\<lparr>wk_queue := q\<rparr>)))
      | _ \<Rightarrow> None)"

definition call_receive :: "nat \<Rightarrow> worker_sys \<Rightarrow> worker_sys option" where
  "call_receive i s =
     (case (call_at s i, wk_replies s i) of
        (Some (Waiting a), Some res) \<Rightarrow> Some (set_call i (Returned a res) s)
      | _ \<Rightarrow> None)"

definition call_timeout :: "nat \<Rightarrow> worker_sys \<Rightarrow> worker_sys option" where
  "call_timeout i s =
     (case (call_at s i, wk_replies s i) of
        (Some (Waiting a), None) \<Rightarrow> Some (set_call i (Returned a (Inl Timeout)) s)
      | _ \<Rightarrow> None)"

definition call_disconnected :: "nat \<Rightarrow> worker_sys \<Rightarrow> worker_sys option" where
  "call_disconnected i s =
     (case (call_at s i, wk_replies s i) of
        (Some (Waiting a), None) \<Rightarrow>
          if i \<in> rq_id ` set (pending s) then None
          else Some (set_call i (Returned a (Inl (disconnected_error (wk_state s)))) s)
      | _ \<Rightarrow> None)"

definition is_returned :: "call \<Rightarrow> bool" where
  "is_returned c = (case c of Returned a res \<Rightarrow> True | _ \<Rightarrow> False)"

definition drop_clients :: "worker_sys \<Rightarrow> worker_sys option" where
  "drop_clients s = (if wk_clients s \<and> list_all is_returned (wk_calls s) then Some (s\<lparr>wk_clients := False\<rparr>) else None)"

section \<open>The handle\<close>

definition handle_request :: "worker_sys \<Rightarrow> worker_sys option" where
  "handle_request s =
     (case (wk_handle s, request_shutdown (wk_state s)) of
        (Holding, (b, st)) \<Rightarrow> Some (s\<lparr>wk_state := st, wk_handle := Requested b\<rparr>)
      | _ \<Rightarrow> None)"

definition handle_signal :: "worker_sys \<Rightarrow> worker_sys option" where
  "handle_signal s =
     (case wk_handle s of
        Requested b \<Rightarrow> Some (s\<lparr>wk_handle := Signalled b\<rparr>)
      | Dropping \<Rightarrow> Some (s\<lparr>wk_handle := Dropped\<rparr>)
      | _ \<Rightarrow> None)"

definition join_result :: "bool \<Rightarrow> bool \<Rightarrow> symbolize_error + unit" where
  "join_result shutdown_requested unwound =
     (if unwound then Inl WorkerPanic else if shutdown_requested then Inr () else Inl WorkerStopped)"

definition handle_join :: "worker_sys \<Rightarrow> worker_sys option" where
  "handle_join s =
     (case (wk_handle s, wk_pc s) of
        (Signalled b, Exited unwound) \<Rightarrow> Some (s\<lparr>wk_handle := Joined (join_result b unwound)\<rparr>)
      | _ \<Rightarrow> None)"

definition handle_give_up :: "worker_sys \<Rightarrow> worker_sys option" where
  "handle_give_up s =
     (case wk_handle s of
        Signalled b \<Rightarrow> if exited s then None else Some (s\<lparr>wk_handle := Joined (Inl ShutdownTimeout)\<rparr>)
      | _ \<Rightarrow> None)"

definition handle_drop :: "worker_sys \<Rightarrow> worker_sys option" where
  "handle_drop s =
     (case wk_handle s of
        Holding \<Rightarrow> Some (s\<lparr>wk_state := snd (request_shutdown (wk_state s)), wk_handle := Dropping\<rparr>)
      | _ \<Rightarrow> None)"

section \<open>Interleavings\<close>

inductive sys_step :: "nat \<Rightarrow> backend \<Rightarrow> worker_sys \<Rightarrow> worker_sys \<Rightarrow> bool" for capacity backend where
  worker: "sys_step capacity backend s (worker_step backend s)"
| start: "call_start addr s = Some s' \<Longrightarrow> sys_step capacity backend s s'"
| check: "call_check i s = Some s' \<Longrightarrow> sys_step capacity backend s s'"
| send: "call_send capacity i s = Some s' \<Longrightarrow> sys_step capacity backend s s'"
| receive: "call_receive i s = Some s' \<Longrightarrow> sys_step capacity backend s s'"
| timeout: "call_timeout i s = Some s' \<Longrightarrow> sys_step capacity backend s s'"
| disconnected: "call_disconnected i s = Some s' \<Longrightarrow> sys_step capacity backend s s'"
| clients_dropped: "drop_clients s = Some s' \<Longrightarrow> sys_step capacity backend s s'"
| shutdown: "handle_request s = Some s' \<Longrightarrow> sys_step capacity backend s s'"
| signal: "handle_signal s = Some s' \<Longrightarrow> sys_step capacity backend s s'"
| join: "handle_join s = Some s' \<Longrightarrow> sys_step capacity backend s s'"
| give_up: "handle_give_up s = Some s' \<Longrightarrow> sys_step capacity backend s s'"
| handle_dropped: "handle_drop s = Some s' \<Longrightarrow> sys_step capacity backend s s'"

definition reachable :: "nat \<Rightarrow> backend \<Rightarrow> worker_sys \<Rightarrow> bool" where
  "reachable capacity backend s \<longleftrightarrow> (sys_step capacity backend)\<^sup>*\<^sup>* initial_sys s"

text \<open>The same interleavings as schedules that can be run.\<close>

datatype action =
    ActWorker | ActStart u64 | ActCheck nat | ActSend nat | ActReceive nat | ActTimeout nat
  | ActDisconnected nat | ActDropClients | ActShutdown | ActSignal | ActJoin | ActGiveUp | ActDropHandle

fun perform :: "nat \<Rightarrow> backend \<Rightarrow> action \<Rightarrow> worker_sys \<Rightarrow> worker_sys option" where
  "perform capacity backend ActWorker s = Some (worker_step backend s)"
| "perform capacity backend (ActStart addr) s = call_start addr s"
| "perform capacity backend (ActCheck i) s = call_check i s"
| "perform capacity backend (ActSend i) s = call_send capacity i s"
| "perform capacity backend (ActReceive i) s = call_receive i s"
| "perform capacity backend (ActTimeout i) s = call_timeout i s"
| "perform capacity backend (ActDisconnected i) s = call_disconnected i s"
| "perform capacity backend ActDropClients s = drop_clients s"
| "perform capacity backend ActShutdown s = handle_request s"
| "perform capacity backend ActSignal s = handle_signal s"
| "perform capacity backend ActJoin s = handle_join s"
| "perform capacity backend ActGiveUp s = handle_give_up s"
| "perform capacity backend ActDropHandle s = handle_drop s"

fun schedule :: "nat \<Rightarrow> backend \<Rightarrow> action list \<Rightarrow> worker_sys \<Rightarrow> worker_sys option" where
  "schedule capacity backend [] s = Some s"
| "schedule capacity backend (a # as) s =
     (case perform capacity backend a s of None \<Rightarrow> None | Some s' \<Rightarrow> schedule capacity backend as s')"

lemma perform_sys_step: "perform capacity backend a s = Some s' \<Longrightarrow> sys_step capacity backend s s'"
  by (cases a) (auto intro: sys_step.intros)

lemma schedule_reachable:
  "schedule capacity backend as s = Some s' \<Longrightarrow> reachable capacity backend s \<Longrightarrow> reachable capacity backend s'"
proof (induction as arbitrary: s)
  case (Cons a as)
  then obtain t where t: "perform capacity backend a s = Some t" "schedule capacity backend as t = Some s'"
    by (auto split: option.splits)
  from perform_sys_step [OF t(1)] Cons.prems(2) have "reachable capacity backend t"
    by (simp add: reachable_def)
  with Cons.IH t(2) show ?case by blast
qed simp

lemma schedule_initial: "schedule capacity backend as initial_sys = Some s \<Longrightarrow> reachable capacity backend s"
  by (erule schedule_reachable) (simp add: reachable_def)

section \<open>Spawning\<close>

datatype factory_outcome = FactoryOk | FactoryErr symbolize_error | FactoryPanic

definition spawn_worker :: "str + unit \<Rightarrow> factory_outcome \<Rightarrow> symbolize_error + worker_sys" where
  "spawn_worker thread_spawn factory =
     rbind (map_err Backend thread_spawn) (\<lambda>_.
     case factory of
       FactoryOk \<Rightarrow> Inr initial_sys
     | FactoryErr e \<Rightarrow> Inl e
     | FactoryPanic \<Rightarrow> Inl WorkerPanic)"

lemmas lifecycle_defs = terminal_error_def begin_request_def finish_request_def request_shutdown_def
  is_shutdown_requested_def mark_stopped_def mark_panicked_def disconnected_error_def

lemmas worker_defs = worker_step_def receive_step_def begin_step_def call_step_def finish_step_def
  reject_step_def reply_def

lemmas call_defs = call_start_def call_check_def call_send_def call_receive_def call_timeout_def
  call_disconnected_def drop_clients_def set_call_def call_at_def

lemmas handle_defs = handle_request_def handle_signal_def handle_join_def handle_give_up_def
  handle_drop_def join_result_def

end
