(* ===== verification/Worker_Facts.thy ===== *)
theory Worker_Facts
  imports Worker "HOL-Library.Multiset"
begin

text \<open>
  Invariants of the symbolizer worker over every interleaving: the \<open>unreachable!\<close> branches are not
  reached, requests are bounded, kept in one place and answered once with an answer of the backend
  or an error, no call is lost, and shutdown is final and ends the thread.
\<close>

section \<open>Program counter and lifecycle\<close>

definition pc_ok :: "worker_pc \<Rightarrow> worker_state \<Rightarrow> bool" where
  "pc_ok pc st \<longleftrightarrow>
     (case pc of
        Refusing r e \<Rightarrow> st = ShutdownRequested \<and> e = WorkerStopped
      | Calling r \<Rightarrow> st \<in> {Executing, ShutdownRequested}
      | Replying r res \<Rightarrow> st \<in> {Executing, ShutdownRequested}
      | Finishing \<Rightarrow> st \<in> {Executing, ShutdownRequested}
      | Panicking r \<Rightarrow> st \<in> {Executing, ShutdownRequested}
      | PanicReplying r \<Rightarrow> st = Panicked
      | Rejecting e unwinds \<Rightarrow>
          if unwinds then st = Panicked \<and> e = WorkerPanic else st = ShutdownRequested \<and> e = WorkerStopped
      | Leaving unwinds \<Rightarrow> st = (if unwinds then Panicked else Stopped)
      | Exited unwinds \<Rightarrow> st = (if unwinds then Panicked else Stopped)
      | Unreachable \<Rightarrow> False
      | _ \<Rightarrow> st \<in> {Running, ShutdownRequested})"

definition inv_pc :: "worker_sys \<Rightarrow> bool" where
  "inv_pc s \<longleftrightarrow> pc_ok (wk_pc s) (wk_state s)"

lemma pc_ok_shutdown: "pc_ok pc st \<Longrightarrow> pc_ok pc (snd (request_shutdown st))"
  by (cases pc) (auto simp: pc_ok_def request_shutdown_def)

lemma inv_pc_worker: "inv_pc s \<Longrightarrow> inv_pc (worker_step backend s)"
  by (cases "wk_pc s")
    (auto simp: inv_pc_def pc_ok_def worker_defs lifecycle_defs split: option.splits)

text \<open>What client and handle steps leave alone.\<close>

definition untouched :: "worker_sys \<Rightarrow> worker_sys \<Rightarrow> bool" where
  "untouched s s' \<longleftrightarrow> wk_pc s' = wk_pc s \<and> wk_served s' = wk_served s \<and> wk_replies s' = wk_replies s"

lemma calls_keep:
  "call_start a s = Some s' \<Longrightarrow> untouched s s' \<and> wk_state s' = wk_state s"
  "call_check i s = Some s' \<Longrightarrow> untouched s s' \<and> wk_state s' = wk_state s"
  "call_send n i s = Some s' \<Longrightarrow> untouched s s' \<and> wk_state s' = wk_state s"
  "call_receive i s = Some s' \<Longrightarrow> untouched s s' \<and> wk_state s' = wk_state s"
  "call_timeout i s = Some s' \<Longrightarrow> untouched s s' \<and> wk_state s' = wk_state s"
  "call_disconnected i s = Some s' \<Longrightarrow> untouched s s' \<and> wk_state s' = wk_state s"
  "drop_clients s = Some s' \<Longrightarrow> untouched s s' \<and> wk_state s' = wk_state s"
  by (auto simp: call_defs untouched_def split: if_splits option.splits call.splits)

lemma handle_keep:
  "handle_signal s = Some s' \<Longrightarrow> untouched s s' \<and> wk_state s' = wk_state s"
  "handle_join s = Some s' \<Longrightarrow> untouched s s' \<and> wk_state s' = wk_state s"
  "handle_give_up s = Some s' \<Longrightarrow> untouched s s' \<and> wk_state s' = wk_state s"
  "handle_request s = Some s' \<Longrightarrow> untouched s s' \<and> wk_state s' = snd (request_shutdown (wk_state s))"
  "handle_drop s = Some s' \<Longrightarrow> untouched s s' \<and> wk_state s' = snd (request_shutdown (wk_state s))"
  by (auto simp: handle_defs untouched_def split: if_splits handle_pc.splits worker_pc.splits prod.splits)

text \<open>Every step is a step of the worker, or keeps its counter and moves the lifecycle at most by a
  shutdown request.\<close>

lemma sys_step_cases:
  assumes "sys_step capacity backend s s'"
  obtains (worker) "s' = worker_step backend s"
    | (other) "untouched s s'" "wk_state s' = wk_state s \<or> wk_state s' = snd (request_shutdown (wk_state s))"
  using assms
  by (cases rule: sys_step.cases)
    (auto dest!: calls_keep handle_keep)

lemma inv_pc_step: "sys_step capacity backend s s' \<Longrightarrow> inv_pc s \<Longrightarrow> inv_pc s'"
  by (erule sys_step_cases) (auto simp: inv_pc_def untouched_def pc_ok_shutdown dest: inv_pc_worker [unfolded inv_pc_def])

lemma reachable_induct [consumes 1, case_names init step]:
  assumes "reachable capacity backend s" "P initial_sys"
    and "\<And>s s'. reachable capacity backend s \<Longrightarrow> P s \<Longrightarrow> sys_step capacity backend s s' \<Longrightarrow> P s'"
  shows "P s"
  using assms(1) unfolding reachable_def
  by (induction rule: rtranclp_induct) (use assms(2,3) in \<open>auto simp: reachable_def\<close>)

lemma reachable_inv_pc: "reachable capacity backend s \<Longrightarrow> inv_pc s"
proof (induction rule: reachable_induct)
  case init
  show ?case by (simp add: inv_pc_def pc_ok_def initial_sys_def)
qed (rule inv_pc_step)


section \<open>Requests\<close>

definition submitted :: "call \<Rightarrow> bool" where
  "submitted c = (case c of Waiting a \<Rightarrow> True | Returned a res \<Rightarrow> True | _ \<Rightarrow> False)"

definition call_addr :: "call \<Rightarrow> u64" where
  "call_addr c = (case c of Starting a \<Rightarrow> a | Checked a \<Rightarrow> a | Waiting a \<Rightarrow> a | Returned a res \<Rightarrow> a)"

lemma call_simps [simp]:
  "submitted (Waiting a)" "submitted (Returned a res)" "\<not> submitted (Starting a)" "\<not> submitted (Checked a)"
  "call_addr (Waiting a) = a" "call_addr (Returned a res) = a" "call_addr (Starting a) = a" "call_addr (Checked a) = a"
  by (simp_all add: submitted_def call_addr_def)

text \<open>A request stands for a call that was submitted for its address and is not answered.\<close>

definition waits :: "worker_sys \<Rightarrow> request \<Rightarrow> bool" where
  "waits s r \<longleftrightarrow> (\<exists>c. call_at s (rq_id r) = Some c \<and> submitted c \<and> call_addr c = rq_addr r) \<and> wk_replies s (rq_id r) = None"

definition inv_req :: "nat \<Rightarrow> worker_sys \<Rightarrow> bool" where
  "inv_req capacity s \<longleftrightarrow> length (wk_queue s) \<le> capacity \<and> distinct (map rq_id (pending s)) \<and>
     (\<forall>r\<in>set (pending s). waits s r)"

definition inv_replies :: "worker_sys \<Rightarrow> bool" where
  "inv_replies s \<longleftrightarrow> (\<forall>i. wk_replies s i \<noteq> None \<longrightarrow> (\<exists>c. call_at s i = Some c \<and> submitted c))"

definition waiting :: "worker_sys \<Rightarrow> nat \<Rightarrow> bool" where
  "waiting s i \<longleftrightarrow> (\<exists>a. call_at s i = Some (Waiting a)) \<and> wk_replies s i = None"

definition inv_lost :: "worker_sys \<Rightarrow> bool" where
  "inv_lost s \<longleftrightarrow> (\<forall>i. waiting s i \<longrightarrow> exited s \<or> i \<in> rq_id ` set (pending s))"

lemma pending_simps [simp]:
  "pending (s\<lparr>wk_state := st\<rparr>) = pending s" "pending (s\<lparr>wk_calls := cs\<rparr>) = pending s"
  "pending (s\<lparr>wk_clients := b\<rparr>) = pending s" "pending (s\<lparr>wk_handle := h\<rparr>) = pending s"
  "pending (s\<lparr>wk_served := n\<rparr>) = pending s" "pending (s\<lparr>wk_replies := f\<rparr>) = pending s"
  "pending (s\<lparr>wk_queue := q\<rparr>) = held (wk_pc s) @ q" "pending (s\<lparr>wk_pc := pc\<rparr>) = held pc @ wk_queue s"
  by (simp_all add: pending_def)

lemma call_at_simps [simp]:
  "call_at (s\<lparr>wk_state := st\<rparr>) i = call_at s i" "call_at (s\<lparr>wk_queue := q\<rparr>) i = call_at s i"
  "call_at (s\<lparr>wk_clients := b\<rparr>) i = call_at s i" "call_at (s\<lparr>wk_handle := h\<rparr>) i = call_at s i"
  "call_at (s\<lparr>wk_served := n\<rparr>) i = call_at s i" "call_at (s\<lparr>wk_replies := f\<rparr>) i = call_at s i"
  "call_at (s\<lparr>wk_pc := pc\<rparr>) i = call_at s i"
  by (simp_all add: call_at_def)

lemma held_simps [simp]:
  "held (Beginning r) = [r]" "held (Refusing r e) = [r]" "held (Calling r) = [r]" "held (Replying r res) = [r]"
  "held (Panicking r) = [r]" "held (PanicReplying r) = [r]" "held Polling = []" "held Checking = []"
  "held Receiving = []" "held Finishing = []" "held (Rejecting e b) = []" "held Stopping = []"
  "held (Leaving b) = []" "held (Exited b) = []" "held Unreachable = []"
  by (simp_all add: held_def)

lemma worker_call_at [simp]: "call_at (worker_step backend s) i = call_at s i"
  by (cases "wk_pc s") (auto simp: worker_defs try_recv_def split: option.splits sum.splits list.splits)

lemma worker_keeps_replies: "wk_replies s i \<noteq> None \<Longrightarrow> wk_replies (worker_step backend s) i \<noteq> None"
  by (cases "wk_pc s") (auto simp: worker_defs try_recv_def split: option.splits sum.splits list.splits)

text \<open>A worker step keeps a pending request, or answers the one request it takes away.\<close>

lemma worker_pending:
  assumes "inv_pc s" "r \<in> set (pending s)"
  shows "exited (worker_step backend s) \<or> r \<in> set (pending (worker_step backend s))
     \<or> wk_replies (worker_step backend s) (rq_id r) \<noteq> None"
  using assms
  by (cases "wk_pc s")
    (auto simp: worker_defs try_recv_def pending_def exited_def inv_pc_def pc_ok_def begin_request_def
      split: option.splits sum.splits list.splits)

lemma worker_pending_shrinks:
  assumes "distinct (map rq_id (pending s))"
  shows "distinct (map rq_id (pending (worker_step backend s)))"
    "set (pending (worker_step backend s)) \<subseteq> set (pending s)"
    "length (wk_queue (worker_step backend s)) \<le> length (wk_queue s)"
  using assms
  by (cases "wk_pc s"; auto simp: worker_defs try_recv_def pending_def split: option.splits sum.splits list.splits)+

lemma worker_pending_unanswered:
  assumes "distinct (map rq_id (pending s))" "r \<in> set (pending (worker_step backend s))"
  shows "wk_replies (worker_step backend s) (rq_id r) = wk_replies s (rq_id r)"
  using assms
  by (cases "wk_pc s")
    (auto simp: worker_defs try_recv_def pending_def split: option.splits sum.splits list.splits;
      metis imageI)+

lemma inv_req_worker:
  assumes "inv_req capacity s"
  shows "inv_req capacity (worker_step backend s)"
proof -
  from assms have d: "distinct (map rq_id (pending s))" by (simp add: inv_req_def)
  have "waits (worker_step backend s) r" if r: "r \<in> set (pending (worker_step backend s))" for r
  proof -
    from worker_pending_shrinks(2) [OF d] r assms have "waits s r" by (auto simp: inv_req_def)
    then show ?thesis by (simp add: waits_def worker_pending_unanswered [OF d r])
  qed
  with assms worker_pending_shrinks [OF d, of backend] show ?thesis by (simp add: inv_req_def)
qed

lemma worker_answers_pending:
  assumes "wk_replies (worker_step backend s) i \<noteq> wk_replies s i"
  shows "i \<in> rq_id ` set (pending s)"
  using assms
  by (cases "wk_pc s")
    (auto simp: worker_defs try_recv_def pending_def split: option.splits sum.splits list.splits if_splits)

lemma inv_replies_worker:
  assumes "inv_req capacity s" "inv_replies s"
  shows "inv_replies (worker_step backend s)"
proof -
  have "\<exists>c. call_at s i = Some c \<and> submitted c" if "wk_replies (worker_step backend s) i \<noteq> None" for i
  proof (cases "wk_replies (worker_step backend s) i = wk_replies s i")
    case True
    with that assms(2) show ?thesis by (simp add: inv_replies_def)
  next
    case False
    from worker_answers_pending [OF False] assms(1) show ?thesis by (auto simp: inv_req_def waits_def)
  qed
  then show ?thesis by (simp add: inv_replies_def)
qed

lemma exited_worker: "exited s \<Longrightarrow> worker_step backend s = s"
  by (cases "wk_pc s") (simp_all add: exited_def worker_step_def)

lemma inv_lost_worker:
  assumes "inv_pc s" "inv_lost s"
  shows "inv_lost (worker_step backend s)"
proof -
  let ?s' = "worker_step backend s"
  have "exited ?s' \<or> i \<in> rq_id ` set (pending ?s')" if w: "waiting ?s' i" for i
  proof -
    from w have "wk_replies ?s' i = None" by (simp add: waiting_def)
    then have "wk_replies s i = None" using worker_keeps_replies [of s i backend] by blast
    with w have "waiting s i" by (simp add: waiting_def)
    with assms(2) consider "exited s" | r where "r \<in> set (pending s)" "i = rq_id r"
      by (auto simp: inv_lost_def)
    then show ?thesis
    proof cases
      case 1
      then show ?thesis by (simp add: exited_worker)
    next
      case 2
      with worker_pending [OF assms(1) 2(1), of backend] w show ?thesis by (auto simp: waiting_def)
    qed
  qed
  then show ?thesis by (simp add: inv_lost_def)
qed

section \<open>Client and handle steps keep the requests in order\<close>

lemma call_at_set_call: "call_at (set_call i c s) j = (if j = i \<and> call_at s i \<noteq> None then Some c else call_at s j)"
  by (auto simp: call_at_def set_call_def)

lemma set_call_simps [simp]:
  "pending (set_call i c s) = pending s" "wk_queue (set_call i c s) = wk_queue s"
  "wk_replies (set_call i c s) = wk_replies s" "exited (set_call i c s) = exited s" "wk_pc (set_call i c s) = wk_pc s"
  by (simp_all add: set_call_def exited_def)

text \<open>A call that moves on without being queued.\<close>

definition quiet :: "worker_sys \<Rightarrow> worker_sys \<Rightarrow> bool" where
  "quiet s s' \<longleftrightarrow> (\<exists>i c c'. call_at s i = Some c \<and> s' = set_call i c' s \<and> call_addr c' = call_addr c
     \<and> (submitted c \<longrightarrow> submitted c') \<and> (\<forall>a. c' \<noteq> Waiting a))"

lemma quietI:
  "call_at s i = Some c \<Longrightarrow> call_addr c' = call_addr c \<Longrightarrow> submitted c \<longrightarrow> submitted c' \<Longrightarrow> \<forall>a. c' \<noteq> Waiting a
     \<Longrightarrow> quiet s (set_call i c' s)"
  by (auto simp: quiet_def)

lemma quiet_at:
  assumes "quiet s s'"
  shows "call_at s j = Some c \<Longrightarrow> \<exists>c'. call_at s' j = Some c' \<and> call_addr c' = call_addr c \<and> (submitted c \<longrightarrow> submitted c')"
    "call_at s' j = Some (Waiting a) \<Longrightarrow> call_at s j = Some (Waiting a)"
    "pending s' = pending s" "wk_queue s' = wk_queue s" "wk_replies s' = wk_replies s" "exited s' = exited s"
  using assms by (auto simp: quiet_def call_at_set_call split: if_splits)

lemma quiet_inv:
  assumes "quiet s s'"
  shows "inv_req capacity s \<Longrightarrow> inv_req capacity s'" "inv_replies s \<Longrightarrow> inv_replies s'" "inv_lost s \<Longrightarrow> inv_lost s'"
proof -
  note at = quiet_at [OF assms]
  have "waits s r \<Longrightarrow> waits s' r" for r using at(1) by (fastforce simp: waits_def at(5))
  then show "inv_req capacity s \<Longrightarrow> inv_req capacity s'" by (auto simp: inv_req_def at(3,4))
  show "inv_replies s \<Longrightarrow> inv_replies s'" using at(1) by (fastforce simp: inv_replies_def at(5))
  show "inv_lost s \<Longrightarrow> inv_lost s'" using at(2) by (auto simp: inv_lost_def waiting_def at(3,5,6))
qed

lemma quiet_calls:
  "call_check i s = Some s' \<Longrightarrow> quiet s s'" "call_receive i s = Some s' \<Longrightarrow> quiet s s'"
  "call_timeout i s = Some s' \<Longrightarrow> quiet s s'" "call_disconnected i s = Some s' \<Longrightarrow> quiet s s'"
  by (auto simp: call_check_def call_receive_def call_timeout_def call_disconnected_def
      split: option.splits call.splits if_splits intro!: quietI)

lemma call_send_cases:
  assumes "call_send capacity i s = Some s'"
  obtains (refused) a e where "call_at s i = Some (Checked a)" "s' = set_call i (Returned a (Inl e)) s"
    | (queued) a where "call_at s i = Some (Checked a)" "\<not> exited s" "length (wk_queue s) < capacity"
        "s' = set_call i (Waiting a) (s\<lparr>wk_queue := wk_queue s @ [\<lparr>rq_id = i, rq_addr = a\<rparr>]\<rparr>)"
  using assms by (auto simp: call_send_def try_send_def split: option.splits call.splits if_splits)

lemma call_send_inv:
  assumes "call_send capacity i s = Some s'"
  shows "inv_req capacity s \<Longrightarrow> inv_replies s \<Longrightarrow> inv_req capacity s'"
    "inv_replies s \<Longrightarrow> inv_replies s'" "inv_lost s \<Longrightarrow> inv_lost s'"
proof -
  let ?claim = "(inv_req capacity s \<longrightarrow> inv_replies s \<longrightarrow> inv_req capacity s') \<and> (inv_replies s \<longrightarrow> inv_replies s')
    \<and> (inv_lost s \<longrightarrow> inv_lost s')"
  from assms have ?claim
  proof (cases rule: call_send_cases)
    case (refused a e)
    then have "quiet s s'" by (auto intro!: quietI)
    from quiet_inv [OF this] show ?thesis by blast
  next
    case (queued a)
    let ?r = "\<lparr>rq_id = i, rq_addr = a\<rparr>"
    have fresh: "wk_replies s i = None" if "inv_replies s"
      using that queued(1) by (cases "wk_replies s i") (auto simp: inv_replies_def)
    have other: "i \<notin> rq_id ` set (pending s)" if "inv_req capacity s"
      using that queued(1) by (auto simp: inv_req_def waits_def)
    have pend: "pending s' = pending s @ [?r]" by (simp add: queued(4) pending_def)
    have at: "call_at s' j = (if j = i then Some (Waiting a) else call_at s j)" for j
      by (simp add: queued(1,4) call_at_set_call)
    have rep: "wk_replies s' = wk_replies s" "exited s' = exited s" by (simp_all add: queued(4) exited_def)
    have "inv_req capacity s'" if "inv_req capacity s" "inv_replies s"
    proof -
      have "waits s' r" if "r \<in> set (pending s)" for r
        using that \<open>inv_req capacity s\<close> other by (force simp: inv_req_def waits_def at rep)
      moreover have "waits s' ?r" using fresh that by (simp add: waits_def at rep)
      ultimately show ?thesis using that other queued(3) by (auto simp: inv_req_def pend) (simp add: queued(4))
    qed
    then show ?thesis by (auto simp: inv_replies_def inv_lost_def waiting_def at rep pend)
  qed
  then show "inv_req capacity s \<Longrightarrow> inv_replies s \<Longrightarrow> inv_req capacity s'"
    "inv_replies s \<Longrightarrow> inv_replies s'" "inv_lost s \<Longrightarrow> inv_lost s'" by blast+
qed

lemma call_start_inv:
  assumes "call_start a s = Some s'"
  shows "inv_req capacity s \<Longrightarrow> inv_req capacity s'" "inv_replies s \<Longrightarrow> inv_replies s'" "inv_lost s \<Longrightarrow> inv_lost s'"
proof -
  from assms have s': "s' = s\<lparr>wk_calls := wk_calls s @ [Starting a]\<rparr>" by (auto simp: call_start_def split: if_splits)
  have at: "call_at s i = Some c \<Longrightarrow> call_at s' i = Some c" for i c
    by (auto simp: s' call_at_def nth_append split: if_splits)
  have wait: "call_at s' i = Some (Waiting b) \<Longrightarrow> call_at s i = Some (Waiting b)" for i b
    by (auto simp: s' call_at_def nth_append split: if_splits)
  have same: "pending s' = pending s" "wk_replies s' = wk_replies s" "wk_queue s' = wk_queue s" "exited s' = exited s"
    by (simp_all add: s' exited_def)
  show "inv_req capacity s \<Longrightarrow> inv_req capacity s'" "inv_replies s \<Longrightarrow> inv_replies s'"
    by (auto simp: inv_req_def inv_replies_def waits_def same; meson at)+
  show "inv_lost s \<Longrightarrow> inv_lost s'" using wait by (auto simp: inv_lost_def waiting_def same)
qed

lemma handle_requests:
  "drop_clients s = Some s' \<Longrightarrow> wk_calls s' = wk_calls s \<and> wk_queue s' = wk_queue s"
  "handle_signal s = Some s' \<Longrightarrow> wk_calls s' = wk_calls s \<and> wk_queue s' = wk_queue s"
  "handle_join s = Some s' \<Longrightarrow> wk_calls s' = wk_calls s \<and> wk_queue s' = wk_queue s"
  "handle_give_up s = Some s' \<Longrightarrow> wk_calls s' = wk_calls s \<and> wk_queue s' = wk_queue s"
  "handle_request s = Some s' \<Longrightarrow> wk_calls s' = wk_calls s \<and> wk_queue s' = wk_queue s"
  "handle_drop s = Some s' \<Longrightarrow> wk_calls s' = wk_calls s \<and> wk_queue s' = wk_queue s"
  by (auto simp: handle_defs drop_clients_def split: if_splits handle_pc.splits worker_pc.splits prod.splits)

lemma same_requests_inv:
  assumes "untouched s s'" "wk_calls s' = wk_calls s" "wk_queue s' = wk_queue s"
  shows "inv_req capacity s \<Longrightarrow> inv_req capacity s'" "inv_replies s \<Longrightarrow> inv_replies s'" "inv_lost s \<Longrightarrow> inv_lost s'"
proof -
  from assms have "pending s' = pending s" "call_at s' = call_at s" "exited s' = exited s" "wk_replies s' = wk_replies s"
    by (auto simp: untouched_def pending_def call_at_def exited_def)
  with assms(3) show "inv_req capacity s \<Longrightarrow> inv_req capacity s'" "inv_replies s \<Longrightarrow> inv_replies s'" "inv_lost s \<Longrightarrow> inv_lost s'"
    by (simp_all add: inv_req_def inv_replies_def inv_lost_def waits_def waiting_def)
qed

definition inv :: "nat \<Rightarrow> worker_sys \<Rightarrow> bool" where
  "inv capacity s \<longleftrightarrow> inv_pc s \<and> inv_req capacity s \<and> inv_replies s \<and> inv_lost s"

lemma inv_step: "sys_step capacity backend s s' \<Longrightarrow> inv capacity s \<Longrightarrow> inv capacity s'"
proof -
  assume step: "sys_step capacity backend s s'" and inv: "inv capacity s"
  then have pc: "inv_pc s'" using inv_pc_step by (auto simp: inv_def)
  from step have "inv_req capacity s' \<and> inv_replies s' \<and> inv_lost s'"
  proof (cases rule: sys_step.cases)
    case worker
    with inv show ?thesis by (simp add: inv_def inv_req_worker inv_replies_worker [of capacity] inv_lost_worker)
  next
    case (start a)
    with inv call_start_inv [OF start] show ?thesis by (simp add: inv_def)
  next
    case (send i)
    with inv call_send_inv [OF send] show ?thesis by (simp add: inv_def)
  next
    case (check i)
    with inv quiet_inv [OF quiet_calls(1) [OF check]] show ?thesis by (simp add: inv_def)
  next
    case (receive i)
    with inv quiet_inv [OF quiet_calls(2) [OF receive]] show ?thesis by (simp add: inv_def)
  next
    case (timeout i)
    with inv quiet_inv [OF quiet_calls(3) [OF timeout]] show ?thesis by (simp add: inv_def)
  next
    case (disconnected i)
    with inv quiet_inv [OF quiet_calls(4) [OF disconnected]] show ?thesis by (simp add: inv_def)
  qed (use inv same_requests_inv [of s s'] handle_requests [of s s'] calls_keep(7) [of s s'] handle_keep [of s s']
      in \<open>auto simp: inv_def\<close>)
  with pc show ?thesis by (simp add: inv_def)
qed

lemma reachable_inv: "reachable capacity backend s \<Longrightarrow> inv capacity s"
proof (induction rule: reachable_induct)
  case init
  show ?case
    by (simp add: inv_def inv_pc_def pc_ok_def initial_sys_def inv_req_def inv_replies_def inv_lost_def
        waiting_def pending_def call_at_def)
qed (rule inv_step)


section \<open>The worker's properties\<close>

text \<open>Two calls, the first being served while the second waits; and the same after a shutdown request.\<close>

definition echo_backend :: backend where
  "echo_backend n addr = (if addr = 0 then None else Some (Inr \<lparr>sy_name = fmt_hex (uint addr), sy_source = Kallsyms\<rparr>))"

definition busy_schedule :: "action list" where
  "busy_schedule = [ActStart 10, ActCheck 0, ActSend 0, ActStart 11, ActWorker, ActCheck 1, ActWorker, ActWorker,
     ActWorker, ActSend 1]"

lemma busy_schedule_runs: "(case schedule 2 echo_backend busy_schedule initial_sys of None \<Rightarrow> False
    | Some s \<Rightarrow> wk_pc s = Calling \<lparr>rq_id = 0, rq_addr = 10\<rparr> \<and> wk_queue s = [\<lparr>rq_id = 1, rq_addr = 11\<rparr>] \<and> wk_state s = Executing)"
  by code_simp

text \<open>Why the lifecycle is where it is: a panic of the backend, a request of the handle, or no client left.\<close>

definition backend_panicked :: "backend \<Rightarrow> worker_sys \<Rightarrow> bool" where
  "backend_panicked backend s \<longleftrightarrow> (\<exists>n<wk_served s. \<exists>addr. backend n addr = None)"

definition inv_cause :: "backend \<Rightarrow> worker_sys \<Rightarrow> bool" where
  "inv_cause backend s \<longleftrightarrow>
     ((\<exists>r. wk_pc s = Panicking r) \<or> wk_state s = Panicked \<longrightarrow> backend_panicked backend s) \<and>
     (wk_state s = ShutdownRequested \<longrightarrow> wk_handle s \<noteq> Holding) \<and>
     (wk_pc s = Stopping \<or> wk_state s = Stopped \<longrightarrow> wk_handle s \<noteq> Holding \<or> \<not> wk_clients s)"

lemma backend_panicked_mono:
  "backend_panicked backend s \<Longrightarrow> wk_served s \<le> wk_served s' \<Longrightarrow> backend_panicked backend s'"
  unfolding backend_panicked_def by (meson order_less_le_trans)

lemma call_step_panics:
  "backend (wk_served s) (rq_addr r) = None \<Longrightarrow> wk_served s' = Suc (wk_served s) \<Longrightarrow> backend_panicked backend s'"
  unfolding backend_panicked_def by (metis lessI)

lemma worker_served: "wk_served s \<le> wk_served (worker_step backend s)"
  by (cases "wk_pc s") (auto simp: worker_defs split: option.splits sum.splits if_splits)

lemma worker_frame [simp]:
  "wk_handle (worker_step backend s) = wk_handle s" "wk_clients (worker_step backend s) = wk_clients s"
  by (cases "wk_pc s"; auto simp: worker_defs split: option.splits sum.splits if_splits)+

lemma inv_cause_worker:
  assumes "inv_cause backend s" "inv_pc s"
  shows "inv_cause backend (worker_step backend s)"
proof (cases "wk_pc s")
  case (Calling r)
  with assms backend_panicked_mono [of backend s "worker_step backend s"] worker_served [of s backend] show ?thesis
    by (auto simp: inv_cause_def call_step_def worker_step_def intro: call_step_panics split: option.splits)
qed (use assms backend_panicked_mono [of backend s "worker_step backend s"] worker_served [of s backend] in
  \<open>auto simp: inv_cause_def inv_pc_def pc_ok_def worker_defs lifecycle_defs shutdown_signalled_def
    split: option.splits if_splits\<close>)

lemma client_frame:
  "call_start a s = Some s' \<Longrightarrow> wk_handle s' = wk_handle s \<and> wk_clients s' = wk_clients s"
  "call_check i s = Some s' \<Longrightarrow> wk_handle s' = wk_handle s \<and> wk_clients s' = wk_clients s"
  "call_send n i s = Some s' \<Longrightarrow> wk_handle s' = wk_handle s \<and> wk_clients s' = wk_clients s"
  "call_receive i s = Some s' \<Longrightarrow> wk_handle s' = wk_handle s \<and> wk_clients s' = wk_clients s"
  "call_timeout i s = Some s' \<Longrightarrow> wk_handle s' = wk_handle s \<and> wk_clients s' = wk_clients s"
  "call_disconnected i s = Some s' \<Longrightarrow> wk_handle s' = wk_handle s \<and> wk_clients s' = wk_clients s"
  "drop_clients s = Some s' \<Longrightarrow> wk_handle s' = wk_handle s \<and> \<not> wk_clients s'"
  by (auto simp: call_defs split: if_splits option.splits call.splits)

lemma handle_frame:
  "handle_signal s = Some s' \<Longrightarrow> wk_handle s' \<noteq> Holding"
  "handle_join s = Some s' \<Longrightarrow> wk_handle s' \<noteq> Holding"
  "handle_give_up s = Some s' \<Longrightarrow> wk_handle s' \<noteq> Holding"
  "handle_request s = Some s' \<Longrightarrow> wk_handle s' \<noteq> Holding"
  "handle_drop s = Some s' \<Longrightarrow> wk_handle s' \<noteq> Holding"
  by (auto simp: handle_defs split: if_splits handle_pc.splits worker_pc.splits prod.splits)

lemma inv_cause_same:
  assumes "inv_cause backend s" "untouched s s'" "wk_state s' = wk_state s"
    and "wk_handle s' \<noteq> Holding \<or> wk_handle s' = wk_handle s \<and> (wk_clients s' \<longrightarrow> wk_clients s)"
  shows "inv_cause backend s'"
  using assms by (auto simp: inv_cause_def untouched_def backend_panicked_def)

lemma inv_cause_shutdown:
  assumes "inv_cause backend s" "untouched s s'" "wk_state s' = snd (request_shutdown (wk_state s))" "wk_handle s' \<noteq> Holding"
  shows "inv_cause backend s'"
  using assms by (auto simp: inv_cause_def untouched_def backend_panicked_def request_shutdown_def)

lemma inv_cause_step:
  assumes "sys_step capacity backend s s'" "inv_cause backend s" "inv_pc s"
  shows "inv_cause backend s'"
  using assms(1)
  by cases (use assms(2,3) inv_cause_worker in \<open>auto dest: calls_keep client_frame handle_keep handle_frame
    intro: inv_cause_same [OF assms(2)] inv_cause_shutdown [OF assms(2)]\<close>)

lemma reachable_inv_cause: "reachable capacity backend s \<Longrightarrow> inv_cause backend s"
proof (induction rule: reachable_induct)
  case init
  show ?case by (simp add: inv_cause_def initial_sys_def)
next
  case (step s s')
  with inv_cause_step reachable_inv_pc show ?case by blast
qed

text \<open>C5: Whatever the interleaving of clients, handle and worker, the worker never reaches an
  \<open>unreachable!\<close> branch, and its lifecycle is the one its program counter needs: it calls the backend
  only for the one request it executes (a shutdown may be requested meanwhile); it refuses a request, and drains its queue with the error of a stopped
  worker, only while a shutdown is requested, and drains it with the error of a panic only after one;
  its thread ends stopped or panicked. And each of these states has its cause: panicked only after a
  panic of the backend, a requested shutdown only once the handle has asked for it, stopped only once
  the handle has asked or no client is left.\<close>

theorem worker_never_unreachable:
  assumes "reachable capacity backend s"
  shows "wk_pc s \<noteq> Unreachable \<and> pc_ok (wk_pc s) (wk_state s) \<and>
    (wk_state s = Panicked \<longrightarrow> (\<exists>n<wk_served s. \<exists>addr. backend n addr = None)) \<and>
    (wk_state s = ShutdownRequested \<longrightarrow> wk_handle s \<noteq> Holding) \<and>
    (wk_state s = Stopped \<longrightarrow> wk_handle s \<noteq> Holding \<or> \<not> wk_clients s)"
proof -
  have "inv_pc s" using reachable_inv [OF assms] by (simp add: inv_def)
  moreover from this have "wk_pc s \<noteq> Unreachable" by (auto simp: inv_pc_def pc_ok_def)
  ultimately show ?thesis
    using reachable_inv_cause [OF assms] by (simp add: inv_pc_def inv_cause_def backend_panicked_def)
qed

text \<open>A call of the address 0, on which the backend panics.\<close>

definition panic_schedule :: "action list" where
  "panic_schedule = [ActStart 0, ActCheck 0, ActSend 0, ActWorker, ActWorker, ActWorker, ActWorker, ActWorker, ActWorker]"

theorem worker_never_unreachable_witness:
  "\<exists>s. schedule 2 echo_backend panic_schedule initial_sys = Some s \<and> wk_state s = Panicked \<and>
     pc_ok (wk_pc s) (wk_state s) \<and> (\<exists>n<wk_served s. \<exists>addr. echo_backend n addr = None)"
proof -
  have "(case schedule 2 echo_backend panic_schedule initial_sys of None \<Rightarrow> False | Some s \<Rightarrow> wk_state s = Panicked)"
    by code_simp
  then obtain s where s: "schedule 2 echo_backend panic_schedule initial_sys = Some s" "wk_state s = Panicked"
    by (auto split: option.splits)
  from worker_never_unreachable [OF schedule_initial [OF s(1)]] s show ?thesis by blast
qed

text \<open>C6: The queue never exceeds its capacity; every pending request is in one place (the queue or
  the worker's hands), belongs to a submitted call for its address, and is not answered yet; no
  submitted call is lost: while it waits without an answer, its request is pending or the worker
  thread is gone.\<close>

theorem worker_requests_in_one_place:
  assumes "reachable capacity backend s"
  shows "length (wk_queue s) \<le> capacity \<and> distinct (map rq_id (pending s)) \<and>
    (\<forall>r\<in>set (pending s). wk_replies s (rq_id r) = None \<and>
       (\<exists>c. call_at s (rq_id r) = Some c \<and> submitted c \<and> call_addr c = rq_addr r)) \<and>
    (\<forall>i a. call_at s i = Some (Waiting a) \<longrightarrow>
       wk_replies s i \<noteq> None \<or> i \<in> rq_id ` set (pending s) \<or> exited s)"
proof -
  from reachable_inv [OF assms] have "inv_req capacity s" "inv_lost s" by (simp_all add: inv_def)
  moreover from \<open>inv_lost s\<close> have "wk_replies s i \<noteq> None \<or> i \<in> rq_id ` set (pending s) \<or> exited s"
    if "call_at s i = Some (Waiting a)" for i a
    using that by (cases "wk_replies s i") (auto simp: inv_lost_def waiting_def)
  ultimately show ?thesis by (auto simp: inv_req_def waits_def)
qed

theorem worker_requests_in_one_place_witness:
  "\<exists>s. schedule 2 echo_backend busy_schedule initial_sys = Some s \<and> length (wk_queue s) \<le> 2 \<and>
     distinct (map rq_id (pending s)) \<and> (\<forall>r\<in>set (pending s). wk_replies s (rq_id r) = None)"
proof -
  obtain s where s: "schedule 2 echo_backend busy_schedule initial_sys = Some s"
    using busy_schedule_runs by (auto split: option.splits)
  from worker_requests_in_one_place [OF schedule_initial [OF s]] s show ?thesis by blast
qed


section \<open>Answers\<close>

text \<open>An answer for an address: one the backend gave, or the error of a stop or a panic.\<close>

definition genuine :: "backend \<Rightarrow> u64 \<Rightarrow> sym_result \<Rightarrow> bool" where
  "genuine backend a res \<longleftrightarrow> (\<exists>n. backend n a = Some res) \<or> res = Inl WorkerStopped \<or> res = Inl WorkerPanic"

definition inv_genuine :: "backend \<Rightarrow> worker_sys \<Rightarrow> bool" where
  "inv_genuine backend s \<longleftrightarrow>
     (\<forall>r res. wk_pc s = Replying r res \<longrightarrow> genuine backend (rq_addr r) res) \<and>
     (\<forall>i res. wk_replies s i = Some res \<longrightarrow> (\<exists>c. call_at s i = Some c \<and> genuine backend (call_addr c) res)) \<and>
     (\<forall>i a y. call_at s i = Some (Returned a (Inr y)) \<longrightarrow> genuine backend a (Inr y))"

lemma genuine_simps [simp]: "genuine backend a (Inl WorkerStopped)" "genuine backend a (Inl WorkerPanic)"
  by (simp_all add: genuine_def)

text \<open>What the worker puts into a reply channel.\<close>

lemma worker_reply_cases:
  assumes "inv_pc s" "wk_replies (worker_step backend s) i = Some res" "wk_replies s i = None"
  shows "\<exists>r\<in>set (pending s). rq_id r = i \<and> (res = Inl WorkerStopped \<or> res = Inl WorkerPanic \<or> wk_pc s = Replying r res)"
  using assms
  by (cases "wk_pc s")
    (auto simp: worker_defs try_recv_def pending_def inv_pc_def pc_ok_def
      split: option.splits sum.splits list.splits if_splits)

lemma worker_replying:
  "wk_pc (worker_step backend s) = Replying r res \<Longrightarrow> \<exists>n. backend n (rq_addr r) = Some res"
  by (cases "wk_pc s") (auto simp: worker_defs try_recv_def split: option.splits sum.splits list.splits if_splits)

lemma inv_genuine_worker:
  assumes "inv capacity s" "inv_genuine backend s"
  shows "inv_genuine backend (worker_step backend s)"
proof -
  let ?s' = "worker_step backend s"
  have "\<exists>c. call_at s i = Some c \<and> genuine backend (call_addr c) res" if r: "wk_replies ?s' i = Some res" for i res
  proof (cases "wk_replies s i")
    case None
    from assms(1) have "inv_pc s" by (simp add: inv_def)
    from worker_reply_cases [OF this r None] obtain q where q: "q \<in> set (pending s)" "rq_id q = i"
      "res = Inl WorkerStopped \<or> res = Inl WorkerPanic \<or> wk_pc s = Replying q res" by blast
    with assms have "genuine backend (rq_addr q) res" by (auto simp: inv_genuine_def)
    with q assms(1) show ?thesis by (auto simp: inv_def inv_req_def waits_def)
  next
    case (Some old)
    then have "wk_replies ?s' i = Some old"
      using assms(1) worker_answers_pending [of backend s i]
      by (fastforce simp: inv_def inv_req_def waits_def)
    with Some r assms(2) show ?thesis by (auto simp: inv_genuine_def)
  qed
  with assms(2) show ?thesis
    using worker_replying [of backend s] by (auto simp: inv_genuine_def) (auto simp: genuine_def)
qed

lemma quiet_returned:
  "call_check i s = Some s' \<Longrightarrow> call_at s' j = Some (Returned a (Inr y)) \<Longrightarrow> call_at s j = Some (Returned a (Inr y))"
  "call_receive i s = Some s' \<Longrightarrow> call_at s' j = Some (Returned a (Inr y)) \<Longrightarrow>
     call_at s j = Some (Returned a (Inr y)) \<or> call_at s j = Some (Waiting a) \<and> wk_replies s j = Some (Inr y)"
  "call_timeout i s = Some s' \<Longrightarrow> call_at s' j = Some (Returned a (Inr y)) \<Longrightarrow> call_at s j = Some (Returned a (Inr y))"
  "call_disconnected i s = Some s' \<Longrightarrow> call_at s' j = Some (Returned a (Inr y)) \<Longrightarrow> call_at s j = Some (Returned a (Inr y))"
  "call_send n i s = Some s' \<Longrightarrow> call_at s' j = Some (Returned a (Inr y)) \<Longrightarrow> call_at s j = Some (Returned a (Inr y))"
  "call_start b s = Some s' \<Longrightarrow> call_at s' j = Some (Returned a (Inr y)) \<Longrightarrow> call_at s j = Some (Returned a (Inr y))"
  by (auto simp: call_check_def call_receive_def call_timeout_def call_disconnected_def call_send_def call_start_def
      call_at_set_call split: option.splits call.splits if_splits)
    (auto simp: call_at_def nth_append split: if_splits)

lemma calls_kept_at:
  assumes "call_start b s = Some s' \<or> call_send n i s = Some s' \<or> quiet s s'"
  shows "call_at s j = Some c \<Longrightarrow> \<exists>c'. call_at s' j = Some c' \<and> call_addr c' = call_addr c"
  using assms quiet_at(1) [of s s' j c]
  by (auto simp: call_start_def call_send_def call_at_set_call split: option.splits call.splits if_splits)
    (auto simp: call_at_def nth_append)

text \<open>A client step: it starts, sends or moves a call on, and touches nothing else of the worker.\<close>

definition client_step :: "nat \<Rightarrow> worker_sys \<Rightarrow> worker_sys \<Rightarrow> bool" where
  "client_step capacity s s' \<longleftrightarrow> (\<exists>i a. call_start a s = Some s' \<or> call_send capacity i s = Some s' \<or> call_check i s = Some s'
     \<or> call_receive i s = Some s' \<or> call_timeout i s = Some s' \<or> call_disconnected i s = Some s')"

lemma inv_genuine_client:
  assumes "client_step capacity s s'" "inv_genuine backend s"
  shows "inv_genuine backend s'"
proof -
  from assms(1) obtain i b where step: "call_start b s = Some s' \<or> call_send capacity i s = Some s' \<or> call_check i s = Some s'
     \<or> call_receive i s = Some s' \<or> call_timeout i s = Some s' \<or> call_disconnected i s = Some s'"
    by (auto simp: client_step_def)
  have same: "wk_pc s' = wk_pc s" "wk_replies s' = wk_replies s"
    using step calls_keep by (auto simp: untouched_def)
  have "call_start b s = Some s' \<or> call_send capacity i s = Some s' \<or> quiet s s'"
    using step quiet_calls by blast
  note kept = calls_kept_at [OF this]
  have "\<exists>c. call_at s' j = Some c \<and> genuine backend (call_addr c) res" if r: "wk_replies s' j = Some res" for j res
  proof -
    from r assms(2) obtain c where c: "call_at s j = Some c" "genuine backend (call_addr c) res"
      unfolding inv_genuine_def same by blast
    from kept [OF c(1)] c(2) show ?thesis by auto
  qed
  moreover have "genuine backend a (Inr y)" if r: "call_at s' j = Some (Returned a (Inr y))" for j a y
  proof -
    from step have "call_at s j = Some (Returned a (Inr y))
        \<or> call_at s j = Some (Waiting a) \<and> wk_replies s j = Some (Inr y)"
      by (elim disjE) (simp_all add: quiet_returned [OF _ r])
    with assms(2) show ?thesis by (fastforce simp: inv_genuine_def)
  qed
  ultimately show ?thesis using assms(2) by (simp add: inv_genuine_def same)
qed

lemma inv_genuine_same:
  assumes "untouched s s'" "wk_calls s' = wk_calls s" "inv_genuine backend s"
  shows "inv_genuine backend s'"
proof -
  from assms have "call_at s' = call_at s" "wk_replies s' = wk_replies s" "wk_pc s' = wk_pc s"
    by (auto simp: untouched_def call_at_def)
  with assms(3) show ?thesis by (simp add: inv_genuine_def)
qed

lemma sys_step_kinds:
  assumes "sys_step capacity backend s s'"
  obtains (worker) "s' = worker_step backend s" | (client) "client_step capacity s s'"
    | (other) "untouched s s'" "wk_calls s' = wk_calls s" "wk_queue s' = wk_queue s"
  using assms
proof (cases rule: sys_step.cases)
  case worker
  then show ?thesis by (rule that(1))
next
  case clients_dropped
  with that(3) calls_keep(7) handle_requests(1) show ?thesis by blast
next
  case shutdown
  with that(3) handle_keep(4) handle_requests(5) show ?thesis by blast
next
  case signal
  with that(3) handle_keep(1) handle_requests(2) show ?thesis by blast
next
  case join
  with that(3) handle_keep(2) handle_requests(3) show ?thesis by blast
next
  case give_up
  with that(3) handle_keep(3) handle_requests(4) show ?thesis by blast
next
  case handle_dropped
  with that(3) handle_keep(5) handle_requests(6) show ?thesis by blast
qed (use that(2) in \<open>unfold client_step_def, blast\<close>)+

lemma reachable_genuine: "reachable capacity backend s \<Longrightarrow> inv_genuine backend s"
proof (induction rule: reachable_induct)
  case init
  show ?case by (simp add: inv_genuine_def initial_sys_def call_at_def)
next
  case (step s s')
  from step(2) show ?case
  proof (cases rule: sys_step_kinds)
    case worker
    with inv_genuine_worker [OF reachable_inv [OF step(1)] step(3)] show ?thesis by simp
  next
    case client
    with inv_genuine_client step(3) show ?thesis by blast
  next
    case other
    with inv_genuine_same step(3) show ?thesis by blast
  qed
qed

text \<open>C4: A symbol that a client gets is genuine: the backend gave exactly this symbol for exactly the
  address the client asked; an answer in a reply channel is the backend's for that address, or the
  error of a stopped or panicked worker, and once there it is never replaced.\<close>

theorem worker_answers_are_genuine:
  assumes "reachable capacity backend s" "sys_step capacity backend s s'"
  shows "(\<forall>i a y. call_at s i = Some (Returned a (Inr y)) \<longrightarrow> (\<exists>n. backend n a = Some (Inr y))) \<and>
    (\<forall>i res. wk_replies s i = Some res \<longrightarrow>
       wk_replies s' i = Some res \<and> (\<exists>c. call_at s i = Some c \<and> genuine backend (call_addr c) res))"
proof -
  have gen: "inv_genuine backend s" by (rule reachable_genuine [OF assms(1)])
  have keep: "wk_replies s' i = Some res" if r: "wk_replies s i = Some res" for i res
    using assms(2)
  proof (cases rule: sys_step_kinds)
    case worker
    have "i \<notin> rq_id ` set (pending s)"
      using reachable_inv [OF assms(1)] r by (fastforce simp: inv_def inv_req_def waits_def)
    with worker worker_answers_pending [of backend s i] r show ?thesis by auto
  next
    case client
    then show ?thesis using r calls_keep by (auto simp: client_step_def untouched_def)
  qed (use r in \<open>simp add: untouched_def\<close>)
  have "\<exists>n. backend n a = Some (Inr y)" if "call_at s i = Some (Returned a (Inr y))" for i a y
    using gen that by (auto simp: inv_genuine_def genuine_def)
  with gen keep show ?thesis by (auto simp: inv_genuine_def)
qed


definition answered_schedule :: "action list" where
  "answered_schedule = busy_schedule @ [ActWorker, ActWorker, ActReceive 0]"

theorem worker_answers_are_genuine_witness:
  "\<exists>s n. schedule 2 echo_backend answered_schedule initial_sys = Some s \<and>
     call_at s 0 = Some (Returned 10 (Inr \<lparr>sy_name = asc ''a'', sy_source = Kallsyms\<rparr>)) \<and>
     echo_backend n 10 = Some (Inr \<lparr>sy_name = asc ''a'', sy_source = Kallsyms\<rparr>)"
proof -
  have "(case schedule 2 echo_backend answered_schedule initial_sys of None \<Rightarrow> False
      | Some s \<Rightarrow> call_at s 0 = Some (Returned 10 (Inr \<lparr>sy_name = asc ''a'', sy_source = Kallsyms\<rparr>)))" by code_simp
  then obtain s where s: "schedule 2 echo_backend answered_schedule initial_sys = Some s"
    "call_at s 0 = Some (Returned 10 (Inr \<lparr>sy_name = asc ''a'', sy_source = Kallsyms\<rparr>))"
    by (auto split: option.splits)
  from worker_answers_are_genuine [OF schedule_initial [OF s(1)] sys_step.worker] s show ?thesis by blast
qed

section \<open>Shutdown\<close>

definition shutting_down :: "worker_sys \<Rightarrow> bool" where
  "shutting_down s \<longleftrightarrow> terminal_error (wk_state s) \<noteq> None \<and> (\<forall>r. wk_pc s \<noteq> Calling r)"

lemma terminal_error_iff: "terminal_error st \<noteq> None \<longleftrightarrow> st \<noteq> Running \<and> st \<noteq> Executing"
  by (cases st) (simp_all add: terminal_error_def)

lemma shutting_down_step:
  assumes "sys_step capacity backend s s'" "shutting_down s"
  shows "shutting_down s'" "wk_served s' = wk_served s"
proof -
  have "shutting_down s' \<and> wk_served s' = wk_served s" using assms(1)
  proof (cases rule: sys_step_cases)
    case worker
    with assms(2) show ?thesis
      by (cases "wk_pc s"; cases "wk_state s")
        (auto simp: shutting_down_def terminal_error_iff worker_defs try_recv_def lifecycle_defs
          split: option.splits list.splits)
  next
    case other
    with assms(2) show ?thesis
      by (auto simp: shutting_down_def terminal_error_iff untouched_def request_shutdown_def terminal_error_def
          split: if_splits)
  qed
  then show "shutting_down s'" "wk_served s' = wk_served s" by blast+
qed

interpretation worker_latch: latch shutting_down "sys_step capacity backend"
  for capacity backend
  by unfold_locales (rule shutting_down_step)

text \<open>C9: Shutdown is final: once the lifecycle has a terminal error and no backend call is under way,
  no interleaving ever calls the backend again, and the lifecycle stays terminal, so every client
  that looks gets an error.\<close>

theorem worker_shutdown_is_final:
  assumes "(sys_step capacity backend)\<^sup>*\<^sup>* s s'"
    and "terminal_error (wk_state s) \<noteq> None" "\<forall>r. wk_pc s \<noteq> Calling r"
  shows "wk_served s' = wk_served s \<and> terminal_error (wk_state s') \<noteq> None"
proof -
  have "shutting_down s" using assms(2,3) by (simp add: shutting_down_def)
  from assms(1) this have "wk_served s' = wk_served s \<and> shutting_down s'"
  proof (induction rule: rtranclp_induct)
    case (step t u)
    with shutting_down_step [OF step(2)] worker_latch.step_closed [OF step(2)] show ?case by simp
  qed simp
  then show ?thesis by (simp add: shutting_down_def)
qed

definition shutdown_schedule :: "action list" where
  "shutdown_schedule = [ActStart 10, ActCheck 0, ActShutdown, ActSend 0, ActSignal]"

theorem worker_shutdown_is_final_witness:
  "\<exists>s. schedule 2 echo_backend shutdown_schedule initial_sys = Some s \<and>
     wk_served (worker_step echo_backend s) = 0 \<and> terminal_error (wk_state (worker_step echo_backend s)) \<noteq> None"
proof -
  have "(case schedule 2 echo_backend shutdown_schedule initial_sys of None \<Rightarrow> False
      | Some s \<Rightarrow> wk_state s = ShutdownRequested \<and> wk_pc s = Polling \<and> wk_served s = 0)" by code_simp
  then obtain s where s: "schedule 2 echo_backend shutdown_schedule initial_sys = Some s"
    "wk_state s = ShutdownRequested" "wk_pc s = Polling" "wk_served s = 0"
    by (auto split: option.splits)
  have "(sys_step 2 echo_backend)\<^sup>*\<^sup>* s (worker_step echo_backend s)"
    by (rule r_into_rtranclp [of "sys_step 2 echo_backend", OF sys_step.worker])
  from worker_shutdown_is_final [OF this] s show ?thesis by (simp add: terminal_error_def)
qed

text \<open>The steps the worker still has to make once shutdown is requested.\<close>

definition pc_rank :: "worker_pc \<Rightarrow> nat" where
  "pc_rank pc = (case pc of
     Exited u \<Rightarrow> 0 | Unreachable \<Rightarrow> 0 | Leaving u \<Rightarrow> 1 | Stopping \<Rightarrow> 2 | Rejecting e u \<Rightarrow> 3 | Checking \<Rightarrow> 4
   | Refusing r e \<Rightarrow> 4 | Finishing \<Rightarrow> 4 | PanicReplying r \<Rightarrow> 4 | Polling \<Rightarrow> 5 | Beginning r \<Rightarrow> 5 | Replying r res \<Rightarrow> 5
   | Panicking r \<Rightarrow> 5 | Receiving \<Rightarrow> 6 | Calling r \<Rightarrow> 6)"

definition shutdown_work :: "worker_sys \<Rightarrow> nat" where
  "shutdown_work s = pc_rank (wk_pc s) + length (wk_queue s)"

lemma shutdown_work_decreases:
  assumes "inv_pc s" "terminal_error (wk_state s) \<noteq> None" "\<not> exited s"
  shows "shutdown_work (worker_step backend s) < shutdown_work s
    \<and> terminal_error (wk_state (worker_step backend s)) \<noteq> None"
  using assms
  by (cases "wk_pc s")
    (auto simp: inv_pc_def pc_ok_def terminal_error_iff shutdown_work_def pc_rank_def worker_defs try_recv_def
      lifecycle_defs exited_def split: option.splits list.splits if_splits)

text \<open>C7: After a shutdown request the worker thread ends by its own steps alone, whatever the backend
  answers: it needs at most one step for each queued request and six more, so a handle that waits
  long enough for those steps sees the thread finished.\<close>

theorem worker_shutdown_terminates:
  assumes "reachable capacity backend s" "terminal_error (wk_state s) \<noteq> None"
  shows "\<exists>n\<le>length (wk_queue s) + 6. exited ((worker_step backend ^^ n) s)"
proof -
  have "\<exists>n\<le> shutdown_work s. exited ((worker_step backend ^^ n) s)"
    if "inv_pc s" "terminal_error (wk_state s) \<noteq> None" for s
    using that
  proof (induction "shutdown_work s" arbitrary: s rule: less_induct)
    case less
    show ?case
    proof (cases "exited s")
      case True
      then show ?thesis by (intro exI [of _ 0]) simp
    next
      case False
      note dec = shutdown_work_decreases [OF less.prems False, of backend]
      with less.hyps inv_pc_worker [OF less.prems(1)] obtain n where
        "n \<le> shutdown_work (worker_step backend s)" "exited ((worker_step backend ^^ n) (worker_step backend s))" by blast
      with dec show ?thesis by (intro exI [of _ "Suc n"]) (simp add: funpow_swap1)
    qed
  qed
  with reachable_inv_pc [OF assms(1)] assms(2) obtain n where
    "n \<le> shutdown_work s" "exited ((worker_step backend ^^ n) s)" by blast
  moreover have "shutdown_work s \<le> length (wk_queue s) + 6"
    by (simp add: shutdown_work_def pc_rank_def split: worker_pc.split)
  ultimately show ?thesis by (meson le_trans)
qed

theorem worker_shutdown_terminates_witness:
  "\<exists>s n. schedule 2 echo_backend shutdown_schedule initial_sys = Some s \<and> length (wk_queue s) = 1 \<and>
     n \<le> 7 \<and> exited ((worker_step echo_backend ^^ n) s)"
proof -
  have "(case schedule 2 echo_backend shutdown_schedule initial_sys of None \<Rightarrow> False
      | Some s \<Rightarrow> wk_state s = ShutdownRequested \<and> length (wk_queue s) = 1)" by code_simp
  then obtain s where s: "schedule 2 echo_backend shutdown_schedule initial_sys = Some s"
    "wk_state s = ShutdownRequested" "length (wk_queue s) = 1"
    by (auto split: option.splits)
  from worker_shutdown_terminates [OF schedule_initial [OF s(1)]] s show ?thesis
    by (auto simp: terminal_error_def)
qed


section \<open>What the handle reports\<close>

definition inv_handle :: "worker_sys \<Rightarrow> bool" where
  "inv_handle s \<longleftrightarrow> (\<forall>r. wk_handle s = Joined r \<longrightarrow> r = Inl ShutdownTimeout
     \<or> (\<exists>b u. wk_pc s = Exited u \<and> r = join_result b u))
   \<and> (exited s \<longrightarrow> wk_queue s = [])"

lemma inv_handle_worker: "inv_handle s \<Longrightarrow> inv_handle (worker_step backend s)"
proof (cases "exited s")
  case True
  then show "inv_handle s \<Longrightarrow> ?thesis" by (simp add: exited_worker)
next
  case False
  assume "inv_handle s"
  with False have "\<forall>r. wk_handle s = Joined r \<longrightarrow> r = Inl ShutdownTimeout"
    by (auto simp: inv_handle_def exited_def)
  moreover have "exited (worker_step backend s) \<longrightarrow> wk_queue (worker_step backend s) = []"
    using False
    by (cases "wk_pc s") (auto simp: exited_def worker_defs try_recv_def split: option.splits sum.splits list.splits)
  ultimately show ?thesis by (auto simp: inv_handle_def)
qed

lemma handle_effects:
  "call_start a s = Some s' \<Longrightarrow> wk_handle s' = wk_handle s \<and> (exited s \<longrightarrow> wk_queue s' = wk_queue s)"
  "call_send n i s = Some s' \<Longrightarrow> wk_handle s' = wk_handle s \<and> (exited s \<longrightarrow> wk_queue s' = wk_queue s)"
  "call_check i s = Some s' \<Longrightarrow> wk_handle s' = wk_handle s \<and> (exited s \<longrightarrow> wk_queue s' = wk_queue s)"
  "call_receive i s = Some s' \<Longrightarrow> wk_handle s' = wk_handle s \<and> (exited s \<longrightarrow> wk_queue s' = wk_queue s)"
  "call_timeout i s = Some s' \<Longrightarrow> wk_handle s' = wk_handle s \<and> (exited s \<longrightarrow> wk_queue s' = wk_queue s)"
  "call_disconnected i s = Some s' \<Longrightarrow> wk_handle s' = wk_handle s \<and> (exited s \<longrightarrow> wk_queue s' = wk_queue s)"
  "drop_clients s = Some s' \<Longrightarrow> wk_handle s' = wk_handle s \<and> (exited s \<longrightarrow> wk_queue s' = wk_queue s)"
  by (auto simp: call_defs split: if_splits option.splits call.splits)

lemma handle_ops_inv:
  "handle_request s = Some s' \<Longrightarrow> inv_handle s \<Longrightarrow> inv_handle s'"
  "handle_signal s = Some s' \<Longrightarrow> inv_handle s \<Longrightarrow> inv_handle s'"
  "handle_drop s = Some s' \<Longrightarrow> inv_handle s \<Longrightarrow> inv_handle s'"
  by (cases "wk_handle s";
      auto simp: handle_request_def handle_signal_def handle_drop_def inv_handle_def exited_def split: prod.splits)+

lemma handle_join_inv: "handle_join s = Some s' \<Longrightarrow> inv_handle s \<Longrightarrow> inv_handle s'"
  by (cases "wk_handle s"; cases "wk_pc s") (auto simp: handle_join_def inv_handle_def exited_def)

lemma handle_give_up_inv: "handle_give_up s = Some s' \<Longrightarrow> inv_handle s \<Longrightarrow> inv_handle s'"
  by (cases "wk_handle s"; cases "exited s") (auto simp: handle_give_up_def inv_handle_def, simp add: exited_def)

lemma inv_handle_calls:
  assumes "wk_handle s' = wk_handle s \<and> (exited s \<longrightarrow> wk_queue s' = wk_queue s)" "untouched s s'" "inv_handle s"
  shows "inv_handle s'"
  using assms by (auto simp: inv_handle_def untouched_def exited_def)

lemma inv_handle_client:
  assumes "client_step capacity s s'" "inv_handle s"
  shows "inv_handle s'"
proof -
  from assms(1) obtain i a where "call_start a s = Some s' \<or> call_send capacity i s = Some s' \<or> call_check i s = Some s'
     \<or> call_receive i s = Some s' \<or> call_timeout i s = Some s' \<or> call_disconnected i s = Some s'"
    by (auto simp: client_step_def)
  then have "wk_handle s' = wk_handle s \<and> (exited s \<longrightarrow> wk_queue s' = wk_queue s)" "untouched s s'"
    by (elim disjE; simp add: handle_effects calls_keep)+
  from inv_handle_calls [OF this assms(2)] show ?thesis .
qed

lemma inv_handle_step:
  assumes "sys_step capacity backend s s'" "inv_handle s"
  shows "inv_handle s'"
  using assms(1)
proof (cases rule: sys_step.cases)
  case worker
  with assms(2) show ?thesis by (simp add: inv_handle_worker)
next
  case clients_dropped
  with inv_handle_calls [OF handle_effects(7)] calls_keep(7) assms(2) show ?thesis by blast
next
  case shutdown
  then show ?thesis using assms(2) by (rule handle_ops_inv)
next
  case signal
  then show ?thesis using assms(2) by (rule handle_ops_inv)
next
  case handle_dropped
  then show ?thesis using assms(2) by (rule handle_ops_inv)
next
  case join
  then show ?thesis using assms(2) by (rule handle_join_inv)
next
  case give_up
  then show ?thesis using assms(2) by (rule handle_give_up_inv)
qed (auto simp: client_step_def intro!: inv_handle_client [OF _ assms(2), of capacity])

lemma reachable_inv_handle: "reachable capacity backend s \<Longrightarrow> inv_handle s"
proof (induction rule: reachable_induct)
  case init
  show ?case by (simp add: inv_handle_def initial_sys_def exited_def)
qed (rule inv_handle_step)

text \<open>C10: What \<open>shutdown\<close> reports is true: \<open>Ok\<close> and \<open>WorkerStopped\<close> only after the thread has
  returned with the lifecycle stopped, \<open>WorkerPanic\<close> only after it has unwound with the lifecycle
  panicked, and in each case no request is left behind; otherwise the answer is the timeout.\<close>

theorem worker_shutdown_report_is_true:
  assumes "reachable capacity backend s" "wk_handle s = Joined r"
  shows "if r = Inl WorkerPanic then wk_pc s = Exited True \<and> wk_state s = Panicked \<and> pending s = []
    else if r = Inl ShutdownTimeout then True
    else (r = Inr () \<or> r = Inl WorkerStopped) \<and> wk_pc s = Exited False \<and> wk_state s = Stopped \<and> pending s = []"
proof -
  from reachable_inv_handle [OF assms(1)] assms(2) have "r = Inl ShutdownTimeout \<or>
      (\<exists>b u. wk_pc s = Exited u \<and> r = join_result b u)" "exited s \<longrightarrow> wk_queue s = []"
    by (auto simp: inv_handle_def)
  moreover have "wk_pc s = Exited u \<Longrightarrow> wk_state s = (if u then Panicked else Stopped)" for u
    using reachable_inv_pc [OF assms(1)] by (simp add: inv_pc_def pc_ok_def)
  ultimately show ?thesis
    by (auto simp: join_result_def exited_def pending_def split: if_splits)
qed

definition joined_schedule :: "action list" where
  "joined_schedule = [ActShutdown, ActSignal] @ replicate 5 ActWorker @ [ActJoin]"

theorem worker_shutdown_report_is_true_witness:
  "\<exists>s. schedule 2 echo_backend joined_schedule initial_sys = Some s \<and> wk_handle s = Joined (Inr ()) \<and>
     wk_pc s = Exited False \<and> wk_state s = Stopped"
proof -
  have "(case schedule 2 echo_backend joined_schedule initial_sys of None \<Rightarrow> False
      | Some s \<Rightarrow> wk_handle s = Joined (Inr ()))" by code_simp
  then obtain s where s: "schedule 2 echo_backend joined_schedule initial_sys = Some s" "wk_handle s = Joined (Inr ())"
    by (auto split: option.splits)
  from worker_shutdown_report_is_true [OF schedule_initial [OF s(1)] s(2)] s show ?thesis by simp
qed

end
