(* ===== verification/Worker_Client.thy ===== *)
theory Worker_Client
  imports Worker Introspect
begin

text \<open>
  The worker as its one user sees it: a client call and a shutdown that run from beginning to end
  while only the worker thread moves. They are made of the very steps of \<open>Worker\<close>. How long a
  client or the handle waits is counted in steps of the worker (\<open>patience\<close>).
\<close>

section \<open>Configuration and spawning\<close>

text \<open>A duration is in nanoseconds.\<close>

record symbolizer_worker_config =
  wc_queue_capacity :: nat
  wc_request_timeout :: nat

definition default_worker_config :: symbolizer_worker_config where
  "default_worker_config = \<lparr>wc_queue_capacity = 64, wc_request_timeout = 250 * 1000000\<rparr>"

text \<open>The constructor of the kernel backend cannot fail; blazesym could panic in it.\<close>

definition kernel_backend_new :: "bool \<Rightarrow> factory_outcome" where
  "kernel_backend_new panics = (if panics then FactoryPanic else FactoryOk)"

definition spawn_kernel_symbolizer :: "str + unit \<Rightarrow> bool \<Rightarrow> symbolize_error + worker_sys" where
  "spawn_kernel_symbolizer thread_spawn panics = spawn_worker thread_spawn (kernel_backend_new panics)"

text \<open>A symbolizer that the caller hands over is the backend as it is.\<close>

definition injected_backend :: "backend \<Rightarrow> backend" where
  "injected_backend symbolizer = (\<lambda>served addr. symbolizer served addr)"

definition spawn_injected_symbolizer_worker :: "str + unit \<Rightarrow> symbolize_error + worker_sys" where
  "spawn_injected_symbolizer_worker thread_spawn = spawn_worker thread_spawn FactoryOk"

section \<open>A client call\<close>

text \<open>\<open>recv_timeout\<close>: the answer if it is there, the end of the worker, or a timeout.\<close>

fun await_reply :: "backend \<Rightarrow> nat \<Rightarrow> nat \<Rightarrow> worker_sys \<Rightarrow> worker_sys option" where
  "await_reply backend i 0 s =
     (case call_receive i s of Some s' \<Rightarrow> Some s' | None \<Rightarrow> call_timeout i s)"
| "await_reply backend i (Suc patience) s =
     (case call_receive i s of
        Some s' \<Rightarrow> Some s'
      | None \<Rightarrow>
          (case call_disconnected i s of
             Some s' \<Rightarrow> Some s'
           | None \<Rightarrow> await_reply backend i patience (worker_step backend s)))"

definition returned :: "nat \<Rightarrow> worker_sys \<Rightarrow> bool" where
  "returned i s = (case call_at s i of None \<Rightarrow> False | Some c \<Rightarrow> is_returned c)"

text \<open>\<open>None\<close>: there is no client any more.\<close>

definition symbolize_inner :: "nat \<Rightarrow> backend \<Rightarrow> nat \<Rightarrow> u64 \<Rightarrow> worker_sys \<Rightarrow> worker_sys option" where
  "symbolize_inner capacity backend patience addr s =
     (let i = length (wk_calls s) in
      Option.bind (call_start addr s) (\<lambda>s1.
      Option.bind (call_check i s1) (\<lambda>s2.
      if returned i s2 then Some s2
      else Option.bind (call_send capacity i s2) (\<lambda>s3.
        if returned i s3 then Some s3 else await_reply backend i patience s3))))"

definition call_result :: "nat \<Rightarrow> worker_sys \<Rightarrow> sym_result option" where
  "call_result i s = (case call_at s i of Some (Returned a r) \<Rightarrow> Some r | _ \<Rightarrow> None)"

text \<open>The client as a symbolizer whose world is the worker. Without a client there is no call; that
  branch is not taken while one exists (\<open>client_symbolize_run\<close>).\<close>

definition client_symbolize :: "nat \<Rightarrow> backend \<Rightarrow> nat \<Rightarrow> worker_sys symbolizer" where
  "client_symbolize capacity backend patience addr s =
     (case symbolize_inner capacity backend patience addr s of
        None \<Rightarrow> (Inl WorkerStopped, s)
      | Some s' \<Rightarrow>
          (case call_result (length (wk_calls s)) s' of
             None \<Rightarrow> (Inl WorkerStopped, s')
           | Some r \<Rightarrow> (r, s')))"

section \<open>A shutdown\<close>

fun await_exit :: "backend \<Rightarrow> nat \<Rightarrow> worker_sys \<Rightarrow> worker_sys option" where
  "await_exit backend 0 s = (case handle_join s of Some s' \<Rightarrow> Some s' | None \<Rightarrow> handle_give_up s)"
| "await_exit backend (Suc patience) s =
     (case handle_join s of
        Some s' \<Rightarrow> Some s'
      | None \<Rightarrow> await_exit backend patience (worker_step backend s))"

definition shutdown_report :: "worker_sys \<Rightarrow> symbolize_error + unit" where
  "shutdown_report s = (case wk_handle s of Joined r \<Rightarrow> r | _ \<Rightarrow> Inl WorkerStopped)"

definition handle_shutdown :: "backend \<Rightarrow> nat \<Rightarrow> (worker_sys, symbolize_error, unit) io" where
  "handle_shutdown backend patience s =
     (case Option.bind (handle_request s) (\<lambda>s1. Option.bind (handle_signal s1) (await_exit backend patience)) of
        None \<Rightarrow> (Inl WorkerStopped, s)
      | Some s' \<Rightarrow> (shutdown_report s', s'))"

section \<open>The world of a use case that has a worker\<close>

text \<open>The ports of the use case act on their own part of the world, the symbolizer on the worker.\<close>

definition on_fst :: "('w, 'e, 'a) io \<Rightarrow> ('w \<times> 'v, 'e, 'a) io" where
  "on_fst m = (\<lambda>(w, v). case m w of (r, w') \<Rightarrow> (r, (w', v)))"

definition on_snd :: "('v, 'e, 'a) io \<Rightarrow> ('w \<times> 'v, 'e, 'a) io" where
  "on_snd m = (\<lambda>(w, v). case m v of (r, v') \<Rightarrow> (r, (w, v')))"

definition source_on_fst :: "'w proc_source \<Rightarrow> ('w \<times> 'v) proc_source" where
  "source_on_fst source =
     \<lparr>so_snapshot = (\<lambda>pid. on_fst (so_snapshot source pid)),
      so_cpu_counters = (\<lambda>pid. on_fst (so_cpu_counters source pid))\<rparr>"

definition clock_on_fst :: "'w sample_clock \<Rightarrow> ('w \<times> 'v) sample_clock" where
  "clock_on_fst clock =
     \<lparr>ck_now = (\<lambda>(w, v). case ck_now clock w of (t, w') \<Rightarrow> (t, (w', v))),
      ck_sleep = (\<lambda>d (w, v). (ck_sleep clock d w, v))\<rparr>"

text \<open>The worker that \<open>introspect\<close> spawns: the thread is started with a fresh system, the client is
  its symbolizer, and after the handle's shutdown the client is dropped.\<close>

definition drop_client :: "worker_sys \<Rightarrow> worker_sys" where
  "drop_client s = (case drop_clients s of None \<Rightarrow> s | Some s' \<Rightarrow> s')"

definition spawn_introspection_worker ::
  "nat \<Rightarrow> backend \<Rightarrow> nat \<Rightarrow> str + unit \<Rightarrow> bool
    \<Rightarrow> ('w \<times> worker_sys, symbolize_error, ('w \<times> worker_sys) introspection_worker) io" where
  "spawn_introspection_worker capacity backend patience thread_spawn panics = (\<lambda>(w, v).
     case spawn_kernel_symbolizer thread_spawn panics of
       Inl e \<Rightarrow> (Inl e, (w, v))
     | Inr s \<Rightarrow>
         (Inr (kernel_introspection_worker (\<lambda>addr. on_snd (client_symbolize capacity backend patience addr))
            (on_snd (handle_shutdown backend patience)) (\<lambda>(w, s). (w, drop_client s))), (w, s)))"

end
