(* ===== verification/Worker_Client_Facts.thy ===== *)
theory Worker_Client_Facts
  imports Worker_Client Worker_Facts Introspect_Facts
begin

text \<open>
  What the worker gives its users: every submitted call can return after a bounded number of the
  worker's own steps; a call and a shutdown that run alone are runs of the interleaved system; and
  towards one client the thread, its queue and its lifecycle are transparent: the answers are those
  of the backend called directly, up to the first panic.
\<close>

section \<open>No call waits for ever\<close>

text \<open>The steps before the next request leaves the worker's hands.\<close>

definition live_rank :: "worker_pc \<Rightarrow> nat" where
  "live_rank pc = (case pc of
     Finishing \<Rightarrow> 7 | Polling \<Rightarrow> 6 | Checking \<Rightarrow> 5 | Receiving \<Rightarrow> 4 | Rejecting e u \<Rightarrow> 4 | Beginning r \<Rightarrow> 3
   | Stopping \<Rightarrow> 3 | Calling r \<Rightarrow> 2 | Refusing r e \<Rightarrow> 2 | Leaving u \<Rightarrow> 2 | Replying r res \<Rightarrow> 1 | Panicking r \<Rightarrow> 1
   | PanicReplying r \<Rightarrow> 0 | Exited u \<Rightarrow> 0 | Unreachable \<Rightarrow> 0)"

definition live_work :: "worker_sys \<Rightarrow> nat" where
  "live_work s = 8 * length (pending s) + live_rank (wk_pc s)"

lemma live_work_decreases:
  assumes "inv_pc s" "pending s \<noteq> []" "\<not> exited (worker_step backend s)" "\<not> exited s"
  shows "live_work (worker_step backend s) < live_work s"
  using assms
  by (cases "wk_pc s")
    (auto simp: live_work_def live_rank_def worker_defs try_recv_def pending_def lifecycle_defs exited_def
      inv_pc_def pc_ok_def split: option.splits list.splits if_splits)

definition can_return :: "nat \<Rightarrow> worker_sys \<Rightarrow> bool" where
  "can_return i s \<longleftrightarrow> call_receive i s \<noteq> None \<or> call_disconnected i s \<noteq> None"

lemma reachable_worker: "reachable capacity backend s \<Longrightarrow> reachable capacity backend (worker_step backend s)"
  unfolding reachable_def by (erule rtranclp.rtrancl_into_rtrancl) (rule sys_step.worker)

lemma can_returnI:
  assumes "call_at s i = Some (Waiting a)" "wk_replies s i \<noteq> None \<or> i \<notin> rq_id ` set (pending s)"
  shows "can_return i s"
  using assms by (cases "wk_replies s i") (auto simp: can_return_def call_receive_def call_disconnected_def)

lemma exited_pending:
  assumes "reachable capacity backend s" "exited s"
  shows "pending s = []"
  using reachable_inv_handle [OF assms(1)] assms(2) by (auto simp: inv_handle_def pending_def exited_def split: worker_pc.splits)

lemma waiting_call_can_return:
  assumes "reachable capacity backend s" "call_at s i = Some (Waiting a)"
  shows "\<exists>n\<le>live_work s. can_return i ((worker_step backend ^^ n) s)"
  using assms
proof (induction "live_work s" arbitrary: s rule: less_induct)
  case less
  show ?case
  proof (cases "wk_replies s i \<noteq> None \<or> i \<notin> rq_id ` set (pending s)")
    case True
    from can_returnI [OF less.prems(2) True] show ?thesis by (intro exI [of _ 0]) simp
  next
    case False
    let ?t = "worker_step backend s"
    have t: "reachable capacity backend ?t" "call_at ?t i = Some (Waiting a)"
      using less.prems by (simp_all add: reachable_worker)
    from False exited_pending [OF less.prems(1)] have s: "pending s \<noteq> []" "\<not> exited s" by auto
    show ?thesis
    proof (cases "exited ?t")
      case True
      with exited_pending [OF t(1)] have "can_return i ?t" by (intro can_returnI [OF t(2)]) simp
      moreover have "0 < live_work s" using s(1) by (simp add: live_work_def)
      ultimately show ?thesis by (intro exI [of _ "Suc 0"]) simp
    next
      case False
      have dec: "live_work ?t < live_work s"
        by (rule live_work_decreases [OF reachable_inv_pc [OF less.prems(1)] s(1) False s(2)])
      with less.hyps t obtain n where "n \<le> live_work ?t" "can_return i ((worker_step backend ^^ n) ?t)" by blast
      with dec show ?thesis by (intro exI [of _ "Suc n"]) (simp add: funpow_swap1)
    qed
  qed
qed

lemma live_work_bound:
  assumes "reachable capacity backend s"
  shows "live_work s \<le> 8 * capacity + 15"
proof -
  have "length (wk_queue s) \<le> capacity" using reachable_inv [OF assms] by (simp add: inv_def inv_req_def)
  moreover have "length (held (wk_pc s)) \<le> 1" by (cases "wk_pc s") simp_all
  moreover have "live_rank (wk_pc s) \<le> 7" by (cases "wk_pc s") (simp_all add: live_rank_def)
  ultimately show ?thesis by (simp add: live_work_def pending_def)
qed

text \<open>C8: No client waits for ever: whatever the interleaving so far, a submitted call can return (with
  an answer, or because its request was dropped) after at most 8 steps of the worker for each place
  of the queue and 15 more, with no help of any other thread and whatever the backend answers.\<close>

theorem worker_answers_every_request:
  assumes "reachable capacity backend s" "call_at s i = Some (Waiting a)"
  shows "\<exists>n\<le>8 * capacity + 15. can_return i ((worker_step backend ^^ n) s)"
  using waiting_call_can_return [OF assms] live_work_bound [OF assms(1)] by (meson le_trans)

theorem worker_answers_every_request_witness:
  "\<exists>s n. schedule 2 echo_backend busy_schedule initial_sys = Some s \<and> n \<le> 31 \<and>
     can_return 1 ((worker_step echo_backend ^^ n) s)"
proof -
  have "(case schedule 2 echo_backend busy_schedule initial_sys of None \<Rightarrow> False
      | Some s \<Rightarrow> call_at s 1 = Some (Waiting 11))" by code_simp
  then obtain s where s: "schedule 2 echo_backend busy_schedule initial_sys = Some s" "call_at s 1 = Some (Waiting 11)"
    by (auto split: option.splits)
  from worker_answers_every_request [OF schedule_initial [OF s(1)] s(2)] s(1) show ?thesis by simp
qed

section \<open>A call that runs alone is a run of the system\<close>

lemma reachable_step: "reachable capacity backend s \<Longrightarrow> sys_step capacity backend s s' \<Longrightarrow> reachable capacity backend s'"
  unfolding reachable_def by (rule rtranclp.rtrancl_into_rtrancl)

lemma await_reply_reachable:
  "reachable capacity backend s \<Longrightarrow> await_reply backend i n s = Some s' \<Longrightarrow> reachable capacity backend s'"
proof (induction backend i n s rule: await_reply.induct)
  case (1 backend i s)
  then show ?case
    by (auto split: option.splits intro: reachable_step [OF _ sys_step.receive] reachable_step [OF _ sys_step.timeout])
next
  case (2 backend i patience s)
  then show ?case
    by (auto split: option.splits intro: reachable_step [OF _ sys_step.receive] reachable_step [OF _ sys_step.disconnected]
        simp: reachable_worker)
qed

lemma symbolize_inner_reachable:
  assumes "reachable capacity backend s" "symbolize_inner capacity backend patience addr s = Some s'"
  shows "reachable capacity backend s'"
proof -
  let ?i = "length (wk_calls s)"
  from assms(2) obtain s1 s2 where s: "call_start addr s = Some s1" "call_check ?i s1 = Some s2"
    "(if returned ?i s2 then Some s2 else Option.bind (call_send capacity ?i s2) (\<lambda>s3.
        if returned ?i s3 then Some s3 else await_reply backend ?i patience s3)) = Some s'"
    by (auto simp: symbolize_inner_def Let_def bind_eq_Some_conv)
  from reachable_step [OF reachable_step [OF assms(1) sys_step.start [OF s(1)]] sys_step.check [OF s(2)]]
  have r: "reachable capacity backend s2" .
  show ?thesis
  proof (cases "returned ?i s2")
    case True
    with s(3) r show ?thesis by simp
  next
    case False
    with s(3) obtain s3 where s3: "call_send capacity ?i s2 = Some s3"
      "s' = s3 \<or> await_reply backend ?i patience s3 = Some s'"
      by (auto simp: bind_eq_Some_conv split: if_splits)
    from reachable_step [OF r sys_step.send [OF s3(1)]] s3(2) await_reply_reachable show ?thesis by blast
  qed
qed

text \<open>While a client exists, a call that runs alone returns.\<close>

lemma await_reply_total:
  assumes "call_at s i = Some (Waiting a)"
  shows "\<exists>s' r. await_reply backend i n s = Some s' \<and> call_at s' i = Some (Returned a r)"
  using assms
proof (induction n arbitrary: s)
  case 0
  then show ?case
    by (cases "wk_replies s i") (auto simp: call_receive_def call_timeout_def call_at_set_call)
next
  case (Suc n)
  show ?case
  proof (cases "call_receive i s = None \<and> call_disconnected i s = None")
    case True
    with Suc.IH [of "worker_step backend s"] Suc.prems show ?thesis by simp
  next
    case False
    with Suc.prems show ?thesis
      by (cases "wk_replies s i")
        (auto simp: call_receive_def call_disconnected_def call_at_set_call split: if_splits)
  qed
qed

lemma call_at_length: "i < length (wk_calls s) \<Longrightarrow> call_at s i = Some (wk_calls s ! i)"
  by (simp add: call_at_def)

lemma call_send_total:
  assumes "call_at s i = Some (Checked a)"
  shows "\<exists>s'. call_send capacity i s = Some s' \<and>
    (call_at s' i = Some (Waiting a) \<or> (\<exists>r. call_at s' i = Some (Returned a r)))"
  using assms
  by (cases "try_send capacity (wk_queue s) \<lparr>rq_id = i, rq_addr = a\<rparr>") (simp_all add: call_send_def call_at_set_call)

lemma symbolize_inner_total:
  assumes "wk_clients s"
  shows "\<exists>s' r. symbolize_inner capacity backend patience addr s = Some s' \<and>
    call_at s' (length (wk_calls s)) = Some (Returned addr r)"
proof -
  let ?i = "length (wk_calls s)"
  let ?s1 = "s\<lparr>wk_calls := wk_calls s @ [Starting addr]\<rparr>"
  have s1: "call_start addr s = Some ?s1" "call_at ?s1 ?i = Some (Starting addr)"
    using assms by (simp_all add: call_start_def call_at_def)
  define c where "c = (case terminal_error (wk_state s) of None \<Rightarrow> Checked addr | Some e \<Rightarrow> Returned addr (Inl e))"
  let ?s2 = "set_call ?i c ?s1"
  have s2: "call_check ?i ?s1 = Some ?s2" "call_at ?s2 ?i = Some c"
    using s1(2) by (simp_all add: call_check_def c_def call_at_set_call)
  show ?thesis
  proof (cases "terminal_error (wk_state s)")
    case (Some e)
    with s1 s2 show ?thesis by (auto simp: symbolize_inner_def Let_def c_def returned_def is_returned_def)
  next
    case None
    then have c: "c = Checked addr" by (simp add: c_def)
    with call_send_total [of ?s2 ?i addr] s2(2) obtain s3 where s3: "call_send capacity ?i ?s2 = Some s3"
      "call_at s3 ?i = Some (Waiting addr) \<or> (\<exists>r. call_at s3 ?i = Some (Returned addr r))" by blast
    have "\<not> returned ?i ?s2" using s2(2) c by (simp add: returned_def is_returned_def)
    with s1(1) s2(1) s3(1) have run: "symbolize_inner capacity backend patience addr s =
        (if returned ?i s3 then Some s3 else await_reply backend ?i patience s3)"
      by (simp add: symbolize_inner_def Let_def)
    from s3(2) show ?thesis
    proof
      assume w: "call_at s3 ?i = Some (Waiting addr)"
      then have "\<not> returned ?i s3" by (simp add: returned_def is_returned_def)
      with await_reply_total [OF w] run show ?thesis by simp
    next
      assume "\<exists>r. call_at s3 ?i = Some (Returned addr r)"
      then show ?thesis using run by (auto simp: returned_def is_returned_def)
    qed
  qed
qed

lemma client_symbolize_run:
  assumes "wk_clients s" "client_symbolize capacity backend patience addr s = (r, s')"
  shows "symbolize_inner capacity backend patience addr s = Some s'"
    "call_at s' (length (wk_calls s)) = Some (Returned addr r)"
proof -
  from symbolize_inner_total [OF assms(1)] obtain t q where
    t: "symbolize_inner capacity backend patience addr s = Some t"
      "call_at t (length (wk_calls s)) = Some (Returned addr q)" by blast
  with assms(2) have "t = s'" "q = r" by (simp_all add: client_symbolize_def call_result_def)
  with t show "symbolize_inner capacity backend patience addr s = Some s'"
    "call_at s' (length (wk_calls s)) = Some (Returned addr r)" by simp_all
qed

section \<open>Towards one client the worker is transparent\<close>

text \<open>The backend called directly: the world counts the calls, and is \<open>None\<close> after a panic.\<close>

definition direct_symbolize :: "backend \<Rightarrow> nat option symbolizer" where
  "direct_symbolize backend addr m =
     (case m of
        None \<Rightarrow> (Inl WorkerPanic, None)
      | Some n \<Rightarrow>
          (case backend n addr of
             None \<Rightarrow> (Inl WorkerPanic, None)
           | Some res \<Rightarrow> (res, Some (Suc n))))"

definition idle :: "worker_sys \<Rightarrow> bool" where
  "idle s \<longleftrightarrow> wk_pc s = Finishing \<and> wk_state s = Executing \<or>
     wk_state s = Running \<and> (wk_pc s = Polling \<or> wk_pc s = Checking \<or> wk_pc s = Receiving)"

text \<open>The worker stands between two calls of its one client, in the situation \<open>m\<close> of the backend.\<close>

definition serves :: "worker_sys \<Rightarrow> nat option \<Rightarrow> bool" where
  "serves s m \<longleftrightarrow> wk_clients s \<and> wk_handle s = Holding \<and> wk_queue s = [] \<and>
     (\<forall>i\<ge>length (wk_calls s). wk_replies s i = None) \<and>
     (case m of
        Some n \<Rightarrow> idle s \<and> wk_served s = n
      | None \<Rightarrow> wk_state s = Panicked \<and> wk_pc s = Rejecting WorkerPanic True)"

lemma serves_initial: "serves initial_sys (Some 0)"
  by (simp add: serves_def idle_def initial_sys_def)

lemma await_pending:
  assumes "wk_replies t i = None" "i \<in> rq_id ` set (pending t)"
  shows "await_reply backend i (Suc n) t = await_reply backend i n (worker_step backend t)"
  using assms by (auto simp: call_receive_def call_disconnected_def split: option.split call.split)

lemma await_answered:
  assumes "call_at t i = Some (Waiting a)" "wk_replies t i = Some res"
  shows "await_reply backend i n t = Some (set_call i (Returned a res) t)"
  using assms by (cases n) (simp_all add: call_receive_def)

text \<open>The way of a request from the queue to its answer.\<close>

definition answered :: "backend \<Rightarrow> request \<Rightarrow> worker_sys \<Rightarrow> worker_sys" where
  "answered backend r t =
     (case backend (wk_served t) (rq_addr r) of
        Some res \<Rightarrow> reply r res (t\<lparr>wk_queue := [], wk_pc := Finishing, wk_state := Executing, wk_served := Suc (wk_served t)\<rparr>)
      | None \<Rightarrow> reply r (Inl WorkerPanic)
          (t\<lparr>wk_queue := [], wk_pc := Rejecting WorkerPanic True, wk_state := Panicked, wk_served := Suc (wk_served t)\<rparr>))"

definition answer_of :: "backend \<Rightarrow> request \<Rightarrow> worker_sys \<Rightarrow> sym_result" where
  "answer_of backend r t = (case backend (wk_served t) (rq_addr r) of Some res \<Rightarrow> res | None \<Rightarrow> Inl WorkerPanic)"

lemma await_from_receiving:
  assumes "wk_queue t = [r]" "wk_state t = Running" "wk_pc t = Receiving" "wk_replies t (rq_id r) = None"
    and "call_at t (rq_id r) = Some (Waiting a)" "5 \<le> n"
  shows "await_reply backend (rq_id r) n t = Some (set_call (rq_id r) (Returned a (answer_of backend r t)) (answered backend r t))"
proof -
  from assms(6) obtain k where n: "n = Suc (Suc (Suc (Suc (Suc k))))"
    by (auto simp: numeral_eq_Suc Suc_le_eq dest!: less_imp_Suc_add) 
  let ?t1 = "t\<lparr>wk_queue := [], wk_pc := Beginning r\<rparr>"
  let ?t2 = "t\<lparr>wk_queue := [], wk_pc := Calling r, wk_state := Executing\<rparr>"
  have w: "worker_step backend t = ?t1" "worker_step backend ?t1 = ?t2"
    using assms(1-3) by (simp_all add: worker_defs try_recv_def begin_request_def)
  have a: "await_reply backend (rq_id r) n t = await_reply backend (rq_id r) (Suc (Suc (Suc k))) ?t2"
    using assms(1,4) by (simp add: n await_pending w pending_def del: await_reply.simps)
  show ?thesis
  proof (cases "backend (wk_served t) (rq_addr r)")
    case None
    let ?t3 = "?t2\<lparr>wk_served := Suc (wk_served t), wk_pc := Panicking r\<rparr>"
    let ?t4 = "?t2\<lparr>wk_served := Suc (wk_served t), wk_state := Panicked, wk_pc := PanicReplying r\<rparr>"
    have "worker_step backend ?t2 = ?t3" "worker_step backend ?t3 = ?t4"
      using None by (simp_all add: worker_defs mark_panicked_def)
    moreover have "worker_step backend ?t4 = answered backend r t"
      using None by (simp add: worker_defs answered_def)
    moreover have "wk_replies (answered backend r t) (rq_id r) = Some (answer_of backend r t)"
      "call_at (answered backend r t) (rq_id r) = Some (Waiting a)"
      using None assms(5) by (simp_all add: answered_def answer_of_def reply_def)
    ultimately show ?thesis
      using assms(4) by (simp add: a await_pending await_answered del: await_reply.simps)
  next
    case (Some res)
    let ?t3 = "?t2\<lparr>wk_served := Suc (wk_served t), wk_pc := Replying r res\<rparr>"
    have "worker_step backend ?t2 = ?t3"
      using Some by (simp add: worker_defs)
    moreover have "worker_step backend ?t3 = answered backend r t"
      using Some by (simp add: worker_defs answered_def)
    moreover have "wk_replies (answered backend r t) (rq_id r) = Some (answer_of backend r t)"
      "call_at (answered backend r t) (rq_id r) = Some (Waiting a)"
      using Some assms(5) by (simp_all add: answered_def answer_of_def reply_def)
    ultimately show ?thesis
      using assms(4) by (simp add: a await_pending await_answered del: await_reply.simps)
  qed
qed

lemma answered_update [simp]:
  "answered backend r (t\<lparr>wk_pc := pc\<rparr>) = answered backend r t" "answer_of backend r (t\<lparr>wk_pc := pc\<rparr>) = answer_of backend r t"
  "answered backend r (t\<lparr>wk_state := st\<rparr>) = answered backend r t"
  "answer_of backend r (t\<lparr>wk_state := st\<rparr>) = answer_of backend r t"
  by (simp_all add: answered_def answer_of_def reply_def split: option.split)

lemma await_from_checking:
  assumes "wk_queue t = [r]" "wk_state t = Running" "wk_pc t = Checking" "wk_replies t (rq_id r) = None"
    and "call_at t (rq_id r) = Some (Waiting a)" "6 \<le> n"
  shows "await_reply backend (rq_id r) n t = Some (set_call (rq_id r) (Returned a (answer_of backend r t)) (answered backend r t))"
proof -
  from assms(6) obtain k where n: "n = Suc k" "5 \<le> k" by (cases n) auto
  have "worker_step backend t = t\<lparr>wk_pc := Receiving\<rparr>"
    using assms(2,3) by (simp add: worker_step_def is_shutdown_requested_def)
  with await_from_receiving [of "t\<lparr>wk_pc := Receiving\<rparr>" r a k] assms n(2) show ?thesis
    by (simp add: n(1) await_pending pending_def del: await_reply.simps)
qed

lemma await_from_polling:
  assumes "wk_queue t = [r]" "wk_state t = Running" "wk_pc t = Polling" "wk_replies t (rq_id r) = None"
    and "call_at t (rq_id r) = Some (Waiting a)" "7 \<le> n" "wk_handle t = Holding"
  shows "await_reply backend (rq_id r) n t = Some (set_call (rq_id r) (Returned a (answer_of backend r t)) (answered backend r t))"
proof -
  from assms(6) obtain k where n: "n = Suc k" "6 \<le> k" by (cases n) auto
  have "worker_step backend t = t\<lparr>wk_pc := Checking\<rparr>"
    using assms(3,7) by (simp add: worker_step_def shutdown_signalled_def)
  with await_from_checking [of "t\<lparr>wk_pc := Checking\<rparr>" r a k] assms n(2) show ?thesis
    by (simp add: n(1) await_pending pending_def del: await_reply.simps)
qed

lemma await_from_finishing:
  assumes "wk_queue t = [r]" "wk_state t = Executing" "wk_pc t = Finishing" "wk_replies t (rq_id r) = None"
    and "call_at t (rq_id r) = Some (Waiting a)" "8 \<le> n" "wk_handle t = Holding"
  shows "await_reply backend (rq_id r) n t = Some (set_call (rq_id r) (Returned a (answer_of backend r t)) (answered backend r t))"
proof -
  from assms(6) obtain k where n: "n = Suc k" "7 \<le> k" by (cases n) auto
  have "worker_step backend t = t\<lparr>wk_state := Running, wk_pc := Polling\<rparr>"
    using assms(2,3) by (simp add: worker_step_def finish_step_def finish_request_def)
  with await_from_polling [of "t\<lparr>wk_state := Running, wk_pc := Polling\<rparr>" r a k] assms n(2) show ?thesis
    by (simp add: n(1) await_pending pending_def del: await_reply.simps)
qed

lemma await_from_idle:
  assumes "idle t" "wk_queue t = [r]" "wk_handle t = Holding" "wk_replies t (rq_id r) = None"
    and "call_at t (rq_id r) = Some (Waiting a)" "8 \<le> n"
  shows "await_reply backend (rq_id r) n t = Some (set_call (rq_id r) (Returned a (answer_of backend r t)) (answered backend r t))"
  using assms(1) unfolding idle_def
proof (elim disjE conjE)
  assume "wk_pc t = Finishing" "wk_state t = Executing"
  with assms(2-6) show ?thesis by (intro await_from_finishing)
next
  assume "wk_state t = Running" "wk_pc t = Polling"
  with assms(2-6) show ?thesis by (intro await_from_polling) simp_all
next
  assume "wk_state t = Running" "wk_pc t = Checking"
  with assms(2-6) show ?thesis by (intro await_from_checking) simp_all
next
  assume "wk_state t = Running" "wk_pc t = Receiving"
  with assms(2-6) show ?thesis by (intro await_from_receiving) simp_all
qed

text \<open>The first actions of a call: over at once after a panic, in the queue otherwise.\<close>

lemma symbolize_inner_panicked:
  assumes "wk_clients s" "wk_state s = Panicked"
  shows "symbolize_inner capacity backend patience addr s =
    Some (s\<lparr>wk_calls := wk_calls s @ [Returned addr (Inl WorkerPanic)]\<rparr>)"
  using assms
  by (simp add: symbolize_inner_def call_start_def call_check_def call_at_def terminal_error_def set_call_def
      returned_def is_returned_def)

definition queued :: "u64 \<Rightarrow> worker_sys \<Rightarrow> worker_sys" where
  "queued addr s = s\<lparr>wk_calls := wk_calls s @ [Waiting addr],
     wk_queue := [\<lparr>rq_id = length (wk_calls s), rq_addr = addr\<rparr>]\<rparr>"

lemma symbolize_inner_queued:
  assumes "wk_clients s" "idle s" "wk_queue s = []" "0 < capacity"
  shows "symbolize_inner capacity backend patience addr s =
    await_reply backend (length (wk_calls s)) patience (queued addr s)"
proof -
  let ?i = "length (wk_calls s)"
  let ?s1 = "s\<lparr>wk_calls := wk_calls s @ [Starting addr]\<rparr>"
  let ?s2 = "s\<lparr>wk_calls := wk_calls s @ [Checked addr]\<rparr>"
  from assms(2) have "terminal_error (wk_state s) = None" "\<not> exited s"
    by (auto simp: idle_def terminal_error_def exited_def)
  then have "call_start addr s = Some ?s1" "call_check ?i ?s1 = Some ?s2"
    "call_send capacity ?i ?s2 = Some (queued addr s)"
    using assms(1,3,4)
    by (simp_all add: call_start_def call_check_def call_send_def call_at_def set_call_def exited_def try_send_def queued_def)
  moreover have "\<not> returned ?i ?s2" "\<not> returned ?i (queued addr s)"
    by (simp_all add: returned_def call_at_def is_returned_def queued_def)
  ultimately show ?thesis by (simp add: symbolize_inner_def)
qed

text \<open>One call: the answer is the backend's own, and the worker stands ready for the next.\<close>

lemma client_simulates_direct:
  assumes "serves s m" "0 < capacity" "8 \<le> patience"
    and "direct_symbolize backend addr m = (r, m')"
  shows "\<exists>s'. client_symbolize capacity backend patience addr s = (r, s') \<and> serves s' m'"
proof (cases m)
  case None
  with assms(1,4) symbolize_inner_panicked [of s capacity backend patience addr] show ?thesis
    by (auto simp: serves_def direct_symbolize_def client_symbolize_def call_result_def call_at_def)
next
  case (Some n)
  let ?i = "length (wk_calls s)" and ?q = "queued addr s"
  let ?r = "\<lparr>rq_id = ?i, rq_addr = addr\<rparr>"
  from assms(1) Some have s: "wk_clients s" "wk_handle s = Holding" "wk_queue s = []" "idle s" "wk_served s = n"
    "\<forall>i\<ge>?i. wk_replies s i = None" by (simp_all add: serves_def)
  let ?t = "set_call ?i (Returned addr (answer_of backend ?r ?q)) (answered backend ?r ?q)"
  have "symbolize_inner capacity backend patience addr s = Some ?t"
    using symbolize_inner_queued [OF s(1,4,3) assms(2)] await_from_idle [of ?q ?r addr patience backend] s assms(3)
    by (simp add: queued_def idle_def call_at_def)
  moreover have "call_at ?t ?i = Some (Returned addr (answer_of backend ?r ?q))"
    by (simp add: answered_def reply_def queued_def call_at_def set_call_def split: option.split)
  ultimately have run: "client_symbolize capacity backend patience addr s = (answer_of backend ?r ?q, ?t)"
    by (simp add: client_symbolize_def call_result_def)
  have "answer_of backend ?r ?q = r" "serves ?t m'"
    using assms(4) Some s
    by (auto simp: direct_symbolize_def answer_of_def answered_def reply_def queued_def serves_def idle_def set_call_def
        split: option.splits)
  with run show ?thesis by blast
qed

section \<open>A shutdown that runs alone\<close>

lemma await_exit_joins:
  assumes "\<And>t. P t \<Longrightarrow> P (worker_step backend t) \<and> inv_pc t \<and> terminal_error (wk_state t) \<noteq> None \<and> wk_handle t = Signalled b"
  shows "P s \<Longrightarrow> shutdown_work s \<le> n \<Longrightarrow>
    \<exists>t u. P t \<and> wk_pc t = Exited u \<and> await_exit backend n s = Some (t\<lparr>wk_handle := Joined (join_result b u)\<rparr>)"
proof (induction n arbitrary: s)
  case 0
  note facts = assms [OF 0(1)]
  have "wk_pc s \<noteq> Unreachable" using facts by (auto simp: inv_pc_def pc_ok_def)
  with 0 obtain u where "wk_pc s = Exited u" by (auto simp: shutdown_work_def pc_rank_def split: worker_pc.splits)
  with 0 facts show ?case by (auto simp: handle_join_def)
next
  case (Suc n)
  note facts = assms [OF Suc.prems(1)]
  show ?case
  proof (cases "exited s")
    case True
    then obtain u where "wk_pc s = Exited u" by (auto simp: exited_def split: worker_pc.splits)
    with Suc.prems facts show ?thesis by (auto simp: handle_join_def)
  next
    case False
    have dec: "shutdown_work (worker_step backend s) \<le> n"
      using shutdown_work_decreases [of s backend] facts False Suc.prems(2) by fastforce
    from False facts have "handle_join s = None" by (auto simp: handle_join_def exited_def split: worker_pc.splits)
    with Suc.IH [OF _ dec] facts show ?thesis by simp
  qed
qed

text \<open>The worker on its way out, after a stop and after a panic.\<close>

definition stopping_quietly :: "worker_sys \<Rightarrow> bool" where
  "stopping_quietly s \<longleftrightarrow> wk_queue s = [] \<and> wk_handle s = Signalled True \<and>
     (wk_state s = ShutdownRequested \<and>
        wk_pc s \<in> {Finishing, Polling, Checking, Receiving, Rejecting WorkerStopped False, Stopping} \<or>
      wk_state s = Stopped \<and> wk_pc s \<in> {Leaving False, Exited False})"

definition unwinding :: "worker_sys \<Rightarrow> bool" where
  "unwinding s \<longleftrightarrow> wk_queue s = [] \<and> wk_handle s = Signalled False \<and> wk_state s = Panicked \<and>
     wk_pc s \<in> {Rejecting WorkerPanic True, Leaving True, Exited True}"

lemma stopping_quietly_step:
  assumes "stopping_quietly t"
  shows "stopping_quietly (worker_step backend t) \<and> inv_pc t \<and> terminal_error (wk_state t) \<noteq> None \<and> wk_handle t = Signalled True"
  using assms
  by (auto simp: stopping_quietly_def worker_defs try_recv_def lifecycle_defs shutdown_signalled_def inv_pc_def pc_ok_def
      split: if_splits)

lemma unwinding_step:
  assumes "unwinding t"
  shows "unwinding (worker_step backend t) \<and> inv_pc t \<and> terminal_error (wk_state t) \<noteq> None \<and> wk_handle t = Signalled False"
  using assms
  by (auto simp: unwinding_def worker_defs try_recv_def lifecycle_defs inv_pc_def pc_ok_def)

lemma shutdown_of_serving:
  assumes "serves s m" "6 \<le> patience"
  shows "\<exists>s'. handle_shutdown backend patience s = (case m of None \<Rightarrow> Inl WorkerPanic | Some n \<Rightarrow> Inr (), s')"
proof (cases m)
  case None
  let ?t = "s\<lparr>wk_handle := Signalled False\<rparr>"
  have t: "unwinding ?t" "shutdown_work ?t \<le> patience"
    using assms None by (auto simp: serves_def unwinding_def shutdown_work_def pc_rank_def)
  from await_exit_joins [of unwinding, OF unwinding_step t] obtain v u where
    v: "unwinding v" "wk_pc v = Exited u" "await_exit backend patience ?t = Some (v\<lparr>wk_handle := Joined (join_result False u)\<rparr>)"
    by blast
  from v(1,2) have "u" by (simp add: unwinding_def)
  moreover have "handle_request s = Some (s\<lparr>wk_handle := Requested False\<rparr>)"
    using assms(1) None by (simp add: serves_def handle_request_def request_shutdown_def)
  ultimately show ?thesis
    using v(3) None by (simp add: handle_shutdown_def handle_signal_def shutdown_report_def join_result_def)
next
  case (Some n)
  let ?t = "s\<lparr>wk_state := ShutdownRequested, wk_handle := Signalled True\<rparr>"
  have t: "stopping_quietly ?t" "shutdown_work ?t \<le> patience"
    using assms Some by (auto simp: serves_def idle_def stopping_quietly_def shutdown_work_def pc_rank_def)
  from await_exit_joins [of stopping_quietly, OF stopping_quietly_step t] obtain v u where
    v: "stopping_quietly v" "wk_pc v = Exited u" "await_exit backend patience ?t = Some (v\<lparr>wk_handle := Joined (join_result True u)\<rparr>)"
    by blast
  from v(1,2) have "\<not> u" by (auto simp: stopping_quietly_def)
  moreover have "handle_request s = Some (s\<lparr>wk_state := ShutdownRequested, wk_handle := Requested True\<rparr>)"
    using assms(1) Some by (auto simp: serves_def idle_def handle_request_def request_shutdown_def)
  ultimately show ?thesis
    using v(3) Some by (simp add: handle_shutdown_def handle_signal_def shutdown_report_def join_result_def)
qed

section \<open>Simulation of the use case\<close>

text \<open>A program on the first world answers as one on the second.\<close>

definition io_sim :: "('w \<Rightarrow> 'v \<Rightarrow> bool) \<Rightarrow> ('w, 'e, 'a) io \<Rightarrow> ('v, 'e, 'a) io \<Rightarrow> bool" where
  "io_sim R m1 m2 \<longleftrightarrow> (\<forall>w v. R w v \<longrightarrow> fst (m1 w) = fst (m2 v) \<and> R (snd (m1 w)) (snd (m2 v)))"

lemma io_simI: "(\<And>w v. R w v \<Longrightarrow> fst (m1 w) = fst (m2 v) \<and> R (snd (m1 w)) (snd (m2 v))) \<Longrightarrow> io_sim R m1 m2"
  by (simp add: io_sim_def)

lemma io_simD: "io_sim R m1 m2 \<Longrightarrow> R w v \<Longrightarrow> m2 v = (r, v') \<Longrightarrow> \<exists>w'. m1 w = (r, w') \<and> R w' v'"
  unfolding io_sim_def by (cases "m1 w") fastforce

lemma io_sim_lift: "io_sim R (io_lift r) (io_lift r)"
  by (simp add: io_sim_def)

lemma io_sim_bind:
  assumes "io_sim R m1 m2" "\<And>x. io_sim R (f1 x) (f2 x)"
  shows "io_sim R (io_bind m1 f1) (io_bind m2 f2)"
proof (rule io_simI)
  fix w v
  assume "R w v"
  obtain r v' where m2: "m2 v = (r, v')" by fastforce
  from io_simD [OF assms(1) \<open>R w v\<close> m2] obtain w' where "m1 w = (r, w')" "R w' v'" by blast
  with m2 assms(2) show "fst (io_bind m1 f1 w) = fst (io_bind m2 f2 v) \<and> R (snd (io_bind m1 f1 w)) (snd (io_bind m2 f2 v))"
    by (cases r) (simp_all add: io_bind_def io_sim_def)
qed

lemma hotspot_frames_sim:
  assumes "\<And>a. io_sim R (symbolize1 a) (symbolize2 a)"
  shows "R w v \<Longrightarrow> fst (hotspot_frames symbolize1 idx stack w) = fst (hotspot_frames symbolize2 idx stack v) \<and>
    R (snd (hotspot_frames symbolize1 idx stack w)) (snd (hotspot_frames symbolize2 idx stack v))"
proof (induction stack arbitrary: idx w v)
  case Nil
  then show ?case by simp
next
  case (Cons f stack)
  obtain addr_s raw where f: "f = (addr_s, raw)" by fastforce
  obtain r v' where v': "symbolize2 (frame_addr addr_s) v = (r, v')" by fastforce
  from io_simD [OF assms Cons.prems v'] obtain w' where w': "symbolize1 (frame_addr addr_s) w = (r, w')" "R w' v'" by blast
  with Cons.IH [OF w'(2), of "Suc idx"] v' show ?case
    by (cases r) (auto simp: f split: prod.splits)
qed

lemma build_hotspot_sim:
  assumes "\<And>a. io_sim R (symbolize1 a) (symbolize2 a)" "R w v"
  shows "fst (build_hotspot state stack symbolize1 w) = fst (build_hotspot state stack symbolize2 v) \<and>
    R (snd (build_hotspot state stack symbolize1 w)) (snd (build_hotspot state stack symbolize2 v))"
  using hotspot_frames_sim [where ?symbolize1.0 = symbolize1 and ?symbolize2.0 = symbolize2, OF assms, where idx = 0 and stack = "take (min mem_shape_top_n (length stack)) stack"] assms(2)
  by (auto simp: build_hotspot_def split: prod.splits)

lemma build_level0_sim:
  assumes "\<And>a. io_sim R (symbolize1 a) (symbolize2 a)"
  shows "io_sim R (build_level0 printable json_len pid snapshot st cpu span_ms symbolize1)
    (build_level0 printable json_len pid snapshot st cpu span_ms symbolize2)"
  unfolding build_level0_def
proof (intro io_sim_bind io_sim_lift io_simI, goal_cases)
  case (1 status1 parsed_maps1 w v)
  with build_hotspot_sim [where ?symbolize1.0 = symbolize1 and ?symbolize2.0 = symbolize2, OF assms,
      of w v "st_state st" "snapshot_stack snapshot"]
  show ?case by (auto simp: Let_def split: prod.splits)
qed

text \<open>What acts on the first part of the world only answers alike whatever the second part is.\<close>

definition on_second :: "('v \<Rightarrow> 'u \<Rightarrow> bool) \<Rightarrow> 'w \<times> 'v \<Rightarrow> 'w \<times> 'u \<Rightarrow> bool" where
  "on_second Q p q \<longleftrightarrow> fst p = fst q \<and> Q (snd p) (snd q)"

lemma on_fst_sim: "io_sim (on_second Q) (on_fst m) (on_fst m)"
  by (rule io_simI) (auto simp: on_second_def on_fst_def split: prod.splits)

lemma on_snd_sim:
  assumes "io_sim Q m1 m2"
  shows "io_sim (on_second Q) (on_snd m1) (on_snd m2)"
proof (rule io_simI)
  fix p q
  assume "on_second Q p q"
  then have "fst p = fst q" "Q (snd p) (snd q)" by (simp_all add: on_second_def)
  with assms have "fst (m1 (snd p)) = fst (m2 (snd q)) \<and> Q (snd (m1 (snd p))) (snd (m2 (snd q)))"
    by (simp add: io_sim_def)
  with \<open>fst p = fst q\<close> show "fst (on_snd m1 p) = fst (on_snd m2 q) \<and> on_second Q (snd (on_snd m1 p)) (snd (on_snd m2 q))"
    by (cases p; cases q) (auto simp: on_snd_def on_second_def split: prod.splits)
qed

lemma sample_cpu_on_fst:
  "sample_cpu (source_on_fst source) (clock_on_fst clock) interval pid start cpus
    = on_fst (sample_cpu source clock interval pid start cpus)"
  by (rule ext)
    (auto simp: sample_cpu_def on_fst_def source_on_fst_def clock_on_fst_def split: prod.splits sum.splits proc_error.splits)

lemma now_sim:
  fixes clock :: "'w sample_clock" and Q :: "'v \<Rightarrow> 'u \<Rightarrow> bool"
  assumes "\<And>t. io_sim (on_second Q) (f1 t) (f2 t)"
  shows "io_sim (on_second Q) (\<lambda>w. case ck_now (clock_on_fst clock) w of (t, w0) \<Rightarrow> f1 t w0)
    (\<lambda>w. case ck_now (clock_on_fst clock) w of (t, w0) \<Rightarrow> f2 t w0)"
proof (rule io_simI)
  fix p :: "'w \<times> 'v" and q :: "'w \<times> 'u"
  assume "on_second Q p q"
  moreover obtain t w' where "ck_now clock (fst p) = (t, w')" by fastforce
  moreover have "on_second Q (w', snd p) (w', snd q)" using calculation(1) by (simp add: on_second_def)
  ultimately show "fst (case ck_now (clock_on_fst clock) p of (t, w0) \<Rightarrow> f1 t w0) =
      fst (case ck_now (clock_on_fst clock) q of (t, w0) \<Rightarrow> f2 t w0) \<and>
    on_second Q (snd (case ck_now (clock_on_fst clock) p of (t, w0) \<Rightarrow> f1 t w0))
      (snd (case ck_now (clock_on_fst clock) q of (t, w0) \<Rightarrow> f2 t w0))"
    using assms by (cases p; cases q) (auto simp: clock_on_fst_def on_second_def io_sim_def)
qed

lemma source_on_fst_simps [simp]:
  "so_snapshot (source_on_fst source) pid = on_fst (so_snapshot source pid)"
  by (simp add: source_on_fst_def)

lemma introspect_from_ports_sim:
  assumes "\<And>a. io_sim Q (symbolize1 a) (symbolize2 a)"
  shows "io_sim (on_second Q)
    (introspect_from_ports printable json_len (source_on_fst source) (\<lambda>a. on_snd (symbolize1 a)) (clock_on_fst clock) interval pid)
    (introspect_from_ports printable json_len (source_on_fst source) (\<lambda>a. on_snd (symbolize2 a)) (clock_on_fst clock) interval pid)"
  unfolding introspect_from_ports_def source_on_fst_simps sample_cpu_on_fst
  by (intro io_sim_bind io_sim_lift now_sim on_fst_sim build_level0_sim on_snd_sim assms)

section \<open>The request with its worker\<close>

lemma client_sim:
  assumes "0 < capacity" "8 \<le> patience"
  shows "io_sim serves (client_symbolize capacity backend patience a) (direct_symbolize backend a)"
proof (rule io_simI)
  fix s m
  assume "serves s m"
  moreover obtain r m' where "direct_symbolize backend a m = (r, m')" by fastforce
  ultimately show "fst (client_symbolize capacity backend patience a s) = fst (direct_symbolize backend a m) \<and>
    serves (snd (client_symbolize capacity backend patience a s)) (snd (direct_symbolize backend a m))"
    using client_simulates_direct [OF _ assms] by fastforce
qed

text \<open>The request whose symbolizer is the backend itself, called from the first call on.\<close>

definition direct_introspection ::
  "(rchar \<Rightarrow> bool) \<Rightarrow> (level0 \<Rightarrow> u64) \<Rightarrow> i32 \<Rightarrow> 'w proc_source \<Rightarrow> 'w sample_clock \<Rightarrow> nat \<Rightarrow> backend \<Rightarrow> 'w
    \<Rightarrow> (proc_error + level0) \<times> 'w \<times> nat option" where
  "direct_introspection printable json_len pid source clock interval backend w =
     introspect_from_ports printable json_len (source_on_fst source) (\<lambda>a. on_snd (direct_symbolize backend a))
       (clock_on_fst clock) interval pid (w, Some 0)"

lemma started_is_initial: "spawn_kernel_symbolizer thread_spawn panics = Inr s \<Longrightarrow> s = initial_sys"
  by (auto simp: spawn_kernel_symbolizer_def spawn_worker_def kernel_backend_new_def rbind_def map_err_def
      split: sum.splits if_splits)

text \<open>The request without a worker: the symbolizer that always fails, so that the raw symbols stand.\<close>

definition raw_introspection ::
  "(rchar \<Rightarrow> bool) \<Rightarrow> (level0 \<Rightarrow> u64) \<Rightarrow> i32 \<Rightarrow> 'w proc_source \<Rightarrow> 'w sample_clock \<Rightarrow> nat \<Rightarrow> 'w
    \<Rightarrow> (proc_error + level0) \<times> 'w \<times> unit" where
  "raw_introspection printable json_len pid source clock interval w =
     introspect_from_ports printable json_len (source_on_fst source) (\<lambda>a. on_snd (io_lift (fallback_symbolize a)))
       (clock_on_fst clock) interval pid (w, ())"

lemma io_lift_on_snd: "io_lift r = on_snd (io_lift r)"
  by (simp add: fun_eq_iff on_snd_def io_lift_def)

lemma failed_start_answers:
  assumes "spawn_kernel_symbolizer thread_spawn panics = Inl start_error"
  shows "fst (assemble_default_introspection printable json_len pid (source_on_fst source) (clock_on_fst clock) interval
      (spawn_introspection_worker capacity backend patience thread_spawn panics) (w, v)) =
    (case raw_introspection printable json_len pid source clock interval w of
       (Inl e, w') \<Rightarrow> Inl e
     | (Inr l0, w') \<Rightarrow> Inr (record_symbolizer_degradation json_len (init_failed_reason start_error) l0))"
proof -
  let ?raw = "introspect_from_ports printable json_len (source_on_fst source) (\<lambda>a. on_snd (io_lift (fallback_symbolize a)))
    (clock_on_fst clock) interval pid"
  obtain r p where raw: "raw_introspection printable json_len pid source clock interval w = (r, p)" by (metis surj_pair)
  have "io_sim (on_second (\<lambda>_ _. True)) ?raw ?raw"
    by (rule introspect_from_ports_sim) (rule io_simI, simp add: io_lift_def)
  from io_simD [OF this, of "(w, v)" "(w, ())", OF _ raw [unfolded raw_introspection_def]] obtain q where
    "?raw (w, v) = (r, q)" by (auto simp: on_second_def)
  note run = this [folded io_lift_on_snd]
  have spawn: "spawn_introspection_worker capacity backend patience thread_spawn panics (w, v) = (Inl start_error, (w, v))"
    using assms by (simp add: spawn_introspection_worker_def)
  show ?thesis
  proof (cases "pid < 1")
    case True
    with run have "r = Inl (InvalidPid pid)" by (auto simp: introspect_from_ports_def io_bind_def validate_invalid)
    with True raw show ?thesis by (simp add: assemble_default_introspection_def io_bind_def validate_invalid)
  next
    case False
    with run raw spawn show ?thesis
      by (cases r)
        (simp_all add: assemble_default_introspection_def service_introspect_def io_bind_def validate_requested_pid_def)
  qed
qed

lemma started_worker_answers:
  assumes "0 < capacity" "8 \<le> patience" "spawn_kernel_symbolizer thread_spawn panics = Inr started"
  shows "fst (assemble_default_introspection printable json_len pid (source_on_fst source) (clock_on_fst clock) interval
      (spawn_introspection_worker capacity backend patience thread_spawn panics) (w, v)) =
    (case direct_introspection printable json_len pid source clock interval backend w of
       (Inl e, w') \<Rightarrow> Inl e
     | (Inr l0, w', Some n) \<Rightarrow> Inr l0
     | (Inr l0, w', None) \<Rightarrow> Inr (record_symbolizer_degradation json_len (shutdown_failed_reason WorkerPanic) l0))"
proof (cases "pid < 1")
  case True
  then show ?thesis
    by (simp add: assemble_default_introspection_def direct_introspection_def introspect_from_ports_def io_bind_def
        validate_requested_pid_def)
next
  case False
  let ?client = "introspect_from_ports printable json_len (source_on_fst source)
    (\<lambda>a. on_snd (client_symbolize capacity backend patience a)) (clock_on_fst clock) interval pid"
  obtain r w' m where d: "direct_introspection printable json_len pid source clock interval backend w = (r, w', m)"
    by (metis prod_cases3)
  from io_simD [OF introspect_from_ports_sim [OF client_sim [OF assms(1,2)]] _ d [unfolded direct_introspection_def], of "(w, initial_sys)"]
    serves_initial obtain s' where s': "?client (w, initial_sys) = (r, w', s')" "serves s' m"
    by (auto simp: on_second_def)
  have "6 \<le> patience" using assms(2) by simp
  from shutdown_of_serving [OF s'(2) this] obtain s'' where
    "handle_shutdown backend patience s' = (case m of None \<Rightarrow> Inl WorkerPanic | Some n \<Rightarrow> Inr (), s'')" by blast
  with s'(1) False d show ?thesis
    using assms(3) started_is_initial [OF assms(3)]
    by (cases m)
      (auto simp: assemble_default_introspection_def io_bind_def validate_requested_pid_def spawn_introspection_worker_def
        kernel_introspection_worker_def on_snd_def split: sum.split)
qed

text \<open>C2: The worker is transparent as long as no wait of a caller times out. Given a queue with room for a request and
  8 steps of the worker for each wait, a request that spawns the worker, sends every frame through its queue and shuts
  it down answers exactly as one that calls the backend directly; a panic of the backend shows, and only in this way:
  the frames after it fall back to the raw symbols, and the failed shutdown is recorded. When the thread cannot be
  started or its constructor panics, the answer is that of the raw symbols, with the failed start recorded.\<close>

theorem worker_is_transparent:
  assumes "0 < capacity" "8 \<le> patience"
  shows "fst (assemble_default_introspection printable json_len pid (source_on_fst source) (clock_on_fst clock) interval
      (spawn_introspection_worker capacity backend patience thread_spawn panics) (w, v)) =
    (case spawn_kernel_symbolizer thread_spawn panics of
       Inl start_error \<Rightarrow>
         (case raw_introspection printable json_len pid source clock interval w of
            (Inl e, w') \<Rightarrow> Inl e
          | (Inr l0, w') \<Rightarrow> Inr (record_symbolizer_degradation json_len (init_failed_reason start_error) l0))
     | Inr started \<Rightarrow>
         (case direct_introspection printable json_len pid source clock interval backend w of
            (Inl e, w') \<Rightarrow> Inl e
          | (Inr l0, w', Some n) \<Rightarrow> Inr l0
          | (Inr l0, w', None) \<Rightarrow> Inr (record_symbolizer_degradation json_len (shutdown_failed_reason WorkerPanic) l0)))"
proof (cases "spawn_kernel_symbolizer thread_spawn panics")
  case (Inl start_error)
  with failed_start_answers show ?thesis by simp
next
  case (Inr started)
  with started_worker_answers [OF assms] show ?thesis by simp
qed

lemma still_succeeds:
  "\<exists>l0 p. introspect_from_ports (\<lambda>_. True) json_len (source_on_fst (still_source ''D'')) symbolize (clock_on_fst tick_clock)
    interval 7 w = (Inr l0, p)"
proof -
  from still_parts obtain st status1 maps1 where p: "parse_stat (sn_stat (still_snapshot ''D'')) = Inr st" "st_pid st = 7"
    "st_process_start_time_ticks st = 500" "parse_status (sn_status (still_snapshot ''D'')) = Inr status1"
    "parse_maps_with_diagnostics (\<lambda>_. True) (sn_maps (still_snapshot ''D'')) = Inr maps1" by blast
  define end1 :: cpu_counters where
    "end1 = \<lparr>cc_process_ticks = 10, cc_system_ticks = 100, cc_process_start_time_ticks = 500\<rparr>"
  have source: "so_snapshot (source_on_fst (still_source ''D'')) 7 w = (Inr (still_snapshot ''D''), (\<lambda>(n, v). (Suc n, v)) w)"
    "so_cpu_counters (source_on_fst (still_source ''D'')) 7 w = (Inr end1, (\<lambda>(n, v). (Suc n, v)) w)"
    for w :: "nat \<times> 'v"
    by (cases w; simp add: source_on_fst_def on_fst_def still_source_def end1_def)+
  have parts: "sn_page_size_bytes (still_snapshot ''D'') \<noteq> 0"
    "cc_process_start_time_ticks end1 = st_process_start_time_ticks st"
    by (simp_all add: still_snapshot_def end1_def p)
  show ?thesis
    by (rule introspect_from_ports_succeeds [OF source _ parts(1) p(1,2) parts(2) p(4,5)]) simp
qed

lemma direct_still: "\<exists>l0 p. direct_introspection (\<lambda>_. True) (\<lambda>_. 1000) 7 (still_source ''D'') tick_clock
    default_sample_interval backend 0 = (Inr l0, p)"
  unfolding direct_introspection_def by (rule still_succeeds)

theorem worker_is_transparent_witness:
  "\<exists>l0 p. direct_introspection (\<lambda>_. True) (\<lambda>_. 1000) 7 (still_source ''D'') tick_clock default_sample_interval echo_backend 0
       = (Inr l0, p) \<and>
     fst (assemble_default_introspection (\<lambda>_. True) (\<lambda>_. 1000) 7 (source_on_fst (still_source ''D'')) (clock_on_fst tick_clock)
      default_sample_interval (spawn_introspection_worker 64 echo_backend 8 (Inr ()) False) (0, initial_sys)) =
       Inr (if snd p = None then record_symbolizer_degradation (\<lambda>_. 1000) (shutdown_failed_reason WorkerPanic) l0 else l0)"
proof -
  from direct_still obtain l0 p where "direct_introspection (\<lambda>_. True) (\<lambda>_. 1000) 7 (still_source ''D'') tick_clock
      default_sample_interval echo_backend 0 = (Inr l0, p)" by blast
  with worker_is_transparent [of 64 8 "\<lambda>_. True" "\<lambda>_. 1000" 7 "still_source ''D''" tick_clock default_sample_interval echo_backend "Inr ()" False 0 initial_sys]
  show ?thesis
    by (cases p) (auto simp: spawn_kernel_symbolizer_def spawn_worker_def kernel_backend_new_def split: option.splits)
qed

end
