(* ===== verification/Hotspot_Worker.thy ===== *)
theory Hotspot_Worker
  imports Worker_Client_Facts Level0_Facts
begin

text \<open>
  The hotspot over the real worker: what the symbols of an answer are worth when the request spawned the
  worker, sent every frame through its queue under whatever timeouts, and shut it down. The
  interleaved system of \<open>Worker\<close> supplies the facts, the answer carries them to the reader.
\<close>

section \<open>Answers of calls that were made\<close>

text \<open>A run cannot tell the backend from one that panics at the calls the run never made.\<close>

definition cut_backend :: "nat \<Rightarrow> backend \<Rightarrow> backend" where
  "cut_backend m backend n a = (if n < m then backend n a else None)"

lemma call_step_served: "wk_served (call_step backend r s) = Suc (wk_served s)"
  by (simp add: call_step_def split: option.split)

lemma worker_step_cut:
  assumes "wk_served (worker_step backend s) \<le> m"
  shows "worker_step (cut_backend m backend) s = worker_step backend s"
proof (cases "wk_pc s")
  case (Calling r)
  with assms have "wk_served s < m" by (simp add: worker_step_def call_step_served)
  with Calling show ?thesis by (simp add: worker_step_def call_step_def cut_backend_def)
qed (simp_all add: worker_step_def)

lemma sys_step_served: "sys_step capacity backend s s' \<Longrightarrow> wk_served s \<le> wk_served s'"
  by (erule sys_step.cases)
    (auto simp: worker_served call_defs call_disconnected_def set_call_def drop_clients_def handle_request_def
      handle_signal_def handle_join_def handle_give_up_def handle_drop_def
      split: option.splits call.splits prod.splits handle_pc.splits worker_pc.splits if_splits)

lemma sys_step_cut:
  assumes "sys_step capacity backend s s'" "wk_served s' \<le> m"
  shows "sys_step capacity (cut_backend m backend) s s'"
  using assms(1)
proof cases
  case worker
  with assms(2) sys_step.worker [of capacity "cut_backend m backend" s] show ?thesis by (simp add: worker_step_cut)
qed (auto intro: sys_step.intros)

lemma reachable_cut:
  assumes "reachable capacity backend s" "wk_served s \<le> m"
  shows "reachable capacity (cut_backend m backend) s"
  using assms unfolding reachable_def
proof (induction rule: rtranclp_induct)
  case (step s s')
  from sys_step_served [OF step.hyps(2)] step.prems have "wk_served s \<le> m" by simp
  with step.IH sys_step_cut [OF step.hyps(2) step.prems] show ?case by (meson rtranclp.rtrancl_into_rtrancl)
qed simp

text \<open>A symbol for an address that one of the first \<open>m\<close> calls of the backend gave.\<close>

definition given_by_call :: "backend \<Rightarrow> nat \<Rightarrow> u64 \<Rightarrow> symbolized \<Rightarrow> bool" where
  "given_by_call backend m a y \<longleftrightarrow> (\<exists>n<m. backend n a = Some (Inr y))"

lemma given_by_call_mono: "given_by_call backend m a y \<Longrightarrow> m \<le> m' \<Longrightarrow> given_by_call backend m' a y"
  unfolding given_by_call_def by (meson order_less_le_trans)

lemma returned_given:
  assumes "reachable capacity backend s" "call_at s i = Some (Returned a (Inr y))"
  shows "given_by_call backend (wk_served s) a y"
proof -
  from reachable_genuine [OF reachable_cut [OF assms(1) order_refl]] assms(2)
  have "genuine (cut_backend (wk_served s) backend) a (Inr y)" unfolding inv_genuine_def by blast
  then show ?thesis by (auto simp: genuine_def given_by_call_def cut_backend_def split: if_splits)
qed

section \<open>A client call\<close>

lemma await_reply_served: "await_reply backend i n s = Some s' \<Longrightarrow> wk_served s \<le> wk_served s'"
proof (induction backend i n s rule: await_reply.induct)
  case (1 backend i s)
  then show ?case
    by (auto split: option.splits dest: sys_step_served [OF sys_step.receive] sys_step_served [OF sys_step.timeout])
next
  case (2 backend i n s)
  show ?case
  proof (cases "call_receive i s = None \<and> call_disconnected i s = None")
    case True
    with 2 have "wk_served (worker_step backend s) \<le> wk_served s'" by simp
    with worker_served [of s backend] show ?thesis by simp
  next
    case False
    with 2(2) show ?thesis
      by (auto split: option.splits dest: sys_step_served [OF sys_step.receive] sys_step_served [OF sys_step.disconnected])
  qed
qed

lemma symbolize_inner_served:
  assumes "symbolize_inner capacity backend patience addr s = Some s'"
  shows "wk_served s \<le> wk_served s'"
proof -
  let ?i = "length (wk_calls s)"
  from assms obtain s1 s2 where s: "call_start addr s = Some s1" "call_check ?i s1 = Some s2"
    "(if returned ?i s2 then Some s2 else Option.bind (call_send capacity ?i s2) (\<lambda>s3.
        if returned ?i s3 then Some s3 else await_reply backend ?i patience s3)) = Some s'"
    by (auto simp: symbolize_inner_def Let_def bind_eq_Some_conv)
  from sys_step_served [OF sys_step.start [OF s(1)]] sys_step_served [OF sys_step.check [OF s(2)]]
  have start: "wk_served s \<le> wk_served s2" by simp
  show ?thesis
  proof (cases "returned ?i s2")
    case False
    with s(3) obtain s3 where s3: "call_send capacity ?i s2 = Some s3"
      "s' = s3 \<or> await_reply backend ?i patience s3 = Some s'"
      by (auto simp: bind_eq_Some_conv split: if_splits)
    with start sys_step_served [OF sys_step.send [OF s3(1)]] show ?thesis by (auto dest: await_reply_served)
  qed (use s(3) start in simp)
qed

lemma symbolize_inner_addr:
  assumes "symbolize_inner capacity backend patience addr s = Some s'"
    and "call_at s' (length (wk_calls s)) = Some (Returned a r)"
  shows "a = addr"
proof -
  from assms(1) have "wk_clients s"
    by (auto simp: symbolize_inner_def call_start_def Let_def bind_eq_Some_conv split: if_splits)
  from symbolize_inner_total [OF this, of capacity backend patience addr] assms show ?thesis by auto
qed

lemma client_symbolize_given:
  assumes "reachable capacity backend s" "client_symbolize capacity backend patience addr s = (r, s')"
  shows "reachable capacity backend s' \<and> wk_served s \<le> wk_served s' \<and>
    (case r of Inl e \<Rightarrow> True | Inr y \<Rightarrow> given_by_call backend (wk_served s') addr y)"
proof (cases "symbolize_inner capacity backend patience addr s")
  case None
  with assms show ?thesis by (auto simp: client_symbolize_def)
next
  case (Some t)
  with assms(2) have t: "t = s'" by (auto simp: client_symbolize_def split: option.splits)
  from symbolize_inner_reachable [OF assms(1)] Some t have reach: "reachable capacity backend s'" by blast
  have "given_by_call backend (wk_served s') addr y" if "r = Inr y" for y
  proof -
    from assms(2) Some t that obtain a where "call_at s' (length (wk_calls s)) = Some (Returned a (Inr y))"
      by (auto simp: client_symbolize_def call_result_def split: option.splits call.splits)
    with symbolize_inner_addr [of capacity backend patience addr s s'] Some t returned_given [OF reach] show ?thesis by blast
  qed
  with reach symbolize_inner_served [OF Some] t show ?thesis by (auto split: sum.split)
qed

section \<open>The frames\<close>

text \<open>A symbolizer whose world keeps an invariant \<open>P\<close> and whose answers are those of calls made so far.\<close>

definition answers_from_calls ::
  "backend \<Rightarrow> ('w \<Rightarrow> bool) \<Rightarrow> ('w \<Rightarrow> nat) \<Rightarrow> 'w symbolizer \<Rightarrow> bool" where
  "answers_from_calls backend P calls symbolize \<longleftrightarrow> (\<forall>a w r w'. P w \<longrightarrow> symbolize a w = (r, w') \<longrightarrow>
     P w' \<and> calls w \<le> calls w' \<and> (case r of Inl e \<Rightarrow> True | Inr y \<Rightarrow> given_by_call backend (calls w') a y))"

definition frame_given :: "backend \<Rightarrow> nat \<Rightarrow> low_confidence_field list \<Rightarrow> nat \<Rightarrow> str \<times> str \<Rightarrow> stack_frame \<Rightarrow> bool" where
  "frame_given backend m low i entry frame \<longleftrightarrow> sf_addr frame = fst entry \<and>
     ((\<exists>y. given_by_call backend m (frame_addr (fst entry)) y \<and> sf_symbol frame = Some y) \<or>
      sf_symbol frame = Some \<lparr>sy_name = snd entry, sy_source = Kallsyms\<rparr> \<and> (\<exists>e. symbolizer_failed_field i e \<in> set low))"

lemma frame_given_mono:
  "frame_given backend m low i entry frame \<Longrightarrow> m \<le> m' \<Longrightarrow> set low \<subseteq> set low' \<Longrightarrow> frame_given backend m' low' i entry frame"
  by (auto simp: frame_given_def intro: given_by_call_mono)

lemma hotspot_frames_given:
  assumes "answers_from_calls backend P calls symbolize"
  shows "P w \<Longrightarrow> hotspot_frames symbolize idx stack w = ((frames, low), w') \<Longrightarrow>
    P w' \<and> calls w \<le> calls w' \<and> length frames = length stack \<and>
    (\<forall>i<length stack. frame_given backend (calls w') low (idx + i) (stack ! i) (frames ! i))"
proof (induction stack arbitrary: idx w frames low)
  case (Cons entry stack)
  obtain addr_s raw where entry: "entry = (addr_s, raw)" by fastforce
  obtain r w1 where r: "symbolize (frame_addr addr_s) w = (r, w1)" by fastforce
  obtain frames1 low1 w2 where rest: "hotspot_frames symbolize (Suc idx) stack w1 = ((frames1, low1), w2)"
    by (metis surj_pair)
  with Cons.prems(2) entry r have w2: "w2 = w'" by (cases r) auto
  from assms Cons.prems(1) r have call: "P w1" "calls w \<le> calls w1"
    "case r of Inl e \<Rightarrow> True | Inr y \<Rightarrow> given_by_call backend (calls w1) (frame_addr addr_s) y"
    unfolding answers_from_calls_def by blast+
  from Cons.IH [OF call(1) rest [unfolded w2]] have IH: "P w'" "calls w1 \<le> calls w'" "length frames1 = length stack"
    "\<forall>i<length stack. frame_given backend (calls w') low1 (Suc idx + i) (stack ! i) (frames1 ! i)" by blast+
  obtain f where frames: "frames = f # frames1" and low: "set low1 \<subseteq> set low"
    and f: "frame_given backend (calls w') low idx entry f"
  proof (cases r)
    case (Inl e)
    then show thesis using Cons.prems(2) r rest entry
      by (intro that [of "make_frame idx addr_s \<lparr>sy_name = raw, sy_source = Kallsyms\<rparr>"])
        (auto simp: frame_given_def make_frame_def)
  next
    case (Inr y)
    then show thesis using Cons.prems(2) r rest entry call(3) given_by_call_mono [OF _ IH(2)]
      by (intro that [of "make_frame idx addr_s y"]) (auto simp: frame_given_def make_frame_def)
  qed
  have "frame_given backend (calls w') low (idx + i) ((entry # stack) ! i) (frames ! i)" if "i < Suc (length stack)" for i
  proof (cases i)
    case (Suc j)
    with that IH(4) have "frame_given backend (calls w') low1 (Suc idx + j) (stack ! j) (frames1 ! j)" by simp
    from frame_given_mono [OF this order_refl low] Suc frames show ?thesis by simp
  qed (use f frames in simp)
  with IH(1-3) call(2) frames show ?case by auto
qed simp

lemma build_hotspot_given:
  assumes "answers_from_calls backend P calls symbolize" "P w"
    and "build_hotspot state stack symbolize w = ((Blocked frames, low), w')"
  shows "P w' \<and> calls w \<le> calls w' \<and> length frames = min mem_shape_top_n (length stack) \<and>
    (\<forall>i<length frames. frame_given backend (calls w') low i (stack ! i) (frames ! i))"
proof -
  obtain frames1 low1 w1 where hf: "hotspot_frames symbolize 0 (take (min mem_shape_top_n (length stack)) stack) w
      = ((frames1, low1), w1)" by (metis surj_pair)
  from hotspot_frames_given [OF assms(1,2) this] assms(2,3) hf show ?thesis
    by (auto simp: build_hotspot_def split: if_splits)
qed

section \<open>The symbolizer of a request\<close>

lemma client_from_calls:
  "answers_from_calls backend (\<lambda>(w, s). reachable capacity backend s) (\<lambda>(w, s). wk_served s)
     (\<lambda>a. on_snd (client_symbolize capacity backend patience a))"
proof -
  have "reachable capacity backend (snd p') \<and> wk_served (snd p) \<le> wk_served (snd p') \<and>
      (case r of Inl e \<Rightarrow> True | Inr y \<Rightarrow> given_by_call backend (wk_served (snd p')) a y)"
    if "reachable capacity backend (snd p)" "on_snd (client_symbolize capacity backend patience a) p = (r, p')" for a p r p'
  proof -
    from that(2) have c: "client_symbolize capacity backend patience a (snd p) = (r, snd p')"
      by (cases p) (auto simp: on_snd_def split: prod.splits)
    from client_symbolize_given [OF that(1) c] show ?thesis .
  qed
  then show ?thesis unfolding answers_from_calls_def case_prod_unfold by blast
qed

lemma fallback_from_calls:
  "answers_from_calls backend (\<lambda>w. True) (\<lambda>w. 0) (\<lambda>a. io_lift (fallback_symbolize a))"
  by (simp add: answers_from_calls_def fallback_symbolize_def)

text \<open>The worker is neither spawned nor moved before the hotspot is built: the procfs source and the clock act
  on their own part of the world.\<close>

lemma introspect_on_fst_InrD:
  assumes "introspect_from_ports printable json_len (source_on_fst source) symbolize (clock_on_fst clock) interval pid (w, v)
    = (Inr l0, w')"
  shows "\<exists>snapshot st cpu span_ms u u' w4. so_snapshot source pid u = (Inr snapshot, u') \<and> parse_stat (sn_stat snapshot) = Inr st \<and>
    build_level0 printable json_len pid snapshot st cpu span_ms symbolize (w4, v) = (Inr l0, w')"
proof -
  obtain started w0 where now: "ck_now clock w = (started, w0)" by fastforce
  then have now': "ck_now (clock_on_fst clock) (w, v) = (started, (w0, v))" by (simp add: clock_on_fst_def)
  from assms obtain snapshot p1 st cpu p3 where s: "on_fst (so_snapshot source pid) (w0, v) = (Inr snapshot, p1)"
    and st: "parse_stat (sn_stat snapshot) = Inr st"
    and cpu: "on_fst (sample_cpu source clock interval pid \<lparr>cc_process_ticks = st_process_ticks st,
        cc_system_ticks = sn_system_cpu_ticks snapshot, cc_process_start_time_ticks = st_process_start_time_ticks st\<rparr>
        (sn_logical_cpus snapshot)) p1 = (Inr cpu, p3)"
    and rest: "(case ck_now (clock_on_fst clock) p3 of (finished, w4) \<Rightarrow> build_level0 printable json_len pid snapshot st cpu
        (measured_snapshot_span_ms started finished) symbolize w4) = (Inr l0, w')"
    by (fastforce simp: introspect_from_ports_def io_bind_Inr_iff now' sample_cpu_on_fst)
  from s obtain u' where u': "so_snapshot source pid w0 = (Inr snapshot, u')" "p1 = (u', v)"
    by (auto simp: on_fst_def split: prod.splits)
  with cpu obtain w3 where p3: "p3 = (w3, v)" by (auto simp: on_fst_def split: prod.splits)
  obtain finished w4 where "ck_now clock w3 = (finished, w4)" by fastforce
  with rest p3 have "build_level0 printable json_len pid snapshot st cpu (measured_snapshot_span_ms started finished)
      symbolize (w4, v) = (Inr l0, w')" by (simp add: clock_on_fst_def)
  with u' st show ?thesis by blast
qed

section \<open>The shutdown serves no new call\<close>

lemma await_exit_served: "await_exit backend n s = Some s' \<Longrightarrow> wk_served s \<le> wk_served s'"
proof (induction backend n s rule: await_exit.induct)
  case (1 backend s)
  then show ?case
    by (auto split: option.splits dest: sys_step_served [OF sys_step.join] sys_step_served [OF sys_step.give_up])
next
  case (2 backend n s)
  show ?case
  proof (cases "handle_join s")
    case None
    with 2 have "wk_served (worker_step backend s) \<le> wk_served s'" by simp
    with worker_served [of s backend] show ?thesis by simp
  qed (use 2(2) in \<open>auto dest: sys_step_served [OF sys_step.join]\<close>)
qed

lemma handle_shutdown_served: "wk_served s \<le> wk_served (snd (handle_shutdown backend patience s))"
proof -
  have "wk_served s \<le> wk_served s'"
    if "Option.bind (handle_request s) (\<lambda>s1. Option.bind (handle_signal s1) (await_exit backend patience)) = Some s'" for s'
  proof -
    from that obtain s1 s2 where s: "handle_request s = Some s1" "handle_signal s1 = Some s2" "await_exit backend patience s2 = Some s'"
      by (auto simp: bind_eq_Some_conv)
    with sys_step_served [OF sys_step.shutdown [OF s(1)]] sys_step_served [OF sys_step.signal [OF s(2)]]
      await_exit_served [OF s(3)] show ?thesis by simp
  qed
  then show ?thesis by (simp add: handle_shutdown_def split: option.split)
qed

lemma drop_client_served [simp]: "wk_served (drop_client s) = wk_served s"
  by (simp add: drop_client_def drop_clients_def)

section \<open>A doubt that stays recorded\<close>

text \<open>A path is doubted when it is listed with at most the given confidence and with the given text in its reason.\<close>

definition doubted :: "str \<Rightarrow> symbol_confidence \<Rightarrow> str \<Rightarrow> low_confidence_field list \<Rightarrow> bool" where
  "doubted path c reason lfs \<longleftrightarrow> (\<exists>d r. low_map lfs path = Some (Some d, r) \<and> d \<le> c \<and> sublist reason r)"

lemma worst_le: "d \<le> c \<Longrightarrow> worst (Some d) e \<le> c"
  by (auto simp: worst_def min_def)

lemma doubted_stable: "merge_stable (doubted path c reason)"
  by (auto simp: merge_stable_def doubted_def low_map_merge note_low_def sublist_add_reason worst_le split: option.split)

lemma doubted_field:
  assumes "distinct (map lf_path low)" "lf \<in> set low" "lf_confidence lf = Some c"
  shows "doubted (lf_path lf) c (lf_reason lf) low"
proof -
  have "low_map low (lf_path lf) = Some (lf_confidence lf, lf_reason lf)"
    unfolding low_map_def using assms(1,2) by (intro map_of_is_SomeI) (auto simp: comp_def)
  with assms(3) show ?thesis by (auto simp: doubted_def)
qed

lemma with_failure_doubted:
  "doubted path c reason (cf_low_fields (l0_confidence l0)) \<Longrightarrow>
     doubted path c reason (cf_low_fields (l0_confidence (with_failure json_len f l0)))"
  by (simp add: with_failure_def record_symbolizer_degradation_def Let_def merge_stableD [OF doubted_stable] split: option.split)

section \<open>End to end\<close>

text \<open>A frame of an answer: the symbol of a call of the backend for the frame's own address, or the raw symbol of
  its stack entry with the failure recorded under the frame's path.\<close>

definition frame_answered :: "backend \<Rightarrow> nat \<Rightarrow> low_confidence_field list \<Rightarrow> nat \<Rightarrow> str \<times> str \<Rightarrow> stack_frame \<Rightarrow> bool" where
  "frame_answered backend calls low i entry frame \<longleftrightarrow> sf_addr frame = fst entry \<and>
     ((\<exists>n<calls. \<exists>y. backend n (frame_addr (fst entry)) = Some (Inr y) \<and> sf_symbol frame = Some y) \<or>
      sf_symbol frame = Some \<lparr>sy_name = snd entry, sy_source = Kallsyms\<rparr> \<and>
      (\<exists>e. doubted (frame_path i) Kallsyms (lf_reason (symbolizer_failed_field i e)) low))"

lemma frame_given_answered:
  assumes "frame_given backend m low i entry frame" "m \<le> m'"
    and "\<And>e. symbolizer_failed_field i e \<in> set low \<Longrightarrow> doubted (frame_path i) Kallsyms (lf_reason (symbolizer_failed_field i e)) low'"
  shows "frame_answered backend m' low' i entry frame"
proof -
  from assms(1) consider y where "given_by_call backend m (frame_addr (fst entry)) y" "sf_symbol frame = Some y"
    | e where "sf_symbol frame = Some \<lparr>sy_name = snd entry, sy_source = Kallsyms\<rparr>" "symbolizer_failed_field i e \<in> set low"
    by (auto simp: frame_given_def)
  then show ?thesis
  proof cases
    case 1
    with given_by_call_mono [OF 1(1) assms(2)] assms(1) show ?thesis
      by (auto simp: frame_answered_def frame_given_def given_by_call_def)
  next
    case 2
    with assms(1,3) show ?thesis by (auto simp: frame_answered_def frame_given_def)
  qed
qed

lemma build_level0_answered:
  assumes "answers_from_calls backend P calls symbolize" "P w"
    and "build_level0 printable json_len pid snapshot st cpu span_ms symbolize w = (Inr l0, w')"
    and "l0_hotspot l0 = Blocked frames" "calls w' \<le> m"
  shows "length frames = min mem_shape_top_n (length (snapshot_stack snapshot)) \<and>
    (\<forall>i<length frames. frame_answered backend m (cf_low_fields (l0_confidence (with_failure json_len f l0))) i
      (snapshot_stack snapshot ! i) (frames ! i))"
proof -
  from build_level0_InrD [OF assms(3)] obtain status1 maps1 h low where
    b: "build_hotspot (st_state st) (snapshot_stack snapshot) symbolize w = ((h, low), w')"
    and l0: "l0 = set_token (estimate_level0_tokens json_len (make_level0 pid snapshot st status1 maps1 cpu span_ms h low))
      (make_level0 pid snapshot st status1 maps1 cpu span_ms h low)" by blast
  from l0 assms(4) have h: "h = Blocked frames" by (simp add: make_level0_def Let_def)
  from l0 have low: "cf_low_fields (l0_confidence l0) = level0_low_fields snapshot st status1 maps1 cpu h low"
    by (simp add: make_level0_def Let_def)
  from build_hotspot_given [OF assms(1,2) b [unfolded h]]
  have given: "\<And>i. i < length frames \<Longrightarrow> frame_given backend (calls w') low i (snapshot_stack snapshot ! i) (frames ! i)"
    and len: "length frames = min mem_shape_top_n (length (snapshot_stack snapshot))" by auto
  have kept: "doubted (frame_path i) Kallsyms (lf_reason (symbolizer_failed_field i e))
      (cf_low_fields (l0_confidence (with_failure json_len f l0)))"
    if "symbolizer_failed_field i e \<in> set low" for e i
  proof -
    from doubted_field [OF build_hotspot_distinct [OF b] that, of Kallsyms]
    have "doubted (frame_path i) Kallsyms (lf_reason (symbolizer_failed_field i e)) low"
      by (simp add: symbolizer_failed_field_def)
    from level0_low_fields_keeps [OF doubted_stable this] show ?thesis
      by (intro with_failure_doubted) (simp add: low)
  qed
  from frame_given_answered [OF given assms(5) kept] len show ?thesis by blast
qed

lemma spawned_worker:
  "spawn_introspection_worker capacity backend patience thread_spawn panics (w, v) =
     (case spawn_kernel_symbolizer thread_spawn panics of
        Inl e \<Rightarrow> (Inl e, (w, v))
      | Inr s \<Rightarrow> (Inr (kernel_introspection_worker (\<lambda>addr. on_snd (client_symbolize capacity backend patience addr))
          (on_snd (handle_shutdown backend patience)) (\<lambda>(w, s). (w, drop_client s))), (w, initial_sys)))"
  by (auto simp: spawn_introspection_worker_def spawn_kernel_symbolizer_def spawn_worker_def
      kernel_backend_new_def rbind_def map_err_def split: sum.splits)

lemma with_failure_hotspot [simp]: "l0_hotspot (with_failure json_len f l0) = l0_hotspot l0"
  by (simp add: with_failure_def record_symbolizer_degradation_def Let_def split: option.split)

lemma assemble_worker_InrD:
  assumes "assemble_default_introspection printable json_len pid source clock interval spawn w = (Inr l0, w')"
    and "spawn w = (Inr worker, w1)"
  shows "\<exists>base w2 f shutdown. introspect_from_ports printable json_len source (iw_symbolizer worker) clock interval pid w1 = (Inr base, w2) \<and>
    iw_shutdown worker w2 = (shutdown, w') \<and> l0 = with_failure json_len f base"
proof -
  obtain r w2 where r: "introspect_from_ports printable json_len source (iw_symbolizer worker) clock interval pid w1 = (r, w2)"
    by fastforce
  obtain shutdown w3 where sd: "iw_shutdown worker w2 = (shutdown, w3)" by fastforce
  with assms r obtain base where "r = Inr base" "w3 = w'"
    "l0 = with_failure json_len (case shutdown of Inl e \<Rightarrow> Some (shutdown_failed_reason e) | Inr u \<Rightarrow> None) base"
    by (cases r; cases shutdown) (auto simp: assemble_default_introspection_def io_bind_Inr_iff with_failure_def)
  with r sd show ?thesis by blast
qed

lemma reachable_initial: "reachable capacity backend initial_sys"
  by (simp add: reachable_def)

text \<open>C3: The symbols of an answer are genuine end to end. The request spawns the worker, sends each frame of a
  blocked task through its queue, waits for it as long as it is told to, and shuts it down; whether the thread starts,
  panics, is late or is silent, frame i of the answer has the address of entry i of the kernel stack in the
  snapshot, and carries either exactly the symbol that the backend gave for this address in a call made by
  the end of the request, or the raw kernel symbol of the entry, and then the failure is
  listed under the frame's path with a confidence of at most \<open>kallsyms\<close>.\<close>

theorem hotspot_symbols_are_genuine:
  fixes source :: "'w proc_source"
  assumes "assemble_default_introspection printable json_len pid (source_on_fst source) (clock_on_fst clock) interval
      (spawn_introspection_worker capacity backend patience thread_spawn panics) (w, v) = (Inr l0, (w', s'))"
    and "l0_hotspot l0 = Blocked frames"
  shows "\<exists>snapshot u u'. so_snapshot source pid u = (Inr snapshot, u') \<and>
    length frames = min mem_shape_top_n (length (snapshot_stack snapshot)) \<and>
    (\<forall>i<length frames. frame_answered backend (wk_served s') (cf_low_fields (l0_confidence l0)) i
       (snapshot_stack snapshot ! i) (frames ! i))"
proof (cases "spawn_kernel_symbolizer thread_spawn panics")
  case (Inl e)
  let ?spawn = "spawn_introspection_worker capacity backend patience thread_spawn panics"
  from Inl have sp: "?spawn (w, v) = (Inl e, (w, v))" by (simp add: spawned_worker)
  from assemble_InrD [OF assms(1)] sp obtain base w2 f where
    base: "introspect_from_ports printable json_len (source_on_fst source) (\<lambda>a. io_lift (fallback_symbolize a))
      (clock_on_fst clock) interval pid (w, v) = (Inr base, w2)"
    and l0: "l0 = with_failure json_len f base"
    by (auto simp: worker_symbolizer_def)
  from introspect_on_fst_InrD [OF base] obtain snapshot st cpu span_ms u u' w4 where
    snap: "so_snapshot source pid u = (Inr snapshot, u')"
    and b: "build_level0 printable json_len pid snapshot st cpu span_ms (\<lambda>a. io_lift (fallback_symbolize a)) (w4, v) = (Inr base, w2)"
    by blast
  have h: "l0_hotspot base = Blocked frames" using assms(2) l0 by simp
  from snap build_level0_answered [OF fallback_from_calls TrueI b h le0] show ?thesis unfolding l0 by blast
next
  case (Inr s)
  let ?client = "\<lambda>a. on_snd (client_symbolize capacity backend patience a) :: ('w \<times> worker_sys, symbolize_error, symbolized) io"
  let ?worker = "kernel_introspection_worker ?client (on_snd (handle_shutdown backend patience)) (\<lambda>(w, s). (w, drop_client s))"
  from Inr have sp: "spawn_introspection_worker capacity backend patience thread_spawn panics (w, v) = (Inr ?worker, (w, initial_sys))"
    by (simp add: spawned_worker)
  from assemble_worker_InrD [OF assms(1) sp] obtain base x t f shutdown where
    base: "introspect_from_ports printable json_len (source_on_fst source) ?client (clock_on_fst clock) interval pid (w, initial_sys)
      = (Inr base, (x, t))"
    and down: "iw_shutdown ?worker (x, t) = (shutdown, (w', s'))" and l0: "l0 = with_failure json_len f base"
    by (auto simp: kernel_introspection_worker_def)
  from down have s': "s' = drop_client (snd (handle_shutdown backend patience t))"
    by (auto simp: kernel_introspection_worker_def on_snd_def split: prod.splits)
  from introspect_on_fst_InrD [OF base] obtain snapshot st cpu span_ms u u' w4 where
    snap: "so_snapshot source pid u = (Inr snapshot, u')"
    and b: "build_level0 printable json_len pid snapshot st cpu span_ms ?client (w4, initial_sys) = (Inr base, (x, t))"
    by blast
  have h: "l0_hotspot base = Blocked frames" using assms(2) l0 by simp
  have calls: "(\<lambda>(w, s). wk_served s) (x, t) \<le> wk_served s'" using handle_shutdown_served [of t backend patience] s' by simp
  have start: "(\<lambda>(w, s). reachable capacity backend s) (w4, initial_sys)" by (simp add: reachable_initial)
  from snap build_level0_answered [OF client_from_calls start b h calls] show ?thesis unfolding l0 by blast
qed

lemma level0_of_hotspot:
  assumes "build_level0 printable json_len pid snapshot st cpu span_ms symbolize w = (Inr l0, w')" "st_state st = RS_D"
  shows "\<exists>frames. l0_hotspot l0 = Blocked frames"
proof -
  from build_level0_InrD [OF assms(1)] obtain status1 maps1 h low where
    b: "build_hotspot (st_state st) (snapshot_stack snapshot) symbolize w = ((h, low), w')"
    and l0: "l0 = set_token (estimate_level0_tokens json_len (make_level0 pid snapshot st status1 maps1 cpu span_ms h low))
      (make_level0 pid snapshot st status1 maps1 cpu span_ms h low)" by blast
  from build_hotspot_cases [OF b] assms(2) l0 show ?thesis by (auto simp: make_level0_def Let_def)
qed

definition spawned_run :: "(proc_error + level0) \<times> nat \<times> worker_sys" where
  "spawned_run = assemble_default_introspection (\<lambda>_. True) (\<lambda>_. 1000) 7 (source_on_fst (still_source ''D''))
     (clock_on_fst tick_clock) default_sample_interval
     (spawn_introspection_worker 2 echo_backend 8 (Inr ()) False) (0, initial_sys)"

lemma spawned_run_ok: "\<exists>l0 w s frames. spawned_run = (Inr l0, (w, s)) \<and> l0_hotspot l0 = Blocked frames"
proof -
  let ?client = "\<lambda>a. on_snd (client_symbolize 2 echo_backend 8 a) :: (nat \<times> worker_sys, symbolize_error, symbolized) io"
  let ?worker = "kernel_introspection_worker ?client (on_snd (handle_shutdown echo_backend 8)) (\<lambda>(w, s). (w, drop_client s))"
  let ?spawn = "spawn_introspection_worker 2 echo_backend 8 (Inr ()) False"
  have "spawn_kernel_symbolizer (Inr ()) False = Inr initial_sys"
    by (simp add: spawn_kernel_symbolizer_def spawn_worker_def kernel_backend_new_def)
  then have sp: "?spawn (0, initial_sys) = (Inr ?worker, (0, initial_sys))" by (simp add: spawned_worker)
  from still_succeeds obtain base p where
    base: "introspect_from_ports (\<lambda>_. True) (\<lambda>_. 1000) (source_on_fst (still_source ''D'')) ?client (clock_on_fst tick_clock)
      default_sample_interval 7 (0, initial_sys) = (Inr base, p)" by blast
  then have "introspect_from_ports (\<lambda>_. True) (\<lambda>_. 1000) (source_on_fst (still_source ''D''))
      (worker_symbolizer (Inr ?worker)) (clock_on_fst tick_clock) default_sample_interval 7 (0, initial_sys) = (Inr base, p)"
    by (simp add: worker_symbolizer_def kernel_introspection_worker_def)
  from assemble_is_base_with_failure [where spawn_worker = ?spawn, OF _ sp this] obtain f where
    run: "fst spawned_run = Inr (with_failure (\<lambda>_. 1000) f base)" by (auto simp: spawned_run_def)
  from introspect_on_fst_InrD [OF base] obtain snapshot st cpu span_ms u u' w4 where
    "so_snapshot (still_source ''D'') 7 u = (Inr snapshot, u')"
    and b: "build_level0 (\<lambda>_. True) (\<lambda>_. 1000) 7 snapshot st cpu span_ms ?client (w4, initial_sys) = (Inr base, p)"
    and st: "parse_stat (sn_stat snapshot) = Inr st" by blast
  with still_parts(1) have "st_state st = RS_D" by (auto simp: still_source_def)
  with level0_of_hotspot [OF b] obtain frames where "l0_hotspot base = Blocked frames" by blast
  then have "l0_hotspot (with_failure (\<lambda>_. 1000) f base) = Blocked frames" by simp
  with run show ?thesis by (metis prod.collapse)
qed

text \<open>The still guest blocks in \<open>io_wait\<close>: the request spawns a worker and asks it for the one frame.\<close>

theorem hotspot_symbols_are_genuine_witness:
  "\<exists>l0 w s frame. spawned_run = (Inr l0, (w, s)) \<and> l0_hotspot l0 = Blocked [frame] \<and>
     frame_answered echo_backend (wk_served s) (cf_low_fields (l0_confidence l0)) 0 (asc ''0x1f'', asc ''io_wait+0x1'') frame"
proof -
  from spawned_run_ok obtain l0 w s frames where r: "spawned_run = (Inr l0, (w, s))" "l0_hotspot l0 = Blocked frames" by blast
  have stack: "snapshot_stack (still_snapshot ''D'') = [(asc ''0x1f'', asc ''io_wait+0x1'')]" by code_simp
  from hotspot_symbols_are_genuine [OF r(1) [unfolded spawned_run_def] r(2)] stack
  have "length frames = 1" "\<forall>i<length frames. frame_answered echo_backend (wk_served s) (cf_low_fields (l0_confidence l0)) i
    ([(asc ''0x1f'', asc ''io_wait+0x1'')] ! i) (frames ! i)"
    by (auto simp: still_source_def mem_shape_top_n_def simp del: asc_simps)
  with r show ?thesis by (cases frames) auto
qed

end
