(* ===== verification/Wire_Model.thy ===== *)
theory Wire_Model
  imports Schema
begin

text \<open>
  The messages of the control channel (\<open>vsock/src/model.rs\<close>), one type per direction, with the
  side-effect grade of a request and the request id that every guest message carries. Uuids are
  128-bit words; the JSON encoding is a parameter of the codec.
\<close>

type_synonym uuid = "128 word"

section \<open>Requests\<close>

datatype request_body = Introspect i32

record wire_request =
  wr_id :: uuid
  wr_body :: request_body

datatype host_to_guest = Request wire_request

datatype side_effect = Read | DryRunnableWrite | Intervention | KernelWrite | Irreversible

fun side_effect_of :: "request_body \<Rightarrow> side_effect" where
  "side_effect_of (Introspect pid) = Read"

section \<open>Error reports\<close>

record error_report =
  er_kind :: str
  er_reason :: str
  er_next_step :: "str option"

definition new_error_report :: "str \<Rightarrow> str \<Rightarrow> error_report" where
  "new_error_report kind reason = \<lparr>er_kind = kind, er_reason = reason, er_next_step = None\<rparr>"

definition with_next_step :: "str \<Rightarrow> error_report \<Rightarrow> error_report" where
  "with_next_step step report = report\<lparr>er_next_step := Some step\<rparr>"

section \<open>Responses and evidence\<close>

datatype response_body = IntrospectBody level0

datatype wire_response = ResponseOk uuid response_body | ResponseErr uuid error_report

datatype execution_outcome = Succeeded | Failed error_report

record execution_receipt =
  xr_request_id :: uuid
  xr_started_at :: timestamp
  xr_finished_at :: timestamp
  xr_outcome :: execution_outcome

record effect_sample =
  es_name :: str
  es_value :: u64
  es_unit :: str

record effect_telemetry =
  et_request_id :: uuid
  et_observed_at :: timestamp
  et_samples :: "effect_sample list"
  et_dropped_samples :: u64

datatype guest_to_host =
    Response wire_response
  | ExecutionReceipt execution_receipt
  | EffectTelemetry effect_telemetry

fun response_req_id :: "wire_response \<Rightarrow> uuid" where
  "response_req_id (ResponseOk req_id body) = req_id"
| "response_req_id (ResponseErr req_id e) = req_id"

fun request_id :: "guest_to_host \<Rightarrow> uuid" where
  "request_id (Response response) = response_req_id response"
| "request_id (ExecutionReceipt receipt) = xr_request_id receipt"
| "request_id (EffectTelemetry telemetry) = et_request_id telemetry"

section \<open>Transport errors\<close>

datatype transport_error =
    PeerClosed
  | Io str
  | Encode str
  | MalformedDecode str
  | InvalidUtf8
  | FrameTooLarge nat
  | EmptyFrame
  | TruncatedFrame
  | WrongDirection str str

end
