(* ===== verification/Wire_Codec.thy ===== *)
theory Wire_Codec
  imports Wire_Model Rust_Io
begin

text \<open>
  The bounded JSON Lines codec of \<open>vsock/src/codec.rs\<close>: the buffered reader with its sequence of
  arrivals, the owned frame with its fixed storage, the read loop and its two directions, the
  writer. An index out of the frame's storage is the value \<open>None\<close>, as it panics. The JSON library
  is a parameter: an encoder and a decoder for each direction.
\<close>

section \<open>The buffered reader\<close>

datatype arrival = Chunk bytes | ReadFails io_error

record reader =
  rd_buf :: bytes
  rd_arrivals :: "arrival list"

text \<open>\<open>fill_buf\<close>: what is buffered, else the next arrival; no arrival is left at the end of the
  stream, where the answer is empty.\<close>

definition fill_buf :: "reader \<Rightarrow> (io_error + bytes) \<times> reader" where
  "fill_buf r =
     (if rd_buf r \<noteq> [] then (Inr (rd_buf r), r)
      else case rd_arrivals r of
          [] \<Rightarrow> (Inr [], r)
        | Chunk bs # rest \<Rightarrow> (Inr bs, \<lparr>rd_buf = bs, rd_arrivals = rest\<rparr>)
        | ReadFails e # rest \<Rightarrow> (Inl e, r\<lparr>rd_arrivals := rest\<rparr>))"

definition consume :: "nat \<Rightarrow> reader \<Rightarrow> reader" where
  "consume n r = r\<lparr>rd_buf := drop n (rd_buf r)\<rparr>"

section \<open>The owned frame\<close>

record owned_frame =
  of_storage :: bytes
  of_len :: nat

text \<open>\<open>vec![0; n]\<close> gives the storage. That it panics for \<open>n > isize::MAX\<close>, or when memory runs out, is not modelled.\<close>

definition new_frame :: "nat \<Rightarrow> owned_frame" where
  "new_frame storage_len = \<lparr>of_storage = replicate storage_len 0, of_len = 0\<rparr>"

definition append_frame :: "owned_frame \<Rightarrow> bytes \<Rightarrow> owned_frame option" where
  "append_frame frame bs =
     (let end1 = of_len frame + length bs
      in if end1 \<le> length (of_storage frame)
         then Some \<lparr>of_storage = take (of_len frame) (of_storage frame) @ bs @ drop end1 (of_storage frame), of_len = end1\<rparr>
         else None)"

definition as_slice :: "owned_frame \<Rightarrow> bytes" where
  "as_slice frame = take (of_len frame) (of_storage frame)"

definition ends_with_cr :: "bytes \<Rightarrow> bool" where
  "ends_with_cr bs \<longleftrightarrow> bs \<noteq> [] \<and> last bs = 13"

definition strip_trailing_cr :: "owned_frame \<Rightarrow> owned_frame" where
  "strip_trailing_cr frame =
     (if ends_with_cr (as_slice frame) then frame\<lparr>of_len := of_len frame - 1\<rparr> else frame)"

section \<open>Reading one frame\<close>

definition default_max_frame_bytes :: nat where
  "default_max_frame_bytes = 1024 * 1024"

record json_lines_codec =
  jl_max_frame_bytes :: nat

definition default_codec :: json_lines_codec where
  "default_codec = \<lparr>jl_max_frame_bytes = default_max_frame_bytes\<rparr>"

definition usize_max :: nat where
  "usize_max = 2 ^ 64 - 1"

definition newline_index :: "bytes \<Rightarrow> nat option" where
  "newline_index bs = (let k = length (takeWhile (\<lambda>b. b \<noteq> 10) bs) in if k < length bs then Some k else None)"

definition reader_work :: "reader \<Rightarrow> nat" where
  "reader_work r = length (rd_arrivals r) + (if rd_buf r = [] then 0 else 1)"

lemma fill_buf_work:
  "fill_buf r = (Inr bs, r1) \<Longrightarrow> bs \<noteq> [] \<Longrightarrow> reader_work (consume (length bs) r1) < reader_work r"
  by (auto simp: fill_buf_def consume_def reader_work_def split: if_splits list.splits arrival.splits)

text \<open>What happens to a chunk that holds the newline at index \<open>i\<close>.\<close>

definition close_frame :: "nat \<Rightarrow> nat \<Rightarrow> owned_frame \<Rightarrow> bytes \<Rightarrow> nat \<Rightarrow> (transport_error + owned_frame) option" where
  "close_frame max_frame_bytes owned_limit frame available i =
     (let total_before_newline = min (of_len frame + i) usize_max;
          copy_len = min i (owned_limit - of_len frame)
      in case append_frame frame (take copy_len available) of
          None \<Rightarrow> None
        | Some frame1 \<Rightarrow> Some
            (if total_before_newline > owned_limit then Inl (FrameTooLarge max_frame_bytes)
             else (let frame2 = strip_trailing_cr frame1
                   in if of_len frame2 > max_frame_bytes then Inl (FrameTooLarge max_frame_bytes)
                      else if of_len frame2 = 0 then Inl EmptyFrame
                      else Inr frame2)))"

function read_loop :: "nat \<Rightarrow> nat \<Rightarrow> owned_frame \<Rightarrow> reader \<Rightarrow> ((transport_error + owned_frame) \<times> reader) option" where
  "read_loop max_frame_bytes owned_limit frame r =
     (case fill_buf r of
        (Inl e, r1) \<Rightarrow> Some (Inl (Io (ie_text e)), r1)
      | (Inr available, r1) \<Rightarrow>
          if available = [] then Some (Inl (if of_len frame = 0 then PeerClosed else TruncatedFrame), r1)
          else (case newline_index available of
              Some i \<Rightarrow> map_option (\<lambda>res. (res, consume (i + 1) r1))
                  (close_frame max_frame_bytes owned_limit frame available i)
            | None \<Rightarrow>
                if length available > owned_limit - of_len frame then Some (Inl (FrameTooLarge max_frame_bytes), r1)
                else (case append_frame frame available of
                    None \<Rightarrow> None
                  | Some frame1 \<Rightarrow>
                      if of_len frame1 = owned_limit \<and> \<not> ends_with_cr (as_slice frame1)
                      then Some (Inl (FrameTooLarge max_frame_bytes), consume (length available) r1)
                      else read_loop max_frame_bytes owned_limit frame1 (consume (length available) r1))))"
  by pat_completeness auto
termination
  by (relation "measure (\<lambda>(m, l, f, r). reader_work r)") (auto intro: fill_buf_work [OF sym])

declare read_loop.simps [simp del]

definition read_frame :: "json_lines_codec \<Rightarrow> reader \<Rightarrow> ((transport_error + owned_frame) \<times> reader) option" where
  "read_frame codec r =
     (if jl_max_frame_bytes codec = usize_max then Some (Inl (FrameTooLarge (jl_max_frame_bytes codec)), r)
      else (let owned_limit = jl_max_frame_bytes codec + 1
            in read_loop (jl_max_frame_bytes codec) owned_limit (new_frame owned_limit) r))"

section \<open>The two directions\<close>

text \<open>A JSON format: the encoder and the decoder with the texts of their errors.\<close>

record 'm json_format =
  jf_encode :: "'m \<Rightarrow> str + bytes"
  jf_decode :: "str \<Rightarrow> str + 'm"

definition read_direction ::
  "'m json_format \<Rightarrow> 'o json_format \<Rightarrow> json_lines_codec \<Rightarrow> reader \<Rightarrow> str \<Rightarrow> str
    \<Rightarrow> ((transport_error + 'm) \<times> reader) option" where
  "read_direction format opposite codec r expected received =
     (case read_frame codec r of
        None \<Rightarrow> None
      | Some (Inl e, r1) \<Rightarrow> Some (Inl e, r1)
      | Some (Inr frame, r1) \<Rightarrow> Some
          (case from_utf8 (as_slice frame) of
             None \<Rightarrow> Inl InvalidUtf8
           | Some txt \<Rightarrow>
               (case jf_decode format txt of
                  Inr message \<Rightarrow> Inr message
                | Inl expected_error \<Rightarrow>
                    (case jf_decode opposite txt of
                       Inr other \<Rightarrow> Inl (WrongDirection expected received)
                     | Inl e \<Rightarrow> Inl (MalformedDecode expected_error))), r1))"

record wire_formats =
  wf_host :: "host_to_guest json_format"
  wf_guest :: "guest_to_host json_format"

definition read_host_to_guest ::
  "wire_formats \<Rightarrow> json_lines_codec \<Rightarrow> reader \<Rightarrow> ((transport_error + host_to_guest) \<times> reader) option" where
  "read_host_to_guest formats codec r =
     read_direction (wf_host formats) (wf_guest formats) codec r (asc ''host_to_guest'') (asc ''guest_to_host'')"

definition read_guest_to_host ::
  "wire_formats \<Rightarrow> json_lines_codec \<Rightarrow> reader \<Rightarrow> ((transport_error + guest_to_host) \<times> reader) option" where
  "read_guest_to_host formats codec r =
     read_direction (wf_guest formats) (wf_host formats) codec r (asc ''guest_to_host'') (asc ''host_to_guest'')"

section \<open>Writing\<close>

record 'w writer_port =
  wp_write_all :: "bytes \<Rightarrow> ('w, io_error, unit) io"
  wp_flush :: "('w, io_error, unit) io"

definition io_or_transport :: "('w, io_error, 'a) io \<Rightarrow> ('w, transport_error, 'a) io" where
  "io_or_transport m = (\<lambda>w. case m w of (r, w') \<Rightarrow> (map_err (\<lambda>e. Io (ie_text e)) r, w'))"

definition write_frame ::
  "'m json_format \<Rightarrow> json_lines_codec \<Rightarrow> 'w writer_port \<Rightarrow> 'm \<Rightarrow> ('w, transport_error, unit) io" where
  "write_frame format codec writer message =
     io_bind (io_lift (map_err Encode (jf_encode format message))) (\<lambda>encoded.
       if length encoded > jl_max_frame_bytes codec then io_err (FrameTooLarge (jl_max_frame_bytes codec))
       else io_bind (io_or_transport (wp_write_all writer encoded)) (\<lambda>_.
            io_bind (io_or_transport (wp_write_all writer [10])) (\<lambda>_.
            io_or_transport (wp_flush writer))))"

definition write_host_to_guest ::
  "wire_formats \<Rightarrow> json_lines_codec \<Rightarrow> 'w writer_port \<Rightarrow> host_to_guest \<Rightarrow> ('w, transport_error, unit) io" where
  "write_host_to_guest formats codec writer message = write_frame (wf_host formats) codec writer message"

definition write_guest_to_host ::
  "wire_formats \<Rightarrow> json_lines_codec \<Rightarrow> 'w writer_port \<Rightarrow> guest_to_host \<Rightarrow> ('w, transport_error, unit) io" where
  "write_guest_to_host formats codec writer message = write_frame (wf_guest formats) codec writer message"

end
