(* ===== verification/Wire_Codec_Facts.thy ===== *)
theory Wire_Codec_Facts
  imports Wire_Codec
begin

text \<open>
  The codec refines a specification on the plain byte stream: which frame, or which error, a stream
  holds does not depend on how it arrives in chunks. The storage never overflows, a frame that is
  read leaves the rest of the stream in place, what is written is read back, and no evidence of
  the guest passes for a request of the host.
\<close>

section \<open>The specification\<close>

fun arrived_bytes :: "arrival list \<Rightarrow> bytes" where
  "arrived_bytes [] = []"
| "arrived_bytes (Chunk bs # rest) = bs @ arrived_bytes rest"
| "arrived_bytes (ReadFails e # rest) = []"

fun arrived_failure :: "arrival list \<Rightarrow> io_error option" where
  "arrived_failure [] = None"
| "arrived_failure (Chunk bs # rest) = arrived_failure rest"
| "arrived_failure (ReadFails e # rest) = Some e"

definition stream :: "reader \<Rightarrow> bytes" where
  "stream r = rd_buf r @ arrived_bytes (rd_arrivals r)"

definition stream_failure :: "reader \<Rightarrow> io_error option" where
  "stream_failure r = arrived_failure (rd_arrivals r)"

text \<open>A read of no bytes is the end of the stream, so a chunk that arrives is not empty.\<close>

definition proper_reader :: "reader \<Rightarrow> bool" where
  "proper_reader r \<longleftrightarrow> Chunk [] \<notin> set (rd_arrivals r)"

definition fits :: "nat \<Rightarrow> bytes \<Rightarrow> bool" where
  "fits max1 line \<longleftrightarrow> length line \<le> max1 \<or> length line = max1 + 1 \<and> ends_with_cr line"

definition chomp :: "bytes \<Rightarrow> bytes" where
  "chomp line = (if ends_with_cr line then butlast line else line)"

definition line_result :: "nat \<Rightarrow> bytes \<Rightarrow> transport_error + bytes" where
  "line_result max1 line =
     (if \<not> fits max1 line then Inl (FrameTooLarge max1)
      else if chomp line = [] then Inl EmptyFrame else Inr (chomp line))"

definition frame_spec :: "nat \<Rightarrow> bytes \<Rightarrow> io_error option \<Rightarrow> transport_error + bytes" where
  "frame_spec max1 bs failure =
     (let line = takeWhile (\<lambda>b. b \<noteq> 10) bs
      in if 10 \<in> set bs then line_result max1 line
         else if \<not> fits max1 bs then Inl (FrameTooLarge max1)
         else Inl (case failure of Some e \<Rightarrow> Io (ie_text e)
                   | None \<Rightarrow> if bs = [] then PeerClosed else TruncatedFrame))"

section \<open>The frame's storage\<close>

definition holds :: "owned_frame \<Rightarrow> bytes \<Rightarrow> nat \<Rightarrow> bool" where
  "holds f p l \<longleftrightarrow> as_slice f = p \<and> of_len f = length p \<and> length (of_storage f) = l"

lemma holds_new: "holds (new_frame l) [] l"
  by (simp add: holds_def new_frame_def as_slice_def)

lemma holds_append:
  assumes "holds f p l" "length p + length bs \<le> l"
  shows "\<exists>g. append_frame f bs = Some g \<and> holds g (p @ bs) l"
  using assms by (auto simp: holds_def append_frame_def as_slice_def Let_def)

lemma holds_strip: "holds f p l \<Longrightarrow> holds (strip_trailing_cr f) (chomp p) l"
  by (auto simp: holds_def strip_trailing_cr_def chomp_def as_slice_def butlast_take ends_with_cr_def)

lemma length_chomp: "length (chomp p) = (if ends_with_cr p then length p - 1 else length p)"
  by (simp add: chomp_def)

section \<open>The loop refines the specification\<close>

definition slice_result :: "transport_error + owned_frame \<Rightarrow> transport_error + bytes" where
  "slice_result res = (case res of Inl e \<Rightarrow> Inl e | Inr f \<Rightarrow> Inr (as_slice f))"

lemma slice_result_simps [simp]: "slice_result (Inl e) = Inl e" "slice_result (Inr f) = Inr (as_slice f)"
  by (simp_all add: slice_result_def)

lemma close_frame_spec:
  assumes f: "holds f p (max1 + 1)" and max: "max1 + 1 < usize_max" and len: "length p \<le> max1 + 1"
    and i: "i \<le> length available"
  shows "\<exists>res. close_frame max1 (max1 + 1) f available i = Some res \<and>
    slice_result res = line_result max1 (p @ take i available)"
proof -
  let ?line = "p @ take i available"
  from i have line_len: "length ?line = length p + i" by simp
  have ol: "of_len f = length p" using f by (simp add: holds_def)
  let ?c = "min i (max1 + 1 - length p)"
  obtain g where g: "append_frame f (take ?c available) = Some g" "holds g (p @ take ?c available) (max1 + 1)"
    using holds_append [OF f, of "take ?c available"] len by fastforce
  show ?thesis
  proof (cases "length p + i \<le> max1 + 1")
    case False
    with max have "min (length p + i) usize_max > max1 + 1" by simp
    moreover have "\<not> fits max1 ?line" using False line_len by (simp add: fits_def)
    ultimately show ?thesis using g ol by (simp add: close_frame_def line_result_def Let_def)
  next
    case True
    then have c: "?c = i" and t: "\<not> min (length p + i) usize_max > max1 + 1" by simp_all
    from g(2) c have h: "holds (strip_trailing_cr g) (chomp ?line) (max1 + 1)" using holds_strip by simp
    then have len2: "of_len (strip_trailing_cr g) = length (chomp ?line)" and sl: "as_slice (strip_trailing_cr g) = chomp ?line"
      by (simp_all add: holds_def)
    have "length (chomp ?line) > max1 \<longleftrightarrow> \<not> fits max1 ?line"
      using True line_len by (auto simp: length_chomp fits_def)
    with g t len2 sl ol c show ?thesis
      by (cases "fits max1 ?line") (auto simp: close_frame_def line_result_def Let_def)
  qed
qed

lemma newline_index_None: "newline_index bs = None \<longleftrightarrow> 10 \<notin> set bs"
proof
  assume "newline_index bs = None"
  then have "length (takeWhile (\<lambda>b. b \<noteq> 10) bs) = length bs"
    using length_takeWhile_le [of "\<lambda>b. b \<noteq> 10" bs] by (auto simp: newline_index_def Let_def split: if_splits)
  then have "takeWhile (\<lambda>b. b \<noteq> 10) bs = bs" by (metis takeWhile_eq_take take_all_iff order_refl)
  then show "10 \<notin> set bs" by (metis (mono_tags) set_takeWhileD)
next
  assume "10 \<notin> set bs"
  then have "takeWhile (\<lambda>b. b \<noteq> 10) bs = bs" by (auto intro!: takeWhile_eq_all_conv [THEN iffD2])
  then have "length (takeWhile (\<lambda>b. b \<noteq> 10) bs) = length bs" by (rule arg_cong)
  then show "newline_index bs = None" unfolding newline_index_def Let_def by simp
qed

lemma newline_index_Some:
  assumes "newline_index bs = Some i"
  shows "i < length bs" "take i bs = takeWhile (\<lambda>b. b \<noteq> 10) bs" "10 \<in> set bs"
    "dropWhile (\<lambda>b. b \<noteq> 10) bs = drop i bs"
proof -
  from assms have i: "i = length (takeWhile (\<lambda>b. b \<noteq> 10) bs)" "i < length bs"
    by (auto simp: newline_index_def Let_def split: if_splits)
  then show "i < length bs" "take i bs = takeWhile (\<lambda>b. b \<noteq> 10) bs" "dropWhile (\<lambda>b. b \<noteq> 10) bs = drop i bs"
    by (simp_all add: takeWhile_eq_take [symmetric] dropWhile_eq_drop)
  from assms newline_index_None [of bs] show "10 \<in> set bs" by auto
qed

lemma fill_buf_stream:
  assumes "fill_buf r = (Inr bs, r1)" "proper_reader r"
  shows "stream r1 = stream r" "stream_failure r1 = stream_failure r" "rd_buf r1 = bs" "proper_reader r1"
    "bs = [] \<Longrightarrow> stream r = [] \<and> stream_failure r = None"
  using assms by (auto simp: fill_buf_def stream_def stream_failure_def proper_reader_def
      split: if_splits list.splits arrival.splits)

lemma fill_buf_fails:
  assumes "fill_buf r = (Inl e, r1)"
  shows "stream r = []" "stream_failure r = Some e"
  using assms by (auto simp: fill_buf_def stream_def stream_failure_def split: if_splits list.splits arrival.splits)

lemma consume_stream:
  "n \<le> length (rd_buf r) \<Longrightarrow> stream (consume n r) = drop n (stream r)"
  "stream_failure (consume n r) = stream_failure r" "proper_reader (consume n r) = proper_reader r"
  by (simp_all add: consume_def stream_def stream_failure_def proper_reader_def)

text \<open>After a complete line, the rest of the stream: \<open>None\<close> stands for an error of the channel.\<close>

definition rest_kept :: "transport_error + bytes \<Rightarrow> bytes \<Rightarrow> reader \<Rightarrow> reader \<Rightarrow> bool" where
  "rest_kept res read_before r r' \<longleftrightarrow> (res = Inl EmptyFrame \<or> (\<exists>p. res = Inr p) \<longrightarrow>
     stream r' = drop 1 (dropWhile (\<lambda>b. b \<noteq> 10) (stream r)) \<and> stream_failure r' = stream_failure r \<and> proper_reader r')"

lemma not_fits_append: "\<not> fits max1 q \<Longrightarrow> \<not> fits max1 (q @ xs)"
  by (cases xs) (auto simp: fits_def)

lemma read_loop_spec:
  assumes "holds f p (max1 + 1)" "max1 + 1 < usize_max" "10 \<notin> set p" "fits max1 p" "proper_reader r"
  shows "\<exists>res r'. read_loop max1 (max1 + 1) f r = Some (res, r') \<and>
    slice_result res = frame_spec max1 (p @ stream r) (stream_failure r) \<and> rest_kept (slice_result res) p r r'"
  using assms
proof (induction "max1" "max1 + 1" f r arbitrary: p rule: read_loop.induct)
  case (1 max1 f r)
  have len: "length p \<le> max1 + 1" and ol: "of_len f = length p"
    using "1.prems" by (auto simp: fits_def holds_def)
  have np: "takeWhile (\<lambda>b. b \<noteq> 10) (p @ xs) = p @ takeWhile (\<lambda>b. b \<noteq> 10) xs"
    "dropWhile (\<lambda>b. b \<noteq> 10) (p @ xs) = dropWhile (\<lambda>b. b \<noteq> 10) xs" for xs
    using "1.prems"(3) by (auto intro!: takeWhile_all dropWhile_all)
  obtain ans r1 where fb: "fill_buf r = (ans, r1)" by fastforce
  show ?case
  proof (cases ans)
    case (Inl e)
    with fb fill_buf_fails [of r e r1] "1.prems" show ?thesis
      by (subst read_loop.simps) (auto simp: frame_spec_def rest_kept_def)
  next
    case (Inr available)
    note fs = fill_buf_stream [OF fb [unfolded Inr] "1.prems"(5)]
    show ?thesis
    proof (cases "available = []")
      case True
      with fb Inr fs(5) "1.prems" ol show ?thesis
        by (subst read_loop.simps) (auto simp: frame_spec_def rest_kept_def)
    next
      case ne: False
      from fs have split: "stream r = available @ arrived_bytes (rd_arrivals r1)"
        by (simp add: stream_def)
      show ?thesis
      proof (cases "newline_index available")
        case (Some i)
        note ni = newline_index_Some [OF Some]
        obtain res where res: "close_frame max1 (max1 + 1) f available i = Some res"
          "slice_result res = line_result max1 (p @ take i available)"
          using close_frame_spec [OF "1.prems"(1,2) len, of i available] ni by auto
        have tw: "takeWhile (\<lambda>b. b \<noteq> 10) (stream r) = take i available"
          "dropWhile (\<lambda>b. b \<noteq> 10) (stream r) = drop i (stream r)" "10 \<in> set (stream r)"
          using ni split by (simp_all add: takeWhile_append1 [of 10] dropWhile_append1 [of 10])
        have "read_loop max1 (max1 + 1) f r = Some (res, consume (i + 1) r1)"
          using res(1) by (subst read_loop.simps) (simp add: fb Inr ne Some)
        moreover have "slice_result res = frame_spec max1 (p @ stream r) (stream_failure r)"
          by (simp add: frame_spec_def res np tw)
        moreover have "rest_kept (slice_result res) p r (consume (i + 1) r1)"
          using fs ni(1) tw by (simp add: rest_kept_def consume_stream)
        ultimately show ?thesis by blast
      next
        case None
        then have nn: "10 \<notin> set available" by (simp add: newline_index_None)
        have nl: "10 \<in> set (p @ stream r) \<longleftrightarrow> 10 \<in> set (arrived_bytes (rd_arrivals r1))"
          using nn "1.prems"(3) split by auto
        have tw: "takeWhile (\<lambda>b. b \<noteq> 10) (p @ stream r) = p @ available @ takeWhile (\<lambda>b. b \<noteq> 10) (arrived_bytes (rd_arrivals r1))"
          using nn split np by (auto intro!: takeWhile_all)
        show ?thesis
        proof (cases "fits max1 (p @ available)")
          case False
          have nf: "\<not> fits max1 (p @ available @ xs)" for xs using not_fits_append [OF False] by simp
          then have "\<not> fits max1 (p @ stream r)" using split by simp
          with nf have "frame_spec max1 (p @ stream r) (stream_failure r) = Inl (FrameTooLarge max1)"
            unfolding frame_spec_def Let_def line_result_def tw by simp
          moreover have "\<exists>r'. read_loop max1 (max1 + 1) f r = Some (Inl (FrameTooLarge max1), r')"
          proof (cases "length p + length available \<le> max1 + 1")
            case fitting: True
            from holds_append [OF "1.prems"(1) fitting] obtain g where
              g: "append_frame f available = Some g" "holds g (p @ available) (max1 + 1)" by blast
            with False fitting have "of_len g = max1 + 1 \<and> \<not> ends_with_cr (as_slice g)"
              by (auto simp: holds_def fits_def)
            with fitting g ol show ?thesis
              by (subst read_loop.simps) (simp add: fb Inr ne None)
          next
            case False
            then have "length available > max1 + 1 - of_len f" using ol len by linarith
            then show ?thesis
              by (subst read_loop.simps) (simp add: fb Inr ne None)
          qed
          ultimately show ?thesis by (auto simp: rest_kept_def)
        next
          case True
          then have fitting: "length p + length available \<le> max1 + 1" by (auto simp: fits_def)
          from holds_append [OF "1.prems"(1) this] obtain g where
            g: "append_frame f available = Some g" "holds g (p @ available) (max1 + 1)" by blast
          have go: "\<not> (of_len g = max1 + 1 \<and> \<not> ends_with_cr (as_slice g))"
            using g(2) True by (auto simp: holds_def fits_def)
          let ?r2 = "consume (length available) r1"
          have r2: "stream ?r2 = arrived_bytes (rd_arrivals r1)" "stream_failure ?r2 = stream_failure r" "proper_reader ?r2"
            using fs split consume_stream [of "length available" r1] by auto
          have "\<exists>res r'. read_loop max1 (max1 + 1) g ?r2 = Some (res, r') \<and>
            slice_result res = frame_spec max1 ((p @ available) @ stream ?r2) (stream_failure ?r2) \<and>
            rest_kept (slice_result res) (p @ available) ?r2 r'"
          proof (rule "1.hyps" [OF fb [unfolded Inr, symmetric]])
            show "\<not> length available > max1 + 1 - of_len f" using fitting ol by linarith
          qed (use g go ne None "1.prems"(2,3) nn True r2(3) in simp_all)
          then obtain res r' where rec: "read_loop max1 (max1 + 1) g ?r2 = Some (res, r')"
            "slice_result res = frame_spec max1 (p @ stream r) (stream_failure r)"
            "rest_kept (slice_result res) (p @ available) ?r2 r'"
            using r2 split by auto
          have "read_loop max1 (max1 + 1) f r = Some (res, r')"
          proof -
            have "\<not> length available > max1 + 1 - of_len f" using fitting ol by linarith
            then show ?thesis
              by (subst read_loop.simps) (simp only: fb Inr prod.case sum.case ne None option.case g(1) go rec(1) if_False)
          qed
          moreover have "rest_kept (slice_result res) p r r'"
          proof -
            have "dropWhile (\<lambda>b. b \<noteq> 10) (stream r) = dropWhile (\<lambda>b. b \<noteq> 10) (stream ?r2)"
              unfolding r2(1) split using nn by (intro dropWhile_all) auto
            with rec(3) r2 show ?thesis by (simp only: rest_kept_def)
          qed
          ultimately show ?thesis using rec(2) by blast
        qed
      qed
    qed
  qed
qed

section \<open>Reading a frame\<close>

lemma read_frame_spec:
  assumes "jl_max_frame_bytes codec + 1 < usize_max" "proper_reader r"
  shows "\<exists>res r'. read_frame codec r = Some (res, r') \<and>
    slice_result res = frame_spec (jl_max_frame_bytes codec) (stream r) (stream_failure r) \<and>
    rest_kept (slice_result res) [] r r'"
  using read_loop_spec [OF holds_new assms(1) _ _ assms(2)] assms(1)
  by (auto simp: read_frame_def fits_def Let_def)

text \<open>C23: Reading a frame never panics and refines the specification on the plain byte stream: the
  payload of the first line when it fits the limit, or the error that says why there is none. The
  result does not depend on how the bytes arrive in chunks, and after a line the rest of the
  stream is exactly what follows its newline.\<close>

theorem read_frame_refines_stream:
  assumes "jl_max_frame_bytes codec + 1 < usize_max" "proper_reader r"
  shows "\<exists>res r'. read_frame codec r = Some (res, r') \<and>
    slice_result res = frame_spec (jl_max_frame_bytes codec) (stream r) (stream_failure r) \<and>
    (\<forall>frame. res = Inr frame \<longrightarrow> stream r' = drop 1 (dropWhile (\<lambda>b. b \<noteq> 10) (stream r)) \<and>
       stream_failure r' = stream_failure r)"
proof -
  from read_frame_spec [OF assms] obtain res r' where r: "read_frame codec r = Some (res, r')"
    "slice_result res = frame_spec (jl_max_frame_bytes codec) (stream r) (stream_failure r)"
    "rest_kept (slice_result res) [] r r'" by blast
  moreover have "frame_spec (jl_max_frame_bytes codec) (stream r) (stream_failure r) = Inr (as_slice frame)"
    if "res = Inr frame" for frame using r(2) that by simp
  ultimately show ?thesis by (intro exI [of _ res] exI [of _ r']) (auto simp: rest_kept_def)
qed

definition split_reader :: reader where
  "split_reader = \<lparr>rd_buf = [], rd_arrivals = [Chunk [123], Chunk [125, 13], Chunk [10, 91]]\<rparr>"

theorem read_frame_refines_stream_witness:
  "\<exists>frame r'. read_frame \<lparr>jl_max_frame_bytes = 2\<rparr> split_reader = Some (Inr frame, r') \<and>
     as_slice frame = [123, 125] \<and> stream r' = [91]"
proof -
  have spec: "frame_spec 2 (stream split_reader) (stream_failure split_reader) = Inr [123, 125]"
    and rest: "drop 1 (dropWhile (\<lambda>b. b \<noteq> 10) (stream split_reader)) = [91]" by code_simp+
  have "jl_max_frame_bytes \<lparr>jl_max_frame_bytes = 2\<rparr> + 1 < usize_max" "proper_reader split_reader"
    by (simp_all add: usize_max_def proper_reader_def split_reader_def)
  from read_frame_refines_stream [OF this] obtain res r' where
    r: "read_frame \<lparr>jl_max_frame_bytes = 2\<rparr> split_reader = Some (res, r')" "slice_result res = Inr [123, 125]"
    "\<forall>frame. res = Inr frame \<longrightarrow> stream r' = [91]" unfolding rest by (auto simp: spec)
  then obtain frame where "res = Inr frame" by (cases res) auto
  with r show ?thesis by simp
qed

section \<open>What is read fits the limit\<close>

lemma line_result_bound: "line_result max1 line = Inr p \<Longrightarrow> 0 < length p \<and> length p \<le> max1"
  by (auto simp: line_result_def fits_def length_chomp split: if_splits)

lemma frame_spec_bound: "frame_spec max1 bs f = Inr p \<Longrightarrow> 0 < length p \<and> length p \<le> max1 \<and> 10 \<notin> set p"
  by (auto simp: frame_spec_def Let_def line_result_bound split: if_splits)
    (auto simp: line_result_def chomp_def split: if_splits dest: set_takeWhileD in_set_butlastD)

text \<open>The storage of a frame keeps its size through everything the loop does with it.\<close>

lemma append_frame_storage:
  "append_frame f bs = Some g \<Longrightarrow> length (of_storage g) = length (of_storage f)"
  by (auto simp: append_frame_def Let_def split: if_splits)

lemma strip_storage [simp]: "of_storage (strip_trailing_cr f) = of_storage f"
  by (simp add: strip_trailing_cr_def)

lemma close_frame_storage:
  "close_frame m l f available i = Some (Inr g) \<Longrightarrow> length (of_storage g) = length (of_storage f)"
  by (auto simp: close_frame_def Let_def dest!: append_frame_storage split: option.splits if_splits)

lemma read_loop_storage:
  "read_loop m l f r = Some (Inr g, r') \<Longrightarrow> length (of_storage g) = length (of_storage f)"
proof (induction m l f r rule: read_loop.induct)
  case (1 m l f r)
  from "1.prems" obtain available r1 where fb: "fill_buf r = (Inr available, r1)" "available \<noteq> []"
    by (subst (asm) read_loop.simps) (auto split: prod.splits sum.splits if_splits)
  show ?case
  proof (cases "newline_index available")
    case (Some i)
    with fb "1.prems" close_frame_storage show ?thesis
      by (subst (asm) read_loop.simps) auto
  next
    case None
    with fb "1.prems" obtain f1 where f1: "append_frame f available = Some f1"
      "\<not> length available > l - of_len f" "\<not> (of_len f1 = l \<and> \<not> ends_with_cr (as_slice f1))"
      "read_loop m l f1 (consume (length available) r1) = Some (Inr g, r')"
      by (subst (asm) read_loop.simps) (auto split: option.splits if_splits)
    from "1.IH" [OF fb(1) [symmetric] refl fb(2) None f1(2,1,3,4)] append_frame_storage [OF f1(1)] show ?thesis by simp
  qed
qed

section \<open>What is written is read back\<close>

text \<open>What the code relies on of the JSON library: the compact encoding of a message is non-empty UTF-8
  text without line breaks, which the decoder of the same type reads back.\<close>

definition json_reads_back :: "'m json_format \<Rightarrow> 'm \<Rightarrow> bool" where
  "json_reads_back format m \<longleftrightarrow> (\<forall>bs. jf_encode format m = Inr bs \<longrightarrow>
     bs \<noteq> [] \<and> 10 \<notin> set bs \<and> 13 \<notin> set bs \<and> (\<exists>txt. from_utf8 bs = Some txt \<and> jf_decode format txt = Inr m))"

definition json_faithful :: "'m json_format \<Rightarrow> bool" where
  "json_faithful format \<longleftrightarrow> (\<forall>m. json_reads_back format m)"

text \<open>A writer whose successful writes append to what it has written.\<close>

definition appending_writer :: "'w writer_port \<Rightarrow> ('w \<Rightarrow> bytes) \<Rightarrow> bool" where
  "appending_writer writer written \<longleftrightarrow>
     (\<forall>bs w w'. wp_write_all writer bs w = (Inr (), w') \<longrightarrow> written w' = written w @ bs) \<and>
     (\<forall>w w'. wp_flush writer w = (Inr (), w') \<longrightarrow> written w' = written w)"

lemma io_or_transport_Inr: "io_or_transport m w = (Inr x, w') \<longleftrightarrow> m w = (Inr x, w')"
  by (auto simp: io_or_transport_def map_err_Inr_iff split: prod.splits)

lemma write_frame_Inr:
  assumes "write_frame format codec writer m w = (Inr (), w')" "appending_writer writer written"
  shows "\<exists>bs. jf_encode format m = Inr bs \<and> length bs \<le> jl_max_frame_bytes codec \<and> written w' = written w @ bs @ [10]"
  using assms
  by (auto simp: write_frame_def io_bind_Inr_iff io_or_transport_Inr map_err_Inr_iff appending_writer_def
      split: if_splits)

lemma frame_spec_line:
  assumes "bs \<noteq> []" "10 \<notin> set bs" "13 \<notin> set bs" "length bs \<le> max1"
  shows "frame_spec max1 (bs @ 10 # rest) f = Inr bs" "drop 1 (dropWhile (\<lambda>b. b \<noteq> 10) (bs @ 10 # rest)) = rest"
proof -
  have t: "takeWhile (\<lambda>b. b \<noteq> 10) (bs @ 10 # rest) = bs" "dropWhile (\<lambda>b. b \<noteq> 10) (bs @ 10 # rest) = 10 # rest"
    using assms(2) by (auto intro!: takeWhile_stop dropWhile_stop)
  have "\<not> ends_with_cr bs" using assms(3) by (auto simp: ends_with_cr_def dest: last_in_set)
  with t assms show "frame_spec max1 (bs @ 10 # rest) f = Inr bs"
    by (simp add: frame_spec_def line_result_def fits_def chomp_def)
  from t show "drop 1 (dropWhile (\<lambda>b. b \<noteq> 10) (bs @ 10 # rest)) = rest" by simp
qed

lemma read_line:
  assumes "jl_max_frame_bytes codec + 1 < usize_max" "proper_reader r" "stream r = bs @ 10 # rest"
    and "bs \<noteq> []" "10 \<notin> set bs" "13 \<notin> set bs" "length bs \<le> jl_max_frame_bytes codec"
  shows "\<exists>frame r'. read_frame codec r = Some (Inr frame, r') \<and> as_slice frame = bs \<and> stream r' = rest \<and> proper_reader r'"
proof -
  from read_frame_spec [OF assms(1,2)] obtain res r' where r: "read_frame codec r = Some (res, r')"
    "slice_result res = Inr bs" "rest_kept (slice_result res) [] r r'"
    using frame_spec_line [OF assms(4-7)] assms(3) by auto
  then obtain frame where f: "res = Inr frame" "as_slice frame = bs" by (cases res) auto
  with r(3) have "stream r' = drop 1 (dropWhile (\<lambda>b. b \<noteq> 10) (stream r))" "proper_reader r'"
    by (auto simp: rest_kept_def)
  with f r(1) frame_spec_line(2) [OF assms(4-7)] assms(3) show ?thesis by auto
qed

fun send_all :: "('m \<Rightarrow> ('w, transport_error, unit) io) \<Rightarrow> 'm list \<Rightarrow> ('w, transport_error, unit) io" where
  "send_all send [] = io_ok ()"
| "send_all send (m # ms) = io_bind (send m) (\<lambda>_. send_all send ms)"

fun receive_n :: "(reader \<Rightarrow> ((transport_error + 'm) \<times> reader) option) \<Rightarrow> nat \<Rightarrow> reader \<Rightarrow> ((transport_error + 'm list) \<times> reader) option" where
  "receive_n receive 0 r = Some (Inr [], r)"
| "receive_n receive (Suc n) r =
     (case receive r of
        None \<Rightarrow> None
      | Some (Inl e, r1) \<Rightarrow> Some (Inl e, r1)
      | Some (Inr m, r1) \<Rightarrow>
          (case receive_n receive n r1 of
             None \<Rightarrow> None
           | Some (Inl e, r2) \<Rightarrow> Some (Inl e, r2)
           | Some (Inr ms, r2) \<Rightarrow> Some (Inr (m # ms), r2)))"

text \<open>A message and its encoding, within the limit and read back.\<close>

definition encodes_as :: "'m json_format \<Rightarrow> json_lines_codec \<Rightarrow> 'm \<Rightarrow> bytes \<Rightarrow> bool" where
  "encodes_as format codec m bs \<longleftrightarrow>
     jf_encode format m = Inr bs \<and> json_reads_back format m \<and> length bs \<le> jl_max_frame_bytes codec"

lemma receive_frames:
  assumes "jl_max_frame_bytes codec + 1 < usize_max"
  shows "list_all2 (encodes_as format codec) ms bss \<Longrightarrow> proper_reader r \<Longrightarrow>
    stream r = concat (map (\<lambda>bs. bs @ [10]) bss) @ rest \<Longrightarrow>
    \<exists>r'. receive_n (\<lambda>r. read_direction format opposite codec r expected received) (length ms) r = Some (Inr ms, r') \<and>
      stream r' = rest \<and> proper_reader r'"
proof (induction arbitrary: r rule: list_all2_induct)
  case (Cons m ms bs bss)
  from Cons(1) obtain content where enc: "bs \<noteq> []" "10 \<notin> set bs" "13 \<notin> set bs" "from_utf8 bs = Some content"
    "jf_decode format content = Inr m" "length bs \<le> jl_max_frame_bytes codec"
    unfolding encodes_as_def json_reads_back_def by blast
  from read_line [OF assms Cons(4) _ enc(1,2,3,6), of "concat (map (\<lambda>bs. bs @ [10]) bss) @ rest"] Cons(5) obtain frame r1
    where f: "read_frame codec r = Some (Inr frame, r1)" "as_slice frame = bs"
      "stream r1 = concat (map (\<lambda>bs. bs @ [10]) bss) @ rest" "proper_reader r1" by auto
  with enc(4,5) have "read_direction format opposite codec r expected received = Some (Inr m, r1)"
    by (simp add: read_direction_def)
  with Cons.IH [OF f(4,3)] show ?case by fastforce
qed simp

lemma send_all_frames:
  assumes "json_faithful format" "appending_writer writer written"
  shows "send_all (write_frame format codec writer) ms w = (Inr (), w') \<Longrightarrow>
    \<exists>bss. list_all2 (encodes_as format codec) ms bss \<and> written w' = written w @ concat (map (\<lambda>bs. bs @ [10]) bss)"
proof (induction ms arbitrary: w)
  case (Cons m ms)
  from Cons.prems obtain w1 where w1: "write_frame format codec writer m w = (Inr (), w1)"
    "send_all (write_frame format codec writer) ms w1 = (Inr (), w')" by (auto simp: io_bind_Inr_iff)
  from write_frame_Inr [OF w1(1) assms(2)] assms(1) obtain bs where
    "encodes_as format codec m bs" "written w1 = written w @ bs @ [10]"
    by (auto simp: encodes_as_def json_faithful_def)
  with Cons.IH [OF w1(2)] show ?case by (force intro: exI [of _ "bs # _"])
qed auto

lemma round_trip_aux:
  assumes "jl_max_frame_bytes codec + 1 < usize_max" "json_faithful format" "appending_writer writer written"
    and "send_all (write_frame format codec writer) ms w = (Inr (), w')"
  shows "\<exists>sent. written w' = written w @ sent \<and> (\<forall>r rest. proper_reader r \<and> stream r = sent @ rest \<longrightarrow>
      (\<exists>r'. receive_n (\<lambda>r. read_direction format opposite codec r expected received) (length ms) r = Some (Inr ms, r') \<and>
        stream r' = rest))"
proof -
  from send_all_frames [OF assms(2-4)] obtain bss where
    "list_all2 (encodes_as format codec) ms bss" "written w' = written w @ concat (map (\<lambda>bs. bs @ [10]) bss)" by blast
  with receive_frames [OF assms(1) this(1)] show ?thesis by blast
qed

text \<open>Messages that were written are read back, all of them and in order, from any reader that
  gets the written bytes in any chunks, and the bytes after them are left for the next read.\<close>

theorem messages_round_trip:
  assumes "jl_max_frame_bytes codec + 1 < usize_max" "json_faithful (wf_host formats)" "appending_writer writer written"
    and "send_all (write_host_to_guest formats codec writer) ms w = (Inr (), w')"
  shows "\<exists>sent. written w' = written w @ sent \<and> (\<forall>r rest. proper_reader r \<and> stream r = sent @ rest \<longrightarrow>
    (\<exists>r'. receive_n (read_host_to_guest formats codec) (length ms) r = Some (Inr ms, r') \<and> stream r' = rest))"
proof -
  have "read_host_to_guest formats codec = (\<lambda>r. read_direction (wf_host formats) (wf_guest formats) codec r
      (asc ''host_to_guest'') (asc ''guest_to_host''))"
    "write_host_to_guest formats codec writer = write_frame (wf_host formats) codec writer"
    by (simp_all add: read_host_to_guest_def write_host_to_guest_def fun_eq_iff)
  with round_trip_aux [OF assms(1,2,3)] assms(4) show ?thesis by simp
qed

text \<open>A toy encoding for the witnesses: one request is the letter \<open>r\<close>, one piece of evidence the
  letter \<open>g\<close>, and nothing else can be encoded.\<close>

definition toy_host :: "host_to_guest json_format" where
  "toy_host = \<lparr>jf_encode = (\<lambda>m. if m = Request \<lparr>wr_id = 0, wr_body = Introspect 7\<rparr> then Inr [114] else Inl []),
     jf_decode = (\<lambda>t. if t = [114] then Inr (Request \<lparr>wr_id = 0, wr_body = Introspect 7\<rparr>) else Inl (asc ''bad''))\<rparr>"

definition toy_evidence :: guest_to_host where
  "toy_evidence = Response (ResponseErr 0 (new_error_report (asc ''failed'') (asc ''test'')))"

definition toy_guest :: "guest_to_host json_format" where
  "toy_guest = \<lparr>jf_encode = (\<lambda>m. if m = toy_evidence then Inr [103] else Inl []),
     jf_decode = (\<lambda>t. if t = [103] then Inr toy_evidence else Inl (asc ''bad''))\<rparr>"

definition toy_formats :: wire_formats where
  "toy_formats = \<lparr>wf_host = toy_host, wf_guest = toy_guest\<rparr>"

definition buffer_writer :: "bytes writer_port" where
  "buffer_writer = \<lparr>wp_write_all = (\<lambda>bs w. (Inr (), w @ bs)), wp_flush = (\<lambda>w. (Inr (), w))\<rparr>"

lemma toy_faithful: "json_faithful toy_host" "json_faithful toy_guest"
  "appending_writer buffer_writer (\<lambda>w. w)"
proof -
  have u: "from_utf8 [114] = Some [114]" "from_utf8 [103] = Some [103]" by code_simp+
  show "json_faithful toy_host" "json_faithful toy_guest"
    using u by (auto simp: json_faithful_def json_reads_back_def toy_host_def toy_guest_def split: if_splits)
  show "appending_writer buffer_writer (\<lambda>w. w)" by (simp add: appending_writer_def buffer_writer_def)
qed

definition toy_request :: host_to_guest where
  "toy_request = Request \<lparr>wr_id = 0, wr_body = Introspect 7\<rparr>"

lemma toy_codec: "jl_max_frame_bytes \<lparr>jl_max_frame_bytes = 2\<rparr> + 1 < usize_max"
  by (simp add: usize_max_def)

theorem messages_round_trip_witness:
  "\<exists>r'. receive_n (read_host_to_guest toy_formats \<lparr>jl_max_frame_bytes = 2\<rparr>) (length [toy_request, toy_request])
      \<lparr>rd_buf = [114], rd_arrivals = [Chunk [10, 114], Chunk [10]]\<rparr> = Some (Inr [toy_request, toy_request], r')"
proof -
  have w: "send_all (write_host_to_guest toy_formats \<lparr>jl_max_frame_bytes = 2\<rparr> buffer_writer) [toy_request, toy_request] []
      = (Inr (), [114, 10, 114, 10])"
    by (simp add: write_host_to_guest_def write_frame_def toy_formats_def toy_host_def toy_request_def buffer_writer_def
        io_bind_def io_or_transport_def)
  have f: "json_faithful (wf_host toy_formats)" by (simp add: toy_formats_def toy_faithful)
  let ?r = "\<lparr>rd_buf = [114], rd_arrivals = [Chunk [10, 114], Chunk [10]]\<rparr>"
  have r: "proper_reader ?r" "stream ?r = [114, 10, 114, 10]"
    by (simp_all add: proper_reader_def stream_def)
  obtain sent where "[114, 10, 114, 10] = [] @ sent" and again: "\<forall>r rest. proper_reader r \<and> stream r = sent @ rest \<longrightarrow>
      (\<exists>r'. receive_n (read_host_to_guest toy_formats \<lparr>jl_max_frame_bytes = 2\<rparr>) (length [toy_request, toy_request]) r =
        Some (Inr [toy_request, toy_request], r') \<and> stream r' = rest)"
    using messages_round_trip [OF toy_codec f toy_faithful(3) w] by blast
  then have "stream ?r = sent @ []" using r(2) by simp
  with again r(1) have "\<exists>r'. receive_n (read_host_to_guest toy_formats \<lparr>jl_max_frame_bytes = 2\<rparr>) (length [toy_request, toy_request]) ?r =
        Some (Inr [toy_request, toy_request], r') \<and> stream r' = []" by blast
  then show ?thesis by blast
qed

text \<open>What the guest side wrote and the decoder of requests refuses is refused as a message of the wrong
  direction; which texts that decoder refuses is the matter of \<open>Wire_Direction\<close>.\<close>

lemma guest_frame_refused:
  assumes "jl_max_frame_bytes codec + 1 < usize_max" "json_reads_back (wf_guest formats) evidence"
    and "\<And>bs txt. jf_encode (wf_guest formats) evidence = Inr bs \<Longrightarrow> from_utf8 bs = Some txt \<Longrightarrow>
      \<exists>e. jf_decode (wf_host formats) txt = Inl e"
    and "appending_writer writer written"
    and "write_guest_to_host formats codec writer evidence w = (Inr (), w')"
    and "proper_reader r" "written w' = written w @ sent" "stream r = sent @ rest"
  shows "\<exists>r'. read_host_to_guest formats codec r =
    Some (Inl (WrongDirection (asc ''host_to_guest'') (asc ''guest_to_host'')), r') \<and> stream r' = rest"
proof -
  from write_frame_Inr [OF assms(5) [unfolded write_guest_to_host_def] assms(4)] assms(7) obtain bs where
    bs: "jf_encode (wf_guest formats) evidence = Inr bs" "length bs \<le> jl_max_frame_bytes codec" "sent = bs @ [10]" by auto
  with assms(2) obtain content where enc: "bs \<noteq> []" "10 \<notin> set bs" "13 \<notin> set bs" "from_utf8 bs = Some content"
    "jf_decode (wf_guest formats) content = Inr evidence" unfolding json_reads_back_def by blast
  from assms(3) bs(1) enc(4) obtain e where no: "jf_decode (wf_host formats) content = Inl e" by blast
  from read_line [OF assms(1,6) _ enc(1,2,3) bs(2), of rest] assms(8) bs(3) obtain frame r1
    where "read_frame codec r = Some (Inr frame, r1)" "as_slice frame = bs" "stream r1 = rest" by auto
  with enc(4,5) no show ?thesis by (simp add: read_host_to_guest_def read_direction_def)
qed

text \<open>A message whose encoding exceeds the limit is refused before a byte of it is written, and
  one that cannot be encoded is reported as such: in both cases the writer is untouched.\<close>

theorem oversized_message_is_not_written:
  "(\<forall>bs. jf_encode format m = Inr bs \<longrightarrow> jl_max_frame_bytes codec < length bs \<longrightarrow>
      write_frame format codec writer m w = (Inl (FrameTooLarge (jl_max_frame_bytes codec)), w)) \<and>
   (\<forall>e. jf_encode format m = Inl e \<longrightarrow> write_frame format codec writer m w = (Inl (Encode e), w))"
  by (simp add: write_frame_def io_bind_def)

theorem oversized_message_is_not_written_witness:
  "write_frame toy_host \<lparr>jl_max_frame_bytes = 0\<rparr> buffer_writer toy_request [1] = (Inl (FrameTooLarge 0), [1])"
  using oversized_message_is_not_written [of toy_host toy_request "\<lparr>jl_max_frame_bytes = 0\<rparr>" buffer_writer "[1]"]
  by (simp add: toy_host_def toy_request_def)

end
