(* ===== verification/Wire_Endpoint.thy ===== *)
theory Wire_Endpoint
  imports Wire_Codec Interfaces
begin

text \<open>
  The endpoints of the control channel: the in-memory pair of \<open>vsock/src/lib.rs\<close> over bounded
  channels, and the connection of \<open>vsock/src/linux.rs\<close> with its terminal close. Calls on one
  connection interleave freely: each call is a program counter that makes one atomic action per
  step (a load, a compare-and-exchange, taking a lock, the codec call, the shutdown). What the
  codec answers is any answer, as it depends on the peer. A value \<open>None\<close> of an in-memory send or
  receive stands for a call that still waits.
\<close>

section \<open>The in-memory transport\<close>

record 'm mock_channel =
  mc_queue :: "'m list"
  mc_capacity :: nat
  mc_sender_alive :: bool
  mc_receiver_alive :: bool

definition open_channel :: "nat \<Rightarrow> 'm list \<Rightarrow> 'm mock_channel" where
  "open_channel cap q = \<lparr>mc_queue = q, mc_capacity = cap, mc_sender_alive = True, mc_receiver_alive = True\<rparr>"

definition mock_send :: "'m mock_channel \<Rightarrow> 'm \<Rightarrow> ((transport_error + unit) \<times> 'm mock_channel) option" where
  "mock_send c m =
     (if \<not> mc_receiver_alive c then Some (Inl PeerClosed, c)
      else map_option (\<lambda>q. (Inr (), c\<lparr>mc_queue := q\<rparr>)) (try_send (mc_capacity c) (mc_queue c) m))"

definition mock_recv :: "'m mock_channel \<Rightarrow> ((transport_error + 'm) \<times> 'm mock_channel) option" where
  "mock_recv c =
     (case try_recv (mc_queue c) of
        Some (m, q) \<Rightarrow> Some (Inr m, c\<lparr>mc_queue := q\<rparr>)
      | None \<Rightarrow> if mc_sender_alive c then None else Some (Inl PeerClosed, c))"

record mock_transport =
  mt_down :: "host_to_guest mock_channel"
  mt_up :: "guest_to_host mock_channel"

text \<open>\<open>None\<close> is the panic of a capacity of zero.\<close>

definition mock_pair :: "nat \<Rightarrow> mock_transport option" where
  "mock_pair capacity =
     (if 0 < capacity then Some \<lparr>mt_down = open_channel capacity [], mt_up = open_channel capacity []\<rparr> else None)"

definition host_send :: "host_to_guest \<Rightarrow> mock_transport \<Rightarrow> ((transport_error + unit) \<times> mock_transport) option" where
  "host_send m t = map_option (\<lambda>(r, c). (r, t\<lparr>mt_down := c\<rparr>)) (mock_send (mt_down t) m)"

definition host_recv :: "mock_transport \<Rightarrow> ((transport_error + guest_to_host) \<times> mock_transport) option" where
  "host_recv t = map_option (\<lambda>(r, c). (r, t\<lparr>mt_up := c\<rparr>)) (mock_recv (mt_up t))"

definition guest_recv :: "mock_transport \<Rightarrow> ((transport_error + host_to_guest) \<times> mock_transport) option" where
  "guest_recv t = map_option (\<lambda>(r, c). (r, t\<lparr>mt_down := c\<rparr>)) (mock_recv (mt_down t))"

definition guest_send :: "guest_to_host \<Rightarrow> mock_transport \<Rightarrow> ((transport_error + unit) \<times> mock_transport) option" where
  "guest_send m t = map_option (\<lambda>(r, c). (r, t\<lparr>mt_up := c\<rparr>)) (mock_send (mt_up t) m)"

definition drop_host :: "mock_transport \<Rightarrow> mock_transport" where
  "drop_host t = t\<lparr>mt_down := (mt_down t)\<lparr>mc_sender_alive := False\<rparr>, mt_up := (mt_up t)\<lparr>mc_receiver_alive := False\<rparr>\<rparr>"

definition drop_guest :: "mock_transport \<Rightarrow> mock_transport" where
  "drop_guest t = t\<lparr>mt_down := (mt_down t)\<lparr>mc_receiver_alive := False\<rparr>, mt_up := (mt_up t)\<lparr>mc_sender_alive := False\<rparr>\<rparr>"

section \<open>The shared stream\<close>

datatype 'a poll = Pending | Ready 'a

definition poisoned_error :: io_error where
  "poisoned_error = io_error_of OtherKind (asc ''vsock stream mutex poisoned'')"

text \<open>Every operation of the shared stream takes the lock first; a poisoned lock is an I/O error.\<close>

definition shared_lock :: "bool \<Rightarrow> io_error + unit" where
  "shared_lock poisoned = (if poisoned then Inl poisoned_error else Inr ())"

definition shared_poll :: "bool \<Rightarrow> ('w \<Rightarrow> (io_error + 'a) poll \<times> 'w) \<Rightarrow> 'w \<Rightarrow> (io_error + 'a) poll \<times> 'w" where
  "shared_poll poisoned operation w =
     (case shared_lock poisoned of Inr u \<Rightarrow> operation w | Inl e \<Rightarrow> (Ready (Inl e), w))"

definition shutdown_both :: "bool \<Rightarrow> ('w, io_error, unit) io \<Rightarrow> ('w, io_error, unit) io" where
  "shutdown_both poisoned shutdown = io_bind (io_lift (shared_lock poisoned)) (\<lambda>_. shutdown)"

section \<open>The terminal close\<close>

definition ensure_open :: "bool \<Rightarrow> transport_error + unit" where
  "ensure_open was_closed = (if was_closed then Inl PeerClosed else Inr ())"

text \<open>\<open>finish\<close> decides on the flag as it is when it is read: the answer, the flag after it, and
  whether this call shuts the stream down.\<close>

definition finish :: "bool \<Rightarrow> transport_error + 'm \<Rightarrow> (transport_error + 'm) \<times> bool \<times> bool" where
  "finish was_closed result =
     (case result of
        Inr v \<Rightarrow> (rbind (ensure_open was_closed) (\<lambda>_. Inr v), was_closed, False)
      | Inl e \<Rightarrow> if \<not> was_closed then (Inl e, True, True) else (Inl PeerClosed, True, False))"

section \<open>One connection\<close>

datatype direction = Reading | Writing

datatype 'm op_pc =
    Arrived
  | Locking
  | Locked
  | Performing
  | Performed "transport_error + 'm"
  | ShuttingDown transport_error
  | Done "transport_error + 'm"

record 'm endpoint_op =
  eo_direction :: direction
  eo_pc :: "'m op_pc"

record 'm endpoint_io =
  ep_max_frame :: nat
  ep_closed :: bool
  ep_shutdowns :: nat
  ep_reader :: "nat option"
  ep_writer :: "nat option"
  ep_ops :: "'m endpoint_op list"

definition new_endpoint :: "nat \<Rightarrow> 'm endpoint_io" where
  "new_endpoint max_frame = \<lparr>ep_max_frame = max_frame, ep_closed = False, ep_shutdowns = 0, ep_reader = None,
     ep_writer = None, ep_ops = []\<rparr>"

definition mutex_of :: "direction \<Rightarrow> 'm endpoint_io \<Rightarrow> nat option" where
  "mutex_of d s = (case d of Reading \<Rightarrow> ep_reader s | Writing \<Rightarrow> ep_writer s)"

definition set_mutex :: "direction \<Rightarrow> nat option \<Rightarrow> 'm endpoint_io \<Rightarrow> 'm endpoint_io" where
  "set_mutex d h s = (case d of Reading \<Rightarrow> s\<lparr>ep_reader := h\<rparr> | Writing \<Rightarrow> s\<lparr>ep_writer := h\<rparr>)"

definition set_pc :: "nat \<Rightarrow> 'm op_pc \<Rightarrow> 'm endpoint_io \<Rightarrow> 'm endpoint_io" where
  "set_pc i pc s = s\<lparr>ep_ops := (ep_ops s)[i := (ep_ops s ! i)\<lparr>eo_pc := pc\<rparr>]\<rparr>"

text \<open>The end of a call that holds its lock: the guard is dropped with the answer.\<close>

definition return_op :: "nat \<Rightarrow> direction \<Rightarrow> transport_error + 'm \<Rightarrow> 'm endpoint_io \<Rightarrow> 'm endpoint_io" where
  "return_op i d r s = set_mutex d None (set_pc i (Done r) s)"

text \<open>The next atomic action of the call \<open>i\<close>; \<open>answer\<close> is what the codec answers if it is called.
  \<open>None\<close>: the call is over, or it waits for its lock.\<close>

definition op_step :: "nat \<Rightarrow> transport_error + 'm \<Rightarrow> 'm endpoint_io \<Rightarrow> 'm endpoint_io option" where
  "op_step i answer s =
     (if length (ep_ops s) \<le> i then None
      else (let d = eo_direction (ep_ops s ! i) in
        case eo_pc (ep_ops s ! i) of
          Arrived \<Rightarrow> Some (case ensure_open (ep_closed s) of
              Inl e \<Rightarrow> set_pc i (Done (Inl e)) s | Inr u \<Rightarrow> set_pc i Locking s)
        | Locking \<Rightarrow> if mutex_of d s = None then Some (set_mutex d (Some i) (set_pc i Locked s)) else None
        | Locked \<Rightarrow> Some (case ensure_open (ep_closed s) of
              Inl e \<Rightarrow> return_op i d (Inl e) s | Inr u \<Rightarrow> set_pc i Performing s)
        | Performing \<Rightarrow> Some (set_pc i (Performed answer) s)
        | Performed result \<Rightarrow> Some (case finish (ep_closed s) result of
              (r, now_closed, shuts) \<Rightarrow>
                if shuts then (case r of Inl e \<Rightarrow> set_pc i (ShuttingDown e) (s\<lparr>ep_closed := now_closed\<rparr>) | Inr v \<Rightarrow> s)
                else return_op i d r (s\<lparr>ep_closed := now_closed\<rparr>))
        | ShuttingDown e \<Rightarrow> Some (return_op i d (Inl e) (s\<lparr>ep_shutdowns := ep_shutdowns s + 1\<rparr>))
        | Done r \<Rightarrow> None))"

text \<open>A call begins, or some call makes its next action.\<close>

inductive endpoint_step :: "'m endpoint_io \<Rightarrow> 'm endpoint_io \<Rightarrow> bool" where
  begin_op: "endpoint_step s (s\<lparr>ep_ops := ep_ops s @ [\<lparr>eo_direction = d, eo_pc = Arrived\<rparr>]\<rparr>)"
| act_op: "op_step i answer s = Some t \<Longrightarrow> endpoint_step s t"

inductive_cases endpoint_stepE: "endpoint_step s t"

section \<open>Connecting\<close>

record vsock_endpoint =
  ve_cid :: u32
  ve_port :: u32

definition host_connect ::
  "(vsock_endpoint \<Rightarrow> ('w, io_error, 's) io) \<Rightarrow> vsock_endpoint \<Rightarrow> nat \<Rightarrow> ('w, transport_error, 's \<times> 'm endpoint_io) io" where
  "host_connect connect endpoint max_frame =
     io_bind (io_or_transport (connect endpoint)) (\<lambda>s. io_ok (s, new_endpoint max_frame))"

record 'l guest_listener =
  gl_listener :: 'l
  gl_max_frame :: nat

definition guest_bind ::
  "(vsock_endpoint \<Rightarrow> ('w, io_error, 'l) io) \<Rightarrow> vsock_endpoint \<Rightarrow> nat \<Rightarrow> ('w, transport_error, 'l guest_listener) io" where
  "guest_bind bind endpoint max_frame =
     io_bind (io_or_transport (bind endpoint)) (\<lambda>l. io_ok \<lparr>gl_listener = l, gl_max_frame = max_frame\<rparr>)"

definition guest_accept ::
  "('l \<Rightarrow> ('w, io_error, 's) io) \<Rightarrow> 'l guest_listener \<Rightarrow> ('w, transport_error, 's \<times> 'm endpoint_io) io" where
  "guest_accept accept listener =
     io_bind (io_or_transport (accept (gl_listener listener))) (\<lambda>s. io_ok (s, new_endpoint (gl_max_frame listener)))"

end
