(* ===== verification/Wire_Endpoint_Facts.thy ===== *)
theory Wire_Endpoint_Facts
  imports Wire_Endpoint
begin

text \<open>
  What the endpoints guarantee: the in-memory channels are first-in first-out and bounded in each
  direction; on a connection with any number of interleaved calls each direction has one call at
  a time, the first failure closes the connection for good, the stream is shut down exactly once,
  exactly one call learns the reason, and nothing succeeds afterwards.
\<close>

section \<open>The in-memory transport\<close>

definition accepted :: "((transport_error + unit) \<times> 'm mock_channel) option \<Rightarrow> 'm list option" where
  "accepted r = (case r of Some (Inr u, c) \<Rightarrow> Some (mc_queue c) | _ \<Rightarrow> None)"

definition delivered :: "((transport_error + 'm) \<times> 'm mock_channel) option \<Rightarrow> ('m \<times> 'm list) option" where
  "delivered r = (case r of Some (Inr m, c) \<Rightarrow> Some (m, mc_queue c) | _ \<Rightarrow> None)"

interpretation mock_queue: bounded_channel
  "\<lambda>q m. accepted (mock_send (open_channel cap q) m)" "\<lambda>q. delivered (mock_recv (open_channel cap q))" "\<lambda>q. q" cap
  for cap
  by unfold_locales
    (auto simp: accepted_def delivered_def mock_send_def mock_recv_def open_channel_def try_send_def try_recv_def
      split: if_splits list.splits)

text \<open>A history of the transport: calls that complete or wait, and drops of an end.\<close>

datatype mock_event = HostSends host_to_guest | GuestReceives | GuestSends guest_to_host | HostReceives | HostDrops | GuestDrops

text \<open>What a history accepts and delivers in the direction from host to guest.\<close>

fun mock_step :: "mock_event \<Rightarrow> mock_transport \<Rightarrow> mock_transport" where
  "mock_step (HostSends m) t = (case host_send m t of None \<Rightarrow> t | Some (r, t') \<Rightarrow> t')"
| "mock_step GuestReceives t = (case guest_recv t of None \<Rightarrow> t | Some (r, t') \<Rightarrow> t')"
| "mock_step (GuestSends m) t = (case guest_send m t of None \<Rightarrow> t | Some (r, t') \<Rightarrow> t')"
| "mock_step HostReceives t = (case host_recv t of None \<Rightarrow> t | Some (r, t') \<Rightarrow> t')"
| "mock_step HostDrops t = drop_host t"
| "mock_step GuestDrops t = drop_guest t"

fun down_accepted :: "mock_event list \<Rightarrow> mock_transport \<Rightarrow> host_to_guest list" where
  "down_accepted [] t = []"
| "down_accepted (ev # evs) t =
     (case ev of HostSends m \<Rightarrow> (case host_send m t of Some (Inr u, t') \<Rightarrow> [m] | _ \<Rightarrow> []) | _ \<Rightarrow> [])
     @ down_accepted evs (mock_step ev t)"

fun down_delivered :: "mock_event list \<Rightarrow> mock_transport \<Rightarrow> host_to_guest list" where
  "down_delivered [] t = []"
| "down_delivered (ev # evs) t =
     (case ev of GuestReceives \<Rightarrow> (case guest_recv t of Some (Inr m, t') \<Rightarrow> [m] | _ \<Rightarrow> []) | _ \<Rightarrow> [])
     @ down_delivered evs (mock_step ev t)"

definition after :: "mock_event list \<Rightarrow> mock_transport \<Rightarrow> mock_transport" where
  "after evs t = fold mock_step evs t"

lemmas mock_defs = host_send_def host_recv_def guest_send_def guest_recv_def mock_send_def mock_recv_def
  drop_host_def drop_guest_def try_send_def try_recv_def

lemma mock_step_down:
  "mc_queue (mt_down t) @ down_accepted [ev] t = down_delivered [ev] t @ mc_queue (mt_down (mock_step ev t))"
  "mc_capacity (mt_down (mock_step ev t)) = mc_capacity (mt_down t)"
  "length (mc_queue (mt_down t)) \<le> mc_capacity (mt_down t) \<Longrightarrow>
     length (mc_queue (mt_down (mock_step ev t))) \<le> mc_capacity (mt_down t)"
  by (cases ev; auto simp: mock_defs split: option.splits list.splits if_splits)+

lemma down_run:
  "mc_queue (mt_down t) @ down_accepted evs t = down_delivered evs t @ mc_queue (mt_down (after evs t)) \<and>
   (length (mc_queue (mt_down t)) \<le> mc_capacity (mt_down t) \<longrightarrow>
      length (mc_queue (mt_down (after evs t))) \<le> mc_capacity (mt_down t))"
proof (induction evs arbitrary: t)
  case (Cons ev evs)
  have "down_accepted (ev # evs) t = down_accepted [ev] t @ down_accepted evs (mock_step ev t)"
    "down_delivered (ev # evs) t = down_delivered [ev] t @ down_delivered evs (mock_step ev t)"
    by simp_all
  with Cons [of "mock_step ev t"] mock_step_down [where ev = ev and t = t] show ?case
    by (metis (no_types, lifting) after_def append.assoc fold_simps(2))
qed (simp add: after_def)

text \<open>Over any history of an in-memory pair, what the guest has received is a prefix of what the
  host's sends were told was accepted, in order; the difference is what the channel holds, which
  is never more than the capacity; and traffic of the other direction or a dropped end loses and
  invents nothing.\<close>

theorem mock_requests_fifo:
  assumes "mock_pair capacity = Some t"
  shows "down_accepted evs t = down_delivered evs t @ mc_queue (mt_down (after evs t)) \<and>
    length (mc_queue (mt_down (after evs t))) \<le> capacity"
  using down_run [of t evs] assms by (auto simp: mock_pair_def open_channel_def split: if_splits)

definition numbered_request :: "uuid \<Rightarrow> host_to_guest" where
  "numbered_request n = Request \<lparr>wr_id = n, wr_body = Introspect 7\<rparr>"

theorem mock_requests_fifo_witness:
  "\<exists>t. mock_pair 1 = Some t \<and>
     down_accepted [HostSends (numbered_request 1), HostSends (numbered_request 2), GuestReceives] t = [numbered_request 1] \<and>
     down_delivered [HostSends (numbered_request 1), HostSends (numbered_request 2), GuestReceives] t = [numbered_request 1] \<and>
     mc_queue (mt_down (after [HostSends (numbered_request 1), HostSends (numbered_request 2), GuestReceives] t)) = []"
proof -
  let ?t = "\<lparr>mt_down = open_channel 1 [], mt_up = open_channel 1 []\<rparr>"
    and ?evs = "[HostSends (numbered_request 1), HostSends (numbered_request 2), GuestReceives]"
  have t: "mock_pair 1 = Some ?t" by (simp add: mock_pair_def)
  have "down_accepted ?evs ?t = [numbered_request 1]" "down_delivered ?evs ?t = [numbered_request 1]"
    by (simp_all add: mock_defs open_channel_def)
  with mock_requests_fifo [OF t, of ?evs] t show ?thesis by auto
qed

section \<open>The invariants of a connection\<close>

definition pc_of :: "'m endpoint_io \<Rightarrow> nat \<Rightarrow> 'm op_pc" where
  "pc_of s i = eo_pc (ep_ops s ! i)"

definition dir_of :: "'m endpoint_io \<Rightarrow> nat \<Rightarrow> direction" where
  "dir_of s i = eo_direction (ep_ops s ! i)"

fun holding :: "'m op_pc \<Rightarrow> bool" where
  "holding Locked = True"
| "holding Performing = True"
| "holding (Performed r) = True"
| "holding (ShuttingDown e) = True"
| "holding _ = False"

fun shutting :: "'m op_pc \<Rightarrow> bool" where
  "shutting (ShuttingDown e) = True"
| "shutting _ = False"

fun reported :: "'m op_pc \<Rightarrow> bool" where
  "reported (Done (Inl e)) = (e \<noteq> PeerClosed)"
| "reported _ = False"

fun succeeded :: "'m op_pc \<Rightarrow> bool" where
  "succeeded (Done (Inr v)) = True"
| "succeeded _ = False"

definition count_ops :: "('m op_pc \<Rightarrow> bool) \<Rightarrow> 'm endpoint_io \<Rightarrow> nat" where
  "count_ops P s = length (filter (\<lambda>op1. P (eo_pc op1)) (ep_ops s))"

lemma length_filter_update:
  "i < length xs \<Longrightarrow> length (filter P (xs[i := y])) + (if P (xs ! i) then 1 else 0) =
     length (filter P xs) + (if P y then 1 else 0)"
proof (induction xs arbitrary: i)
  case (Cons x xs)
  then show ?case by (cases i) auto
qed simp

lemma set_mutex_simps [simp]:
  "ep_ops (set_mutex d h s) = ep_ops s" "ep_closed (set_mutex d h s) = ep_closed s"
  "ep_shutdowns (set_mutex d h s) = ep_shutdowns s"
  "mutex_of d' (set_mutex d h s) = (if d' = d then h else mutex_of d' s)"
  by (cases d; cases d'; simp add: set_mutex_def mutex_of_def)+

lemma set_pc_simps [simp]:
  "length (ep_ops (set_pc i pc s)) = length (ep_ops s)" "ep_closed (set_pc i pc s) = ep_closed s"
  "ep_shutdowns (set_pc i pc s) = ep_shutdowns s" "mutex_of d (set_pc i pc s) = mutex_of d s"
  by (cases d; simp add: set_pc_def mutex_of_def)+

lemma flag_simps [simp]:
  "mutex_of d (s\<lparr>ep_closed := b\<rparr>) = mutex_of d s" "mutex_of d (s\<lparr>ep_shutdowns := n\<rparr>) = mutex_of d s"
  "mutex_of d (s\<lparr>ep_ops := ops\<rparr>) = mutex_of d s"
  "pc_of (s\<lparr>ep_closed := b\<rparr>) = pc_of s" "pc_of (s\<lparr>ep_shutdowns := n\<rparr>) = pc_of s"
  "dir_of (s\<lparr>ep_closed := b\<rparr>) = dir_of s" "dir_of (s\<lparr>ep_shutdowns := n\<rparr>) = dir_of s"
  "count_ops P (s\<lparr>ep_closed := b\<rparr>) = count_ops P s" "count_ops P (s\<lparr>ep_shutdowns := n\<rparr>) = count_ops P s"
  "pc_of (set_mutex d' h s) = pc_of s" "dir_of (set_mutex d' h s) = dir_of s" "count_ops P (set_mutex d' h s) = count_ops P s"
  by (cases d; simp add: mutex_of_def pc_of_def dir_of_def count_ops_def fun_eq_iff)+

lemma pc_of_set_pc [simp]:
  "i < length (ep_ops s) \<Longrightarrow> pc_of (set_pc i pc s) j = (if j = i then pc else pc_of s j)"
  "i < length (ep_ops s) \<Longrightarrow> dir_of (set_pc i pc s) j = dir_of s j"
  by (auto simp: pc_of_def dir_of_def set_pc_def nth_list_update)

lemma count_set_pc:
  "i < length (ep_ops s) \<Longrightarrow> count_ops P (set_pc i pc s) + (if P (pc_of s i) then 1 else 0) =
     count_ops P s + (if P pc then 1 else 0)"
  using length_filter_update [of i "ep_ops s" "\<lambda>op1. P (eo_pc op1)" "(ep_ops s ! i)\<lparr>eo_pc := pc\<rparr>"]
  by (simp add: count_ops_def set_pc_def pc_of_def)

text \<open>The steps of a call, one equation per program counter.\<close>

lemma op_step_cases:
  assumes "op_step i answer s = Some t"
  obtains "i < length (ep_ops s)" "pc_of s i = Arrived" "t = set_pc i (if ep_closed s then Done (Inl PeerClosed) else Locking) s"
  | "i < length (ep_ops s)" "pc_of s i = Locking" "mutex_of (dir_of s i) s = None"
      "t = set_mutex (dir_of s i) (Some i) (set_pc i Locked s)"
  | "i < length (ep_ops s)" "pc_of s i = Locked" "ep_closed s" "t = return_op i (dir_of s i) (Inl PeerClosed) s"
  | "i < length (ep_ops s)" "pc_of s i = Locked" "\<not> ep_closed s" "t = set_pc i Performing s"
  | "i < length (ep_ops s)" "pc_of s i = Performing" "t = set_pc i (Performed answer) s"
  | v where "i < length (ep_ops s)" "pc_of s i = Performed (Inr v)" "\<not> ep_closed s" "t = return_op i (dir_of s i) (Inr v) s"
  | r where "i < length (ep_ops s)" "pc_of s i = Performed r" "ep_closed s" "t = return_op i (dir_of s i) (Inl PeerClosed) s"
  | e where "i < length (ep_ops s)" "pc_of s i = Performed (Inl e)" "\<not> ep_closed s"
      "t = set_pc i (ShuttingDown e) (s\<lparr>ep_closed := True\<rparr>)"
  | e where "i < length (ep_ops s)" "pc_of s i = ShuttingDown e"
      "t = return_op i (dir_of s i) (Inl e) (s\<lparr>ep_shutdowns := ep_shutdowns s + 1\<rparr>)"
proof -
  have i: "i < length (ep_ops s)" using assms by (simp add: op_step_def split: if_splits)
  have same: "ep_closed s \<Longrightarrow> s\<lparr>ep_closed := True\<rparr> = s" "\<not> ep_closed s \<Longrightarrow> s\<lparr>ep_closed := False\<rparr> = s"
    by (cases s, simp)+
  show thesis
  proof (cases "pc_of s i")
    case (Performed r)
    show thesis
    proof (cases "ep_closed s")
      case True
      with assms i Performed have "t = return_op i (dir_of s i) (Inl PeerClosed) (s\<lparr>ep_closed := True\<rparr>)"
        by (cases r) (simp_all add: op_step_def pc_of_def dir_of_def finish_def ensure_open_def Let_def)
      from this [unfolded same(1) [OF True]] show thesis by (rule that(7) [OF i Performed True])
    next
      case False
      show thesis
      proof (cases r)
        case (Inr v)
        with assms i Performed False have "t = return_op i (dir_of s i) (Inr v) (s\<lparr>ep_closed := False\<rparr>)"
          by (simp add: op_step_def pc_of_def dir_of_def finish_def ensure_open_def Let_def)
        from this [unfolded same(2) [OF False]] show thesis
          by (rule that(6) [OF i Performed [unfolded Inr] False])
      next
        case (Inl e)
        with assms i Performed False that(8) show thesis
          by (auto simp: op_step_def pc_of_def dir_of_def finish_def Let_def)
      qed
    qed
  qed (use assms i that in \<open>auto simp: op_step_def pc_of_def dir_of_def ensure_open_def Let_def split: if_splits\<close>)
qed

definition inv_mutex :: "'m endpoint_io \<Rightarrow> bool" where
  "inv_mutex s \<longleftrightarrow> (\<forall>d i. mutex_of d s = Some i \<longleftrightarrow> i < length (ep_ops s) \<and> dir_of s i = d \<and> holding (pc_of s i))"

definition inv_close :: "'m endpoint_io \<Rightarrow> bool" where
  "inv_close s \<longleftrightarrow> ep_shutdowns s + count_ops shutting s = (if ep_closed s then 1 else 0) \<and>
     count_ops reported s \<le> ep_shutdowns s"

lemma count_ops_pos: "i < length (ep_ops s) \<Longrightarrow> P (pc_of s i) \<Longrightarrow> 0 < count_ops P s"
  by (auto simp: count_ops_def pc_of_def filter_empty_conv)

lemma count_set_pc_eq:
  assumes "i < length (ep_ops s)"
  shows "count_ops P (set_pc i pc s) = count_ops P s - (if P (pc_of s i) then 1 else 0) + (if P pc then 1 else 0)"
  using count_set_pc [OF assms, of P pc] count_ops_pos [OF assms, of P] by (simp split: if_splits)

lemma mutex_exclusive:
  assumes "inv_mutex s" "i < length (ep_ops s)" "j < length (ep_ops s)" "holding (pc_of s i)" "holding (pc_of s j)"
    "dir_of s i = dir_of s j"
  shows "i = j"
  using assms unfolding inv_mutex_def by (metis option.inject)

lemma inv_mutex_step:
  assumes "inv_mutex s" "op_step i answer s = Some t"
  shows "inv_mutex t"
proof -
  have uniq: "j = k" if "j < length (ep_ops s)" "k < length (ep_ops s)" "holding (pc_of s j)" "holding (pc_of s k)"
      "dir_of s j = dir_of s k" for j k
    using mutex_exclusive [OF assms(1)] that by blast
  have inv: "(mutex_of d s = Some j) = (j < length (ep_ops s) \<and> dir_of s j = d \<and> holding (pc_of s j))" for d j
    using assms(1) by (simp add: inv_mutex_def)
  have release: "inv_mutex (set_mutex (dir_of s i) None (set_pc i (Done r) s))"
    if "i < length (ep_ops s)" "holding (pc_of s i)" for r
    using that uniq by (auto simp: inv_mutex_def inv)
  have stay: "inv_mutex (set_pc i pc s)" if "i < length (ep_ops s)" "holding pc = holding (pc_of s i)" for pc
    using that by (auto simp: inv_mutex_def inv)
  have flags: "inv_mutex (set_mutex d h (set_pc i pc (s\<lparr>ep_shutdowns := n\<rparr>))) = inv_mutex (set_mutex d h (set_pc i pc s))"
    "inv_mutex (set_pc i pc (s\<lparr>ep_closed := b\<rparr>)) = inv_mutex (set_pc i pc s)" if "i < length (ep_ops s)" for d h pc n b
    using that by (simp_all add: inv_mutex_def)
  show ?thesis
    using assms(2)
  proof (cases rule: op_step_cases)
    case 2
    have "dir_of s j \<noteq> dir_of s i" if "j < length (ep_ops s)" "holding (pc_of s j)" for j
      using inv [of "dir_of s j" j] that 2(3) by (metis option.distinct(1))
    with 2 show ?thesis by (auto simp: inv_mutex_def inv split: if_splits)
  qed (use release stay flags in \<open>auto simp: return_op_def\<close>)
qed

lemma inv_close_step:
  assumes "inv_close s" "op_step i answer s = Some t"
  shows "inv_close t"
  using assms(2)
proof (cases rule: op_step_cases)
  case (9 e)
  with assms(1) count_ops_pos [of i s shutting] show ?thesis
    by (auto simp: inv_close_def return_op_def count_set_pc_eq split: if_splits)
qed (use assms(1) in \<open>auto simp: inv_close_def return_op_def count_set_pc_eq\<close>)

section \<open>Every run of a connection\<close>

definition endpoint_reachable :: "nat \<Rightarrow> 'm endpoint_io \<Rightarrow> bool" where
  "endpoint_reachable max_frame s \<longleftrightarrow> endpoint_step\<^sup>*\<^sup>* (new_endpoint max_frame) s"

lemma inv_begin:
  fixes s d
  defines "t \<equiv> s\<lparr>ep_ops := ep_ops s @ [\<lparr>eo_direction = d, eo_pc = Arrived\<rparr>]\<rparr>"
  shows "inv_mutex s \<Longrightarrow> inv_mutex t" "inv_close s \<Longrightarrow> inv_close t"
proof -
  have "i < length (ep_ops s) \<Longrightarrow> pc_of t i = pc_of s i \<and> dir_of t i = dir_of s i" for i
    by (simp add: t_def pc_of_def dir_of_def nth_append)
  moreover have "pc_of t (length (ep_ops s)) = Arrived" by (simp add: t_def pc_of_def)
  moreover have "length (ep_ops t) = Suc (length (ep_ops s))" "mutex_of d' t = mutex_of d' s" for d'
    by (simp_all add: t_def)
  ultimately show "inv_mutex s \<Longrightarrow> inv_mutex t"
    by (auto simp: inv_mutex_def less_Suc_eq)
  show "inv_close s \<Longrightarrow> inv_close t" by (simp add: inv_close_def count_ops_def t_def)
qed

lemma reachable_invs:
  assumes "endpoint_reachable max_frame s"
  shows "inv_mutex s \<and> inv_close s"
  using assms unfolding endpoint_reachable_def
proof (induction rule: rtranclp_induct)
  case base
  show ?case by (auto simp: inv_mutex_def inv_close_def new_endpoint_def count_ops_def mutex_of_def split: direction.split)
next
  case (step s t)
  from step(2) show ?case
    by (rule endpoint_stepE) (use step(3) inv_begin inv_mutex_step inv_close_step in blast)+
qed

lemma op_step_closed: "op_step i answer s = Some t \<Longrightarrow> ep_closed s \<Longrightarrow> ep_closed t"
  by (erule op_step_cases) (simp_all add: return_op_def)

interpretation endpoint_latch: latch ep_closed endpoint_step
  by unfold_locales (erule endpoint_stepE; auto dest: op_step_closed)

text \<open>However calls interleave, the two directions are served one call at a time: no two calls of
  one direction are between taking their lock and their answer, and the stream is never shut down
  before the connection is closed, never more than once, and exactly once when no call is left
  in its shutdown; at most one call reports a reason other than a closed peer.\<close>

theorem connection_closes_exactly_once:
  assumes "endpoint_reachable max_frame s"
  shows "ep_shutdowns s + count_ops shutting s = (if ep_closed s then 1 else 0) \<and>
    count_ops reported s \<le> ep_shutdowns s \<and>
    (\<forall>i<length (ep_ops s). \<forall>j<length (ep_ops s). holding (pc_of s i) \<and> holding (pc_of s j) \<and> dir_of s i = dir_of s j \<longrightarrow> i = j)"
  using reachable_invs [OF assms] mutex_exclusive [of s] by (auto simp: inv_close_def)

lemma succeeded_step:
  assumes "op_step i answer s = Some t" "ep_closed s" "j < length (ep_ops t)" "succeeded (pc_of t j)"
  shows "j < length (ep_ops s) \<and> pc_of t j = pc_of s j"
  using assms(1)
  by (cases rule: op_step_cases) (use assms in \<open>auto simp: return_op_def split: if_splits\<close>)

text \<open>The close is terminal: once a connection is closed it stays closed, and a call that has not
  succeeded by then never does: its answer is an error.\<close>

theorem closed_connection_never_succeeds:
  assumes "endpoint_step\<^sup>*\<^sup>* s t" "ep_closed s"
  shows "ep_closed t \<and> (\<forall>i<length (ep_ops t). succeeded (pc_of t i) \<longrightarrow> i < length (ep_ops s) \<and> pc_of t i = pc_of s i)"
  using assms(1)
proof (induction rule: rtranclp_induct)
  case (step t u)
  have closed: "ep_closed t" using step(3) by blast
  from step(2) show ?case
  proof (rule endpoint_stepE)
    fix d assume u: "u = t\<lparr>ep_ops := ep_ops t @ [\<lparr>eo_direction = d, eo_pc = Arrived\<rparr>]\<rparr>"
    show ?thesis using step(3) closed by (auto simp: u pc_of_def nth_append less_Suc_eq)
  next
    fix i answer assume st: "op_step i answer t = Some u"
    from succeeded_step [OF st closed] op_step_closed [OF st closed] step(3) show ?thesis by fastforce
  qed
qed (use assms(2) in simp)

lemma some_call_moves:
  assumes "inv_mutex s" "i < length (ep_ops s)" "\<forall>r. pc_of s i \<noteq> Done r"
  shows "\<exists>j t. op_step j answer s = Some t"
proof (cases "pc_of s i = Locking \<and> mutex_of (dir_of s i) s \<noteq> None")
  case True
  then obtain j where "mutex_of (dir_of s i) s = Some j" by blast
  with assms(1) have j: "j < length (ep_ops s)" "holding (pc_of s j)"
    by (auto simp: inv_mutex_def)
  then show ?thesis
    by (intro exI [of _ j]) (cases "pc_of s j"; simp add: op_step_def pc_of_def Let_def)
next
  case False
  with assms(2,3) show ?thesis
    by (intro exI [of _ i]) (cases "pc_of s i"; auto simp: op_step_def pc_of_def dir_of_def Let_def)
qed

text \<open>No deadlock: as long as a call is not over, some call can make its next action, so a
  direction's lock is never held by a call that cannot go on.\<close>

theorem connection_never_deadlocks:
  assumes "endpoint_reachable max_frame s" "i < length (ep_ops s)" "\<forall>r. pc_of s i \<noteq> Done r"
  shows "\<exists>j t. op_step j answer s = Some t"
  using some_call_moves [OF _ assms(2,3)] reachable_invs [OF assms(1)] by blast

section \<open>A run\<close>

text \<open>Two reads and a write, the read fails while the write is under way.\<close>

fun play :: "(nat \<times> (transport_error + nat)) list \<Rightarrow> nat endpoint_io \<Rightarrow> nat endpoint_io option" where
  "play [] s = Some s"
| "play ((i, a) # steps) s = (case op_step i a s of None \<Rightarrow> None | Some t \<Rightarrow> play steps t)"

lemma play_reaches: "play steps s = Some t \<Longrightarrow> endpoint_step\<^sup>*\<^sup>* s t"
proof (induction steps arbitrary: s)
  case (Cons st steps)
  obtain i a where "st = (i, a)" by fastforce
  with Cons show ?case
    by (auto split: option.splits intro: converse_rtranclp_into_rtranclp act_op)
qed simp

definition three_calls :: "nat endpoint_io" where
  "three_calls = (new_endpoint 10)\<lparr>ep_ops := [\<lparr>eo_direction = Reading, eo_pc = Arrived\<rparr>,
     \<lparr>eo_direction = Writing, eo_pc = Arrived\<rparr>, \<lparr>eo_direction = Reading, eo_pc = Arrived\<rparr>]\<rparr>"

lemma three_calls_reachable: "endpoint_step\<^sup>*\<^sup>* (new_endpoint 10) three_calls"
proof -
  let ?op = "\<lambda>d. \<lparr>eo_direction = d, eo_pc = Arrived\<rparr>" and ?s = "\<lambda>ops. (new_endpoint 10)\<lparr>ep_ops := ops\<rparr> :: nat endpoint_io"
  have "endpoint_step (?s ops) (?s (ops @ [?op d]))" for ops d
    using begin_op [of "?s ops" d] by simp
  from this [of "[]" Reading] this [of "[?op Reading]" Writing] this [of "[?op Reading, ?op Writing]" Reading]
  have "endpoint_step\<^sup>*\<^sup>* (?s []) three_calls"
    by (simp add: three_calls_def)
  then show ?thesis by (simp add: new_endpoint_def)
qed

definition failing_steps :: "(nat \<times> (transport_error + nat)) list" where
  "failing_steps = [(0, Inr 0), (1, Inr 0), (0, Inr 0), (1, Inr 0), (0, Inr 0), (1, Inr 0), (2, Inr 0),
     (0, Inl TruncatedFrame), (1, Inr 5), (0, Inr 0), (1, Inr 0), (0, Inr 0)]"

lemma failing_run:
  "\<exists>s. play failing_steps three_calls = Some s \<and> ep_closed s \<and> ep_shutdowns s = 1 \<and>
     map eo_pc (ep_ops s) = [Done (Inl TruncatedFrame), Done (Inl PeerClosed), Locking]"
proof -
  have "(case play failing_steps three_calls of None \<Rightarrow> False
    | Some s \<Rightarrow> ep_closed s \<and> ep_shutdowns s = 1 \<and> map eo_pc (ep_ops s) = [Done (Inl TruncatedFrame), Done (Inl PeerClosed), Locking])"
    by code_simp
  then show ?thesis by (auto split: option.splits)
qed

lemma failing_run_last:
  assumes "map eo_pc (ep_ops s) = [a, b, c]"
  shows "length (ep_ops s) = 3" "pc_of s 2 = c"
proof -
  have "length (map eo_pc (ep_ops s)) = 3" unfolding assms by simp
  then show n: "length (ep_ops s) = 3" by simp
  have "map eo_pc (ep_ops s) ! 2 = c" unfolding assms by simp
  with n show "pc_of s 2 = c" by (simp add: pc_of_def)
qed

lemma failing_reachable: "play failing_steps three_calls = Some s \<Longrightarrow> endpoint_reachable 10 s"
  unfolding endpoint_reachable_def using three_calls_reachable play_reaches by (meson rtranclp_trans)

theorem connection_closes_exactly_once_witness:
  "\<exists>s. play failing_steps three_calls = Some s \<and> ep_closed s \<and> ep_shutdowns s + count_ops shutting s = 1 \<and>
     count_ops reported s \<le> 1"
proof -
  obtain s where s: "play failing_steps three_calls = Some s" "ep_closed s" "ep_shutdowns s = 1" using failing_run by blast
  from connection_closes_exactly_once [OF failing_reachable [OF s(1)]] s show ?thesis by auto
qed

theorem closed_connection_never_succeeds_witness:
  "\<exists>s t. play failing_steps three_calls = Some s \<and> op_step 2 (Inr 7) s = Some t \<and> \<not> succeeded (pc_of t 2)"
proof -
  obtain s where s: "play failing_steps three_calls = Some s" "ep_closed s"
    "map eo_pc (ep_ops s) = [Done (Inl TruncatedFrame), Done (Inl PeerClosed), Locking]"
    using failing_run by (elim exE conjE) (rule that; assumption)
  have "(case play failing_steps three_calls of None \<Rightarrow> False
    | Some s \<Rightarrow> (case op_step 2 (Inr 7) s of None \<Rightarrow> False | Some t \<Rightarrow> length (ep_ops t) = 3))" by code_simp
  with s(1) obtain t where t: "op_step 2 (Inr 7) s = Some t" "length (ep_ops t) = 3" by (auto split: option.splits)
  have "endpoint_step\<^sup>*\<^sup>* s t" using act_op [OF t(1)] by blast
  from closed_connection_never_succeeds [OF this s(2)] t have "succeeded (pc_of t 2) \<longrightarrow> pc_of t 2 = pc_of s 2" by simp
  moreover have "pc_of s 2 = Locking" by (rule failing_run_last(2) [OF s(3)])
  ultimately have "\<not> succeeded (pc_of t 2)" by auto
  with s(1) t(1) show ?thesis by blast
qed

theorem connection_never_deadlocks_witness:
  "\<exists>s j t. play failing_steps three_calls = Some s \<and> op_step j (Inr 7) s = Some t"
proof -
  obtain s where s: "play failing_steps three_calls = Some s"
    "map eo_pc (ep_ops s) = [Done (Inl TruncatedFrame), Done (Inl PeerClosed), Locking]"
    using failing_run by (elim exE conjE) (rule that; assumption)
  have "2 < length (ep_ops s)" "pc_of s 2 = Locking"
    using failing_run_last [OF s(2)] by simp_all
  then obtain j t where "op_step j (Inr 7) s = Some t"
    using connection_never_deadlocks [OF failing_reachable [OF s(1)], of 2 "Inr 7"] by auto
  with s(1) show ?thesis by blast
qed

end
