(* ===== verification/Wire_Connection.thy ===== *)
theory Wire_Connection
  imports Wire_Endpoint
begin

text \<open>
  One side of a connection as the calls of its endpoint see it (\<open>EndpointIo\<close> of \<open>linux.rs\<close> with its
  codec, reader and writer), each call from beginning to end; the interleaving of calls is the
  matter of \<open>Wire_Endpoint\<close>. The endpoint traits of \<open>lib.rs\<close> are records of their operations.
\<close>

section \<open>Calls that may not return\<close>

text \<open>\<open>None\<close>: the call panics or waits for ever.\<close>

type_synonym ('w, 'e, 'a) act = "'w \<Rightarrow> (('e + 'a) \<times> 'w) option"

definition act_lift :: "'e + 'a \<Rightarrow> ('w, 'e, 'a) act" where
  "act_lift r = (\<lambda>w. Some (r, w))"

definition act_bind :: "('w, 'e, 'a) act \<Rightarrow> ('a \<Rightarrow> ('w, 'e, 'b) act) \<Rightarrow> ('w, 'e, 'b) act" where
  "act_bind m f = (\<lambda>w. case m w of
      None \<Rightarrow> None
    | Some (Inl e, w') \<Rightarrow> Some (Inl e, w')
    | Some (Inr x, w') \<Rightarrow> f x w')"

definition act_map_err :: "('e \<Rightarrow> 'f) \<Rightarrow> ('w, 'e, 'a) act \<Rightarrow> ('w, 'f, 'a) act" where
  "act_map_err g m = (\<lambda>w. case m w of None \<Rightarrow> None | Some (r, w') \<Rightarrow> Some (map_err g r, w'))"

lemma act_simps [simp]:
  "act_lift r w = Some (r, w)"
  "act_bind (act_lift (Inr x)) f = f x" "act_bind (act_lift (Inl e)) f = act_lift (Inl e)"
  by (simp_all add: act_lift_def act_bind_def fun_eq_iff)

lemma act_bind_eval:
  "m w = Some (Inr x, w') \<Longrightarrow> act_bind m f w = f x w'"
  "m w = Some (Inl e, w') \<Longrightarrow> act_bind m f w = Some (Inl e, w')"
  by (simp_all add: act_bind_def)

lemma act_bind_Inr_iff:
  "act_bind m f w = Some (Inr y, w'') \<longleftrightarrow> (\<exists>x w'. m w = Some (Inr x, w') \<and> f x w' = Some (Inr y, w''))"
  by (auto simp: act_bind_def split: option.splits sum.splits)

lemma act_map_err_Inr_iff: "act_map_err g m w = Some (Inr y, w') \<longleftrightarrow> m w = Some (Inr y, w')"
  by (auto simp: act_map_err_def map_err_Inr_iff split: option.splits)

section \<open>One side of a connection\<close>

record 'w connection =
  cn_codec :: json_lines_codec
  cn_closed :: bool
  cn_shutdowns :: nat
  cn_reader :: reader
  cn_peer :: 'w

definition new_connection :: "nat \<Rightarrow> reader \<Rightarrow> 'w \<Rightarrow> 'w connection" where
  "new_connection max_frame reader peer = \<lparr>cn_codec = \<lparr>jl_max_frame_bytes = max_frame\<rparr>, cn_closed = False,
     cn_shutdowns = 0, cn_reader = reader, cn_peer = peer\<rparr>"

text \<open>\<open>TerminalClose\<close> on the flag of the connection; a shutdown of the stream is counted.\<close>

definition check_open :: "('w connection, transport_error, unit) act" where
  "check_open = (\<lambda>c. Some (ensure_open (cn_closed c), c))"

definition conclude :: "transport_error + 'm \<Rightarrow> 'w connection \<Rightarrow> (transport_error + 'm) \<times> 'w connection" where
  "conclude result c =
     (case finish (cn_closed c) result of
        (r, now_closed, shuts) \<Rightarrow>
          (r, c\<lparr>cn_closed := now_closed, cn_shutdowns := cn_shutdowns c + (if shuts then 1 else 0)\<rparr>))"

text \<open>A call: open before the lock, open after it, the codec, the conclusion.\<close>

definition endpoint_call ::
  "('w connection \<Rightarrow> ((transport_error + 'm) \<times> 'w connection) option) \<Rightarrow> ('w connection, transport_error, 'm) act" where
  "endpoint_call codec_call =
     act_bind check_open (\<lambda>_. act_bind check_open (\<lambda>_. (\<lambda>c.
       case codec_call c of None \<Rightarrow> None | Some (result, c1) \<Rightarrow> Some (conclude result c1))))"

definition reading ::
  "(json_lines_codec \<Rightarrow> reader \<Rightarrow> ((transport_error + 'm) \<times> reader) option) \<Rightarrow> 'w connection
    \<Rightarrow> ((transport_error + 'm) \<times> 'w connection) option" where
  "reading read c =
     (case read (cn_codec c) (cn_reader c) of None \<Rightarrow> None | Some (r, reader) \<Rightarrow> Some (r, c\<lparr>cn_reader := reader\<rparr>))"

definition writing ::
  "(json_lines_codec \<Rightarrow> ('w, transport_error, unit) io) \<Rightarrow> 'w connection \<Rightarrow> ((transport_error + unit) \<times> 'w connection) option" where
  "writing write c = (case write (cn_codec c) (cn_peer c) of (r, peer) \<Rightarrow> Some (r, c\<lparr>cn_peer := peer\<rparr>))"

definition io_read_host_to_guest :: "wire_formats \<Rightarrow> ('w connection, transport_error, host_to_guest) act" where
  "io_read_host_to_guest formats = endpoint_call (reading (read_host_to_guest formats))"

definition io_read_guest_to_host :: "wire_formats \<Rightarrow> ('w connection, transport_error, guest_to_host) act" where
  "io_read_guest_to_host formats = endpoint_call (reading (read_guest_to_host formats))"

definition io_write_host_to_guest ::
  "wire_formats \<Rightarrow> 'w writer_port \<Rightarrow> host_to_guest \<Rightarrow> ('w connection, transport_error, unit) act" where
  "io_write_host_to_guest formats writer message =
     endpoint_call (writing (\<lambda>codec. write_host_to_guest formats codec writer message))"

definition io_write_guest_to_host ::
  "wire_formats \<Rightarrow> 'w writer_port \<Rightarrow> guest_to_host \<Rightarrow> ('w connection, transport_error, unit) act" where
  "io_write_guest_to_host formats writer message =
     endpoint_call (writing (\<lambda>codec. write_guest_to_host formats codec writer message))"

section \<open>The endpoints\<close>

record 'w host_endpoint =
  he_send :: "host_to_guest \<Rightarrow> ('w, transport_error, unit) act"
  he_recv :: "('w, transport_error, guest_to_host) act"

record 'w guest_endpoint =
  ge_recv :: "('w, transport_error, host_to_guest) act"
  ge_send :: "guest_to_host \<Rightarrow> ('w, transport_error, unit) act"

definition host_vsock_endpoint :: "wire_formats \<Rightarrow> 'w writer_port \<Rightarrow> 'w connection host_endpoint" where
  "host_vsock_endpoint formats writer =
     \<lparr>he_send = io_write_host_to_guest formats writer, he_recv = io_read_guest_to_host formats\<rparr>"

definition guest_vsock_endpoint :: "wire_formats \<Rightarrow> 'w writer_port \<Rightarrow> 'w connection guest_endpoint" where
  "guest_vsock_endpoint formats writer =
     \<lparr>ge_recv = io_read_host_to_guest formats, ge_send = io_write_guest_to_host formats writer\<rparr>"

definition mock_host_endpoint :: "mock_transport host_endpoint" where
  "mock_host_endpoint = \<lparr>he_send = host_send, he_recv = host_recv\<rparr>"

definition mock_guest_endpoint :: "mock_transport guest_endpoint" where
  "mock_guest_endpoint = \<lparr>ge_recv = guest_recv, ge_send = guest_send\<rparr>"

end
