(* ===== verification/Wire_Connection_Facts.thy ===== *)
theory Wire_Connection_Facts
  imports Wire_Connection Wire_Endpoint_Facts Wire_Codec_Facts
begin

text \<open>
  A call of an endpoint that runs alone in the interleaved system is the sequential call, the close
  is the same latch in both, and over a whole connection one side reads what the other has written.
\<close>

section \<open>The sequential call\<close>

lemma endpoint_call_open:
  "\<not> cn_closed c \<Longrightarrow> codec_call c = Some (result, c1) \<Longrightarrow> endpoint_call codec_call c = Some (conclude result c1)"
  by (simp add: endpoint_call_def act_bind_def check_open_def ensure_open_def)

lemma endpoint_call_closed: "cn_closed c \<Longrightarrow> endpoint_call codec_call c = Some (Inl PeerClosed, c)"
  by (simp add: endpoint_call_def act_bind_def check_open_def ensure_open_def)

lemma conclude_Inr [simp]: "\<not> cn_closed c \<Longrightarrow> conclude (Inr x) c = (Inr x, c)"
  by (simp add: conclude_def finish_def ensure_open_def)

section \<open>A call alone in the interleaved system\<close>

fun run_op :: "nat \<Rightarrow> nat \<Rightarrow> transport_error + 'm \<Rightarrow> 'm endpoint_io \<Rightarrow> 'm endpoint_io" where
  "run_op 0 i answer s = s"
| "run_op (Suc n) i answer s = (case op_step i answer s of None \<Rightarrow> s | Some t \<Rightarrow> run_op n i answer t)"

lemma run_op_steps: "endpoint_step\<^sup>*\<^sup>* s (run_op n i answer s)"
proof (induction n arbitrary: s)
  case (Suc n)
  then show ?case
    by (cases "op_step i answer s") (auto intro: converse_rtranclp_into_rtranclp [where r = endpoint_step] endpoint_step.act_op)
qed simp

text \<open>The action of a call by its program counter.\<close>

lemma op_step_at:
  assumes "i < length (ep_ops s)"
  shows "pc_of s i = Arrived \<Longrightarrow> op_step i answer s = Some (set_pc i (if ep_closed s then Done (Inl PeerClosed) else Locking) s)"
    "pc_of s i = Locking \<Longrightarrow> mutex_of (dir_of s i) s = None \<Longrightarrow>
       op_step i answer s = Some (set_mutex (dir_of s i) (Some i) (set_pc i Locked s))"
    "pc_of s i = Locked \<Longrightarrow> \<not> ep_closed s \<Longrightarrow> op_step i answer s = Some (set_pc i Performing s)"
    "pc_of s i = Performing \<Longrightarrow> op_step i answer s = Some (set_pc i (Performed answer) s)"
    "pc_of s i = Performed (Inr v) \<Longrightarrow> \<not> ep_closed s \<Longrightarrow> op_step i answer s = Some (return_op i (dir_of s i) (Inr v) (s\<lparr>ep_closed := False\<rparr>))"
    "pc_of s i = Performed (Inl e) \<Longrightarrow> \<not> ep_closed s \<Longrightarrow>
       op_step i answer s = Some (set_pc i (ShuttingDown e) (s\<lparr>ep_closed := True\<rparr>))"
    "pc_of s i = ShuttingDown e \<Longrightarrow> op_step i answer s =
       Some (return_op i (dir_of s i) (Inl e) (s\<lparr>ep_shutdowns := ep_shutdowns s + 1\<rparr>))"
    "pc_of s i = Done r \<Longrightarrow> op_step i answer s = None"
  using assms by (simp_all add: op_step_def pc_of_def dir_of_def ensure_open_def finish_def)

text \<open>What a connection and the interleaved system have in common.\<close>

definition same_close :: "'m endpoint_io \<Rightarrow> 'w connection \<Rightarrow> bool" where
  "same_close s c \<longleftrightarrow> ep_closed s = cn_closed c \<and> ep_shutdowns s = cn_shutdowns c"

text \<open>A call that runs alone is the sequential call: whatever other calls have begun, if the lock of
  its direction is free it is over after at most six of its own actions with the answer that the
  call has when it is made from beginning to end, the connection is closed and shut down exactly
  then and as often, and the lock is free again.\<close>

theorem lone_call_is_sequential:
  assumes "i < length (ep_ops s)" "pc_of s i = Arrived" "mutex_of (dir_of s i) s = None"
    and "same_close s c" "codec_call c = Some (answer, c1)" "same_close s c1"
  shows "\<exists>r c'. endpoint_call codec_call c = Some (r, c') \<and> pc_of (run_op 6 i answer s) i = Done r \<and>
    same_close (run_op 6 i answer s) c' \<and> mutex_of (dir_of s i) (run_op 6 i answer s) = None \<and>
    endpoint_step\<^sup>*\<^sup>* s (run_op 6 i answer s)"
proof (cases "ep_closed s")
  case True
  with assms(1-4) endpoint_call_closed [of c codec_call] run_op_steps [of s 6 i answer] show ?thesis
    by (auto simp: numeral_eq_Suc op_step_at same_close_def)
next
  case False
  from assms(4-6) False have c: "\<not> cn_closed c" "\<not> cn_closed c1" by (simp_all add: same_close_def)
  have call: "endpoint_call codec_call c = Some (conclude answer c1)" using c(1) assms(5) by (rule endpoint_call_open)
  show ?thesis
  proof (cases answer)
    case (Inr v)
    with assms(1-3,6) False c call run_op_steps [of s 6 i answer] show ?thesis
      by (auto simp: numeral_eq_Suc op_step_at same_close_def return_op_def)
  next
    case (Inl e)
    with assms(1-3,6) False c call run_op_steps [of s 6 i answer] show ?thesis
      by (auto simp: numeral_eq_Suc op_step_at same_close_def return_op_def conclude_def finish_def)
  qed
qed

definition lone_reader :: "host_to_guest endpoint_io" where
  "lone_reader = (new_endpoint 2)\<lparr>ep_ops := [\<lparr>eo_direction = Reading, eo_pc = Arrived\<rparr>]\<rparr>"

theorem lone_call_is_sequential_witness:
  "\<exists>r c'. endpoint_call (\<lambda>c. Some (Inl EmptyFrame, c)) (new_connection 2 \<lparr>rd_buf = [10], rd_arrivals = []\<rparr> (0 :: nat)) = Some (r, c') \<and>
     pc_of (run_op 6 0 (Inl EmptyFrame) lone_reader) 0 = Done r \<and> cn_closed c' = ep_closed (run_op 6 0 (Inl EmptyFrame) lone_reader)"
proof -
  let ?c = "new_connection 2 \<lparr>rd_buf = [10], rd_arrivals = []\<rparr> (0 :: nat)"
  have "0 < length (ep_ops lone_reader)" "pc_of lone_reader 0 = Arrived" "mutex_of (dir_of lone_reader 0) lone_reader = None"
    "same_close lone_reader ?c"
    by (simp_all add: lone_reader_def new_endpoint_def pc_of_def mutex_of_def same_close_def new_connection_def split: direction.split)
  from lone_call_is_sequential [OF this, of "\<lambda>c. Some (Inl EmptyFrame, c)" "Inl EmptyFrame" ?c] this(4)
  show ?thesis by (auto simp: same_close_def)
qed

section \<open>What one side writes the other reads\<close>

text \<open>A writer that always succeeds; the hypothesis of a connection that does not break.\<close>

definition reliable_writer :: "'w writer_port \<Rightarrow> ('w \<Rightarrow> bytes) \<Rightarrow> bool" where
  "reliable_writer writer written \<longleftrightarrow>
     (\<forall>bs w. \<exists>w'. wp_write_all writer bs w = (Inr (), w') \<and> written w' = written w @ bs) \<and>
     (\<forall>w. \<exists>w'. wp_flush writer w = (Inr (), w') \<and> written w' = written w)"

text \<open>A message whose encoding \<open>bs\<close> is within the default limit and read back by its own type.\<close>

definition deliverable :: "'m json_format \<Rightarrow> 'm \<Rightarrow> bytes \<Rightarrow> bool" where
  "deliverable format m bs \<longleftrightarrow>
     jf_encode format m = Inr bs \<and> json_reads_back format m \<and> length bs \<le> default_max_frame_bytes"

text \<open>An open connection that has still to read the bytes \<open>bs\<close>.\<close>

definition ready :: "'w connection \<Rightarrow> bytes \<Rightarrow> bool" where
  "ready c bs \<longleftrightarrow> \<not> cn_closed c \<and> cn_codec c = default_codec \<and> proper_reader (cn_reader c) \<and> stream (cn_reader c) = bs"

lemma default_limit: "jl_max_frame_bytes default_codec = default_max_frame_bytes" "default_max_frame_bytes + 1 < usize_max"
  by (simp_all add: default_codec_def default_max_frame_bytes_def usize_max_def)

lemma ready_new:
  "proper_reader r \<Longrightarrow> ready (new_connection default_max_frame_bytes r w) (stream r)"
  by (simp add: ready_def new_connection_def default_codec_def)

lemma read_direction_delivers:
  assumes "deliverable format m bs" "proper_reader r" "stream r = bs @ 10 # rest"
  shows "\<exists>r'. read_direction format opposite default_codec r expected received = Some (Inr m, r') \<and>
    stream r' = rest \<and> proper_reader r'"
proof -
  from assms(1) obtain content where enc: "bs \<noteq> []" "10 \<notin> set bs" "13 \<notin> set bs" "from_utf8 bs = Some content"
    "jf_decode format content = Inr m" "length bs \<le> default_max_frame_bytes"
    by (auto simp: deliverable_def json_reads_back_def)
  from read_line [of default_codec r bs rest] default_limit assms(2,3) enc(1-3,6) obtain frame r'
    where "read_frame default_codec r = Some (Inr frame, r')" "as_slice frame = bs" "stream r' = rest" "proper_reader r'" by auto
  with enc(4,5) show ?thesis by (simp add: read_direction_def)
qed

lemma reading_delivers:
  assumes "deliverable format m bs" "ready c (bs @ 10 # rest)"
    and "\<And>r. read default_codec r = read_direction format opposite default_codec r expected received"
  shows "\<exists>c'. endpoint_call (reading read) c = Some (Inr m, c') \<and> ready c' rest \<and> cn_peer c' = cn_peer c"
proof -
  from assms(2) have c: "\<not> cn_closed c" "cn_codec c = default_codec" "proper_reader (cn_reader c)"
    "stream (cn_reader c) = bs @ 10 # rest" by (simp_all add: ready_def)
  from read_direction_delivers [OF assms(1) c(3,4)] obtain r' where
    r': "read_direction format opposite default_codec (cn_reader c) expected received = Some (Inr m, r')"
      "stream r' = rest" "proper_reader r'" by blast
  then have "reading read c = Some (Inr m, c\<lparr>cn_reader := r'\<rparr>)" by (simp add: reading_def c(2) assms(3))
  from endpoint_call_open [where codec_call = "reading read", OF c(1) this] c r'(2,3) show ?thesis
    by (simp add: ready_def)
qed

lemma write_frame_delivers:
  assumes "deliverable format m bs" "reliable_writer writer written"
  shows "\<exists>w'. write_frame format default_codec writer m w = (Inr (), w') \<and> written w' = written w @ bs @ [10]"
proof -
  from assms(2) obtain w1 where w1: "wp_write_all writer bs w = (Inr (), w1)" "written w1 = written w @ bs"
    unfolding reliable_writer_def by blast
  from assms(2) obtain w2 where w2: "wp_write_all writer [10] w1 = (Inr (), w2)" "written w2 = written w1 @ [10]"
    unfolding reliable_writer_def by blast
  from assms(2) obtain w3 where w3: "wp_flush writer w2 = (Inr (), w3)" "written w3 = written w2"
    unfolding reliable_writer_def by blast
  from assms(1) w1 w2 w3 default_limit show ?thesis
    by (simp add: deliverable_def write_frame_def io_bind_def io_or_transport_def)
qed

lemma writing_delivers:
  assumes "deliverable format m bs" "ready c rest" "reliable_writer writer written"
    and "\<And>w. write default_codec w = write_frame format default_codec writer m w"
  shows "\<exists>c'. endpoint_call (writing write) c = Some (Inr (), c') \<and> ready c' rest \<and>
    written (cn_peer c') = written (cn_peer c) @ bs @ [10]"
proof -
  from assms(2) have c: "\<not> cn_closed c" "cn_codec c = default_codec" by (simp_all add: ready_def)
  from write_frame_delivers [OF assms(1,3)] obtain w' where
    w': "write_frame format default_codec writer m (cn_peer c) = (Inr (), w')" "written w' = written (cn_peer c) @ bs @ [10]" by blast
  then have "writing write c = Some (Inr (), c\<lparr>cn_peer := w'\<rparr>)" by (simp add: writing_def c(2) assms(4))
  from endpoint_call_open [where codec_call = "writing write", OF c(1) this] c assms(2) w'(2) show ?thesis
    by (simp add: ready_def)
qed

text \<open>The four operations of the two endpoints.\<close>

lemma host_sends:
  assumes "deliverable (wf_host formats) m bs" "ready c rest" "reliable_writer writer written"
  shows "\<exists>c'. he_send (host_vsock_endpoint formats writer) m c = Some (Inr (), c') \<and> ready c' rest \<and>
    written (cn_peer c') = written (cn_peer c) @ bs @ [10]"
  unfolding host_vsock_endpoint_def host_endpoint.simps io_write_host_to_guest_def
  by (rule writing_delivers [OF assms]) (simp add: write_host_to_guest_def)

lemma guest_sends:
  assumes "deliverable (wf_guest formats) m bs" "ready c rest" "reliable_writer writer written"
  shows "\<exists>c'. ge_send (guest_vsock_endpoint formats writer) m c = Some (Inr (), c') \<and> ready c' rest \<and>
    written (cn_peer c') = written (cn_peer c) @ bs @ [10]"
  unfolding guest_vsock_endpoint_def guest_endpoint.simps io_write_guest_to_host_def
  by (rule writing_delivers [OF assms]) (simp add: write_guest_to_host_def)

lemma host_receives:
  assumes "deliverable (wf_guest formats) m bs" "ready c (bs @ 10 # rest)"
  shows "\<exists>c'. he_recv (host_vsock_endpoint formats writer) c = Some (Inr m, c') \<and> ready c' rest \<and> cn_peer c' = cn_peer c"
  unfolding host_vsock_endpoint_def host_endpoint.simps io_read_guest_to_host_def
  by (rule reading_delivers [OF assms]) (simp add: read_guest_to_host_def)

lemma guest_receives:
  assumes "deliverable (wf_host formats) m bs" "ready c (bs @ 10 # rest)"
  shows "\<exists>c'. ge_recv (guest_vsock_endpoint formats writer) c = Some (Inr m, c') \<and> ready c' rest \<and> cn_peer c' = cn_peer c"
  unfolding guest_vsock_endpoint_def guest_endpoint.simps io_read_host_to_guest_def
  by (rule reading_delivers [OF assms]) (simp add: read_host_to_guest_def)

end
