(* ===== verification/Wire_Receives.thy ===== *)
theory Wire_Receives
  imports Wire_Endpoint
begin

text \<open>
  The calls of \<open>Wire_Endpoint\<close> with the codec's read opened up: all receiving calls of a connection
  share one buffered reader behind the lock of the reading direction. The holder of that lock is the
  only one that touches the reader, so a read is one action here; what it does inside is
  \<open>read_frame\<close>. The bytes to come, and their chunks, are part of the reader.
\<close>

record 'm receivers =
  rc_io :: "'m endpoint_io"
  rc_reader :: reader

definition new_receivers :: "nat \<Rightarrow> reader \<Rightarrow> 'm receivers" where
  "new_receivers max_frame reader = \<lparr>rc_io = new_endpoint max_frame, rc_reader = reader\<rparr>"

text \<open>Whether the call is inside the codec's read.\<close>

definition in_read :: "'m receivers \<Rightarrow> nat \<Rightarrow> bool" where
  "in_read s i \<longleftrightarrow> i < length (ep_ops (rc_io s)) \<and> eo_direction (ep_ops (rc_io s) ! i) = Reading \<and>
     eo_pc (ep_ops (rc_io s) ! i) = Performing"

text \<open>The next action of the call \<open>i\<close>; \<open>answer\<close> is what the codec answers to a writing call. \<open>None\<close>:
  the call is over or waits.\<close>

definition receive_action ::
  "(json_lines_codec \<Rightarrow> reader \<Rightarrow> ((transport_error + 'm) \<times> reader) option) \<Rightarrow> nat \<Rightarrow> transport_error + 'm
    \<Rightarrow> 'm receivers \<Rightarrow> 'm receivers option" where
  "receive_action read i answer s =
     (if in_read s i then
        (case read \<lparr>jl_max_frame_bytes = ep_max_frame (rc_io s)\<rparr> (rc_reader s) of
           None \<Rightarrow> None
         | Some (result, reader) \<Rightarrow>
             map_option (\<lambda>io. s\<lparr>rc_io := io, rc_reader := reader\<rparr>) (op_step i result (rc_io s)))
      else map_option (\<lambda>io. s\<lparr>rc_io := io\<rparr>) (op_step i answer (rc_io s)))"

inductive receivers_step ::
  "(json_lines_codec \<Rightarrow> reader \<Rightarrow> ((transport_error + 'm) \<times> reader) option) \<Rightarrow> 'm receivers \<Rightarrow> 'm receivers \<Rightarrow> bool"
  for read where
  begin_receive: "receivers_step read s
     (s\<lparr>rc_io := (rc_io s)\<lparr>ep_ops := ep_ops (rc_io s) @ [\<lparr>eo_direction = d, eo_pc = Arrived\<rparr>]\<rparr>\<rparr>)"
| receive_action: "receive_action read i answer s = Some t \<Longrightarrow> receivers_step read s t"

inductive_cases receivers_stepE: "receivers_step read s t"

text \<open>An explicit run.\<close>

datatype 'm receive_event = BeginsOp direction | ActsOp nat "transport_error + 'm"

fun receivers_run ::
  "(json_lines_codec \<Rightarrow> reader \<Rightarrow> ((transport_error + 'm) \<times> reader) option) \<Rightarrow> 'm receive_event list
    \<Rightarrow> 'm receivers \<Rightarrow> 'm receivers option" where
  "receivers_run read [] s = Some s"
| "receivers_run read (BeginsOp d # evs) s = receivers_run read evs
     (s\<lparr>rc_io := (rc_io s)\<lparr>ep_ops := ep_ops (rc_io s) @ [\<lparr>eo_direction = d, eo_pc = Arrived\<rparr>]\<rparr>\<rparr>)"
| "receivers_run read (ActsOp i answer # evs) s = Option.bind (receive_action read i answer s) (receivers_run read evs)"

end
