(* ===== verification/Wire_Frames.thy ===== *)
theory Wire_Frames
  imports Wire_Endpoint
begin

text \<open>
  The calls of \<open>Wire_Endpoint\<close> with the codec's \<open>write_frame\<close> opened up: the bytes that a writing call
  hands to the stream, one acceptance of the stream at a time, interleaved with all other calls of
  the connection. \<open>write_all\<close> and \<open>flush\<close> are tokio's, taken as documented: the rest of the buffer is
  offered until nothing is left, an acceptance of no byte is the error \<open>WriteZero\<close>, an error ends the
  call, and bytes accepted before it stay written.
\<close>

section \<open>One frame\<close>

text \<open>What the stream answers to an offer of bytes or to a flush.\<close>

datatype stream_outcome = Accepts nat | Breaks io_error

datatype frame_pc =
    Encoding
  | SendingBody bytes
  | SendingNewline
  | Flushing
  | Wrote "transport_error + unit"
  | Dropped

definition write_zero :: io_error where
  "write_zero = io_error_of WriteZero (asc ''write zero'')"

text \<open>One turn of \<open>write_all\<close> on a non-empty rest: the rest after it and the bytes accepted.\<close>

definition offer :: "stream_outcome \<Rightarrow> bytes \<Rightarrow> io_error + bytes \<times> bytes" where
  "offer outcome rest =
     (case outcome of
        Breaks e \<Rightarrow> Inl e
      | Accepts n \<Rightarrow> (let k = min n (length rest) in
          if k = 0 then Inl write_zero else Inr (drop k rest, take k rest)))"

fun frame_step :: "stream_outcome \<Rightarrow> nat \<Rightarrow> str + bytes \<Rightarrow> frame_pc \<Rightarrow> frame_pc \<times> bytes" where
  "frame_step outcome max_frame message Encoding =
     (case message of
        Inl e \<Rightarrow> (Wrote (Inl (Encode e)), [])
      | Inr encoded \<Rightarrow>
          if length encoded > max_frame then (Wrote (Inl (FrameTooLarge max_frame)), [])
          else (SendingBody encoded, []))"
| "frame_step outcome max_frame message (SendingBody rest) =
     (if rest = [] then (SendingNewline, [])
      else case offer outcome rest of
        Inl e \<Rightarrow> (Wrote (Inl (Io (ie_text e))), [])
      | Inr (rest', sent) \<Rightarrow> (SendingBody rest', sent))"
| "frame_step outcome max_frame message SendingNewline =
     (case offer outcome [10] of
        Inl e \<Rightarrow> (Wrote (Inl (Io (ie_text e))), [])
      | Inr (rest', sent) \<Rightarrow> (Flushing, sent))"
| "frame_step outcome max_frame message Flushing =
     (case outcome of
        Breaks e \<Rightarrow> (Wrote (Inl (Io (ie_text e))), [])
      | Accepts n \<Rightarrow> (Wrote (Inr ()), []))"
| "frame_step outcome max_frame message (Wrote r) = (Wrote r, [])"
| "frame_step outcome max_frame message Dropped = (Dropped, [])"

section \<open>All calls of a connection\<close>

text \<open>For each call the encoded form of its message (or the error of the encoding) and how far its
  frame is; both are without meaning for a call that reads.\<close>

record frame_writers =
  fw_io :: "unit endpoint_io"
  fw_stream :: bytes
  fw_messages :: "(str + bytes) list"
  fw_pcs :: "frame_pc list"

definition new_writers :: "nat \<Rightarrow> frame_writers" where
  "new_writers max_frame = \<lparr>fw_io = new_endpoint max_frame, fw_stream = [], fw_messages = [], fw_pcs = []\<rparr>"

definition begin_call :: "direction \<Rightarrow> str + bytes \<Rightarrow> frame_writers \<Rightarrow> frame_writers" where
  "begin_call d message s =
     s\<lparr>fw_io := (fw_io s)\<lparr>ep_ops := ep_ops (fw_io s) @ [\<lparr>eo_direction = d, eo_pc = Arrived\<rparr>]\<rparr>,
       fw_messages := fw_messages s @ [message], fw_pcs := fw_pcs s @ [Encoding]\<rparr>"

text \<open>Whether the call is inside \<open>write_frame\<close>.\<close>

definition in_frame :: "frame_writers \<Rightarrow> nat \<Rightarrow> bool" where
  "in_frame s i \<longleftrightarrow> i < length (ep_ops (fw_io s)) \<and> eo_direction (ep_ops (fw_io s) ! i) = Writing \<and>
     eo_pc (ep_ops (fw_io s) ! i) = Performing"

text \<open>The next action of the call \<open>i\<close>: inside its frame the next action there, and when the frame is
  over the codec has answered; anywhere else the action of \<open>Wire_Endpoint\<close>, where \<open>answer\<close> is what
  the codec of a reading call answers.\<close>

definition call_action :: "nat \<Rightarrow> stream_outcome \<Rightarrow> transport_error + unit \<Rightarrow> frame_writers \<Rightarrow> frame_writers option" where
  "call_action i outcome answer s =
     (if in_frame s i then
        (case fw_pcs s ! i of
           Dropped \<Rightarrow> None
         | Wrote r \<Rightarrow> map_option (\<lambda>io. s\<lparr>fw_io := io\<rparr>) (op_step i r (fw_io s))
         | pc \<Rightarrow>
             (case frame_step outcome (ep_max_frame (fw_io s)) (fw_messages s ! i) pc of
                (pc', sent) \<Rightarrow> Some (s\<lparr>fw_pcs := (fw_pcs s)[i := pc'], fw_stream := fw_stream s @ sent\<rparr>)))
      else map_option (\<lambda>io. s\<lparr>fw_io := io\<rparr>) (op_step i answer (fw_io s)))"

inductive frames_step :: "frame_writers \<Rightarrow> frame_writers \<Rightarrow> bool" where
  begin_call: "frames_step s (begin_call d message s)"
| call_action: "call_action i outcome answer s = Some t \<Longrightarrow> frames_step s t"

inductive_cases frames_stepE: "frames_step s t"

text \<open>A caller that drops the future of its call while it waits for the stream: the guard of the lock
  is dropped with it, and neither \<open>finish\<close> nor anything else runs. This is not a step of
  \<open>frames_step\<close>.\<close>

definition drop_call :: "nat \<Rightarrow> frame_writers \<Rightarrow> frame_writers option" where
  "drop_call i s =
     (if in_frame s i \<and> (case fw_pcs s ! i of SendingBody rest \<Rightarrow> True | SendingNewline \<Rightarrow> True | Flushing \<Rightarrow> True | _ \<Rightarrow> False)
      then Some (s\<lparr>fw_io := set_mutex Writing None (fw_io s), fw_pcs := (fw_pcs s)[i := Dropped]\<rparr>)
      else None)"

text \<open>An explicit run.\<close>

datatype frames_event =
    BeginsCall direction "str + bytes"
  | Acts nat stream_outcome "transport_error + unit"
  | DropsCall nat

fun frames_run :: "frames_event list \<Rightarrow> frame_writers \<Rightarrow> frame_writers option" where
  "frames_run [] s = Some s"
| "frames_run (BeginsCall d message # evs) s = frames_run evs (begin_call d message s)"
| "frames_run (Acts i outcome answer # evs) s = Option.bind (call_action i outcome answer s) (frames_run evs)"
| "frames_run (DropsCall i # evs) s = Option.bind (drop_call i s) (frames_run evs)"

end
