(* ===== verification/Wire_Frames_Facts.thy ===== *)
theory Wire_Frames_Facts
  imports Wire_Frames Wire_Endpoint_Facts Wire_Codec_Facts "HOL-Library.Sublist"
begin

text \<open>
  What reaches the other side when many calls write to one connection: whole frames of the calls
  that succeeded, one after the other, and at most one frame that was cut short, whose writer still
  has the lock or has closed the connection. The fine steps refine the steps of \<open>Wire_Endpoint\<close>, so
  everything shown there holds here as well.
\<close>

section \<open>The fine steps refine the coarse ones\<close>

lemma call_action_refines:
  assumes "call_action i outcome answer s = Some t"
  shows "endpoint_step (fw_io s) (fw_io t) \<or> fw_io t = fw_io s"
  using assms by (auto simp: call_action_def split: if_splits frame_pc.splits prod.splits intro: endpoint_step.act_op)

lemma frames_step_refines: "frames_step s t \<Longrightarrow> endpoint_step (fw_io s) (fw_io t) \<or> fw_io t = fw_io s"
  by (erule frames_stepE) (auto simp: begin_call_def intro: endpoint_step.begin_op dest: call_action_refines)

lemma frames_run_refines: "frames_step\<^sup>*\<^sup>* s t \<Longrightarrow> endpoint_step\<^sup>*\<^sup>* (fw_io s) (fw_io t)"
proof (induction rule: rtranclp_induct)
  case (step t u)
  then show ?case using frames_step_refines [OF step(2)] by (auto intro: rtranclp.rtrancl_into_rtrancl)
qed simp

definition frames_reachable :: "nat \<Rightarrow> frame_writers \<Rightarrow> bool" where
  "frames_reachable max_frame s \<longleftrightarrow> frames_step\<^sup>*\<^sup>* (new_writers max_frame) s"

lemma frames_reachable_io: "frames_reachable max_frame s \<Longrightarrow> endpoint_reachable max_frame (fw_io s)"
  using frames_run_refines [of "new_writers max_frame" s]
  by (simp add: frames_reachable_def endpoint_reachable_def new_writers_def)

section \<open>The invariant of the stream\<close>

definition frame_of :: "str + bytes \<Rightarrow> bytes" where
  "frame_of message = (case message of Inl e \<Rightarrow> [] | Inr payload \<Rightarrow> payload @ [10])"

text \<open>What a writer has put on the stream of its own frame, by how far it is; \<open>whole\<close>: its frame is
  counted among the whole ones.\<close>

fun frame_ok :: "nat \<Rightarrow> frame_pc \<Rightarrow> str + bytes \<Rightarrow> bool \<Rightarrow> bytes \<Rightarrow> bool" where
  "frame_ok max_frame Encoding message whole partial = (partial = [] \<and> \<not> whole)"
| "frame_ok max_frame (SendingBody rest) message whole partial = (message = Inr (partial @ rest) \<and> length (partial @ rest) \<le> max_frame \<and> \<not> whole)"
| "frame_ok max_frame SendingNewline message whole partial = (message = Inr partial \<and> length partial \<le> max_frame \<and> \<not> whole)"
| "frame_ok max_frame Flushing message whole partial = (partial = [] \<and> whole)"
| "frame_ok max_frame (Wrote (Inr u)) message whole partial = (partial = [] \<and> whole)"
| "frame_ok max_frame (Wrote (Inl e)) message whole partial =
     (partial = [] \<or> \<not> whole \<and> (\<exists>payload. message = Inr payload \<and> prefix partial payload))"
| "frame_ok max_frame Dropped message whole partial = False"

lemma offer_Inr:
  "offer outcome rest = Inr (rest', sent) \<Longrightarrow> rest = sent @ rest' \<and> sent \<noteq> []"
  by (auto simp: offer_def Let_def min_def split: stream_outcome.splits if_splits)

lemma frame_step_ok:
  assumes "frame_ok max_frame pc message whole partial" "frame_step outcome max_frame message pc = (pc', sent)"
  shows "frame_ok max_frame pc' message whole (partial @ sent) \<or>
    \<not> whole \<and> pc = SendingNewline \<and> partial @ sent = frame_of message \<and> frame_ok max_frame pc' message True []"
proof (cases pc)
  case Encoding
  with assms show ?thesis by (auto split: sum.splits if_splits)
next
  case (SendingBody rest)
  with assms show ?thesis
    by (auto split: if_splits sum.splits prod.splits dest!: offer_Inr simp: prefix_def)
next
  case SendingNewline
  with assms show ?thesis
    by (auto split: sum.splits prod.splits dest!: offer_Inr simp: frame_of_def Cons_eq_append_conv)
next
  case Flushing
  with assms show ?thesis by (auto split: stream_outcome.splits)
qed (use assms in auto)

definition torn :: "frame_writers \<Rightarrow> nat list \<Rightarrow> bytes \<Rightarrow> bool" where
  "torn s whole partial \<longleftrightarrow> (\<exists>i payload. i < length (ep_ops (fw_io s)) \<and> dir_of (fw_io s) i = Writing \<and> i \<notin> set whole \<and>
     fw_messages s ! i = Inr payload \<and> prefix partial payload)"

definition call_ok :: "frame_writers \<Rightarrow> nat list \<Rightarrow> nat \<Rightarrow> bool" where
  "call_ok s whole i \<longleftrightarrow> fw_pcs s ! i \<noteq> Dropped \<and> (fw_pcs s ! i = Wrote (Inr ()) \<longrightarrow> i \<in> set whole) \<and>
     (case pc_of (fw_io s) i of
        Performing \<Rightarrow> True
      | Performed r \<Rightarrow> fw_pcs s ! i = Wrote r
      | ShuttingDown e \<Rightarrow> ep_closed (fw_io s) \<and> fw_pcs s ! i = Wrote (Inl e)
      | Done (Inr v) \<Rightarrow> fw_pcs s ! i = Wrote (Inr ())
      | Done (Inl e) \<Rightarrow> True
      | _ \<Rightarrow> fw_pcs s ! i = Encoding \<and> i \<notin> set whole)"

definition partial_ok :: "frame_writers \<Rightarrow> nat list \<Rightarrow> bytes \<Rightarrow> bool" where
  "partial_ok s whole partial \<longleftrightarrow>
     (case mutex_of Writing (fw_io s) of
        None \<Rightarrow> partial = [] \<or> ep_closed (fw_io s) \<and> torn s whole partial
      | Some i \<Rightarrow>
          if pc_of (fw_io s) i = Locked then partial = [] \<or> ep_closed (fw_io s) \<and> torn s whole partial
          else frame_ok (ep_max_frame (fw_io s)) (fw_pcs s ! i) (fw_messages s ! i) (i \<in> set whole) partial)"

definition frames_inv :: "frame_writers \<Rightarrow> nat list \<Rightarrow> bytes \<Rightarrow> bool" where
  "frames_inv s whole partial \<longleftrightarrow>
     length (fw_messages s) = length (ep_ops (fw_io s)) \<and> length (fw_pcs s) = length (ep_ops (fw_io s)) \<and>
     inv_mutex (fw_io s) \<and> distinct whole \<and>
     (\<forall>i\<in>set whole. i < length (ep_ops (fw_io s)) \<and> dir_of (fw_io s) i = Writing \<and> (\<exists>payload. fw_messages s ! i = Inr payload \<and> length payload \<le> ep_max_frame (fw_io s))) \<and>
     fw_stream s = concat (map (\<lambda>i. frame_of (fw_messages s ! i)) whole) @ partial \<and>
     (\<forall>i<length (ep_ops (fw_io s)). dir_of (fw_io s) i = Writing \<longrightarrow> call_ok s whole i) \<and>
     partial_ok s whole partial"

lemmas frames_inv_parts = frames_inv_def call_ok_def partial_ok_def torn_def

lemma frames_inv_new: "frames_inv (new_writers max_frame) [] []"
  by (auto simp: frames_inv_parts new_writers_def new_endpoint_def inv_mutex_def mutex_of_def split: direction.splits)

lemma holder_of_frame:
  assumes "inv_mutex s" "i < length (ep_ops s)" "dir_of s i = Writing" "holding (pc_of s i)"
  shows "mutex_of Writing s = Some i"
  using assms by (simp add: inv_mutex_def)

text \<open>A call begins.\<close>

lemma frames_inv_begin:
  assumes "frames_inv s whole partial"
  shows "frames_inv (begin_call d message s) whole partial"
proof -
  let ?t = "begin_call d message s" and ?n = "length (ep_ops (fw_io s))"
  have old: "pc_of (fw_io ?t) i = pc_of (fw_io s) i" "dir_of (fw_io ?t) i = dir_of (fw_io s) i"
    "fw_pcs ?t ! i = fw_pcs s ! i" "fw_messages ?t ! i = fw_messages s ! i" if "i < ?n" for i
    using that assms by (simp_all add: begin_call_def pc_of_def dir_of_def nth_append frames_inv_def)
  have new: "pc_of (fw_io ?t) ?n = Arrived" "fw_pcs ?t ! ?n = Encoding"
    using assms by (simp_all add: begin_call_def pc_of_def nth_append frames_inv_def)
  have same: "fw_stream ?t = fw_stream s" "ep_closed (fw_io ?t) = ep_closed (fw_io s)" "length (ep_ops (fw_io ?t)) = Suc ?n"
    "mutex_of Writing (fw_io ?t) = mutex_of Writing (fw_io s)" "length (fw_messages ?t) = Suc (length (fw_messages s))"
    "length (fw_pcs ?t) = Suc (length (fw_pcs s))" "ep_max_frame (fw_io ?t) = ep_max_frame (fw_io s)"
    by (simp_all add: begin_call_def mutex_of_def)
  have whole: "\<forall>i\<in>set whole. i < ?n" and mutex: "inv_mutex (fw_io ?t)"
    using assms inv_begin(1) [of "fw_io s" d] by (auto simp: frames_inv_def begin_call_def)
  have stream: "map (\<lambda>i. frame_of (fw_messages ?t ! i)) whole = map (\<lambda>i. frame_of (fw_messages s ! i)) whole"
    using whole old(4) by simp
  have torn: "torn s whole partial \<Longrightarrow> torn ?t whole partial"
    unfolding torn_def same(3) by (metis old(2,4) less_SucI)
  have calls: "call_ok ?t whole i" if "i < ?n" "call_ok s whole i" for i
    using that by (auto simp: call_ok_def old same split: op_pc.splits sum.splits)
  have fresh: "call_ok ?t whole ?n" using whole by (auto simp: call_ok_def new)
  have "partial_ok ?t whole partial"
  proof (cases "mutex_of Writing (fw_io s)")
    case None
    with assms torn show ?thesis by (auto simp: frames_inv_def partial_ok_def same)
  next
    case (Some k)
    with assms have "k < ?n" by (simp add: frames_inv_def inv_mutex_def)
    with Some assms old [of k] torn show ?thesis by (simp add: frames_inv_def partial_ok_def same split: if_splits) blast
  qed
  moreover have "\<forall>i\<in>set whole. i < length (ep_ops (fw_io ?t)) \<and> dir_of (fw_io ?t) i = Writing \<and> (\<exists>payload. fw_messages ?t ! i = Inr payload \<and> length payload \<le> ep_max_frame (fw_io ?t))"
    using assms whole old by (auto simp: frames_inv_def same)
  moreover have "\<forall>i<length (ep_ops (fw_io ?t)). dir_of (fw_io ?t) i = Writing \<longrightarrow> call_ok ?t whole i"
    using assms old calls fresh by (auto simp: frames_inv_def same less_Suc_eq)
  ultimately show ?thesis
    using assms mutex unfolding frames_inv_def same(1) stream by (simp add: same)
qed

text \<open>A call does something inside its frame.\<close>

lemma frames_inv_frame:
  assumes "frames_inv s whole partial" "in_frame s i"
    and "frame_step outcome (ep_max_frame (fw_io s)) (fw_messages s ! i) (fw_pcs s ! i) = (pc', sent)"
  shows "\<exists>whole' partial'. frames_inv (s\<lparr>fw_pcs := (fw_pcs s)[i := pc'], fw_stream := fw_stream s @ sent\<rparr>) whole' partial'"
proof -
  let ?t = "s\<lparr>fw_pcs := (fw_pcs s)[i := pc'], fw_stream := fw_stream s @ sent\<rparr>" and ?m = "fw_messages s ! i"
  have i: "i < length (ep_ops (fw_io s))" "dir_of (fw_io s) i = Writing" "pc_of (fw_io s) i = Performing"
    using assms(2) by (simp_all add: in_frame_def pc_of_def dir_of_def)
  have size: "length (fw_pcs s) = length (ep_ops (fw_io s))" using assms(1) by (simp add: frames_inv_def)
  have holder: "mutex_of Writing (fw_io s) = Some i"
    using assms(1) i by (intro holder_of_frame) (simp_all add: frames_inv_def)
  have here: "frame_ok (ep_max_frame (fw_io s)) (fw_pcs s ! i) ?m (i \<in> set whole) partial"
    using assms(1) holder i(3) by (simp add: frames_inv_def partial_ok_def)
  have calls: "call_ok s whole j" if "j < length (ep_ops (fw_io s))" "dir_of (fw_io s) j = Writing" for j
    using assms(1) that by (simp add: frames_inv_def)
  have others: "call_ok ?t whole' j"
    if "j < length (ep_ops (fw_io s))" "dir_of (fw_io s) j = Writing" "j \<noteq> i" "set whole' \<subseteq> insert i (set whole)" "set whole \<subseteq> set whole'" for j whole'
    using calls [OF that(1,2)] that by (auto simp: call_ok_def split: op_pc.splits sum.splits)
  have own: "call_ok ?t whole' i" if "frame_ok (ep_max_frame (fw_io s)) pc' ?m (i \<in> set whole') p" for whole' p
    using that i size by (auto simp: call_ok_def)
  from frame_step_ok [OF here assms(3)] show ?thesis
  proof
    assume ok: "frame_ok (ep_max_frame (fw_io s)) pc' ?m (i \<in> set whole) (partial @ sent)"
    have "call_ok ?t whole j" if "j < length (ep_ops (fw_io s))" "dir_of (fw_io s) j = Writing" for j
      using others [OF that, of whole] own [OF ok] by (cases "j = i") auto
    moreover have "partial_ok ?t whole (partial @ sent)"
      using ok holder i size by (simp add: partial_ok_def)
    ultimately have "frames_inv ?t whole (partial @ sent)"
      using assms(1) by (simp add: frames_inv_def)
    then show ?thesis by blast
  next
    assume done1: "i \<notin> set whole \<and> fw_pcs s ! i = SendingNewline \<and> partial @ sent = frame_of ?m \<and> frame_ok (ep_max_frame (fw_io s)) pc' ?m True []"
    have "call_ok ?t (whole @ [i]) j" if "j < length (ep_ops (fw_io s))" "dir_of (fw_io s) j = Writing" for j
      using others [OF that, of "whole @ [i]"] own [of "whole @ [i]" "[]"] done1 by (cases "j = i") auto
    moreover have "partial_ok ?t (whole @ [i]) []"
      using done1 holder i size by (simp add: partial_ok_def)
    moreover have "\<exists>payload. ?m = Inr payload \<and> length payload \<le> ep_max_frame (fw_io s)" using done1 here by auto
    ultimately have "frames_inv ?t (whole @ [i]) []"
      using assms(1) done1 i by (auto simp: frames_inv_def)
    then show ?thesis by blast
  qed
qed

lemma max_frame_simps [simp]:
  "ep_max_frame (set_pc i pc s) = ep_max_frame s" "ep_max_frame (set_mutex d h s) = ep_max_frame s"
  by (cases d; simp add: set_pc_def set_mutex_def)+

lemma op_step_shape:
  assumes "op_step i r s = Some t"
  shows "length (ep_ops t) = length (ep_ops s)" "dir_of t = dir_of s" "ep_max_frame t = ep_max_frame s"
proof -
  from assms show "length (ep_ops t) = length (ep_ops s)" by (cases rule: op_step_cases) (simp_all add: return_op_def)
  from assms show "dir_of t = dir_of s" by (cases rule: op_step_cases) (simp_all add: return_op_def fun_eq_iff)
  from assms show "ep_max_frame t = ep_max_frame s" by (cases rule: op_step_cases) (simp_all add: return_op_def)
qed

text \<open>Any other action of a call; the codec's answer is the one of its frame.\<close>

lemma frames_inv_io:
  assumes "frames_inv s whole partial" "op_step i r (fw_io s) = Some io" "in_frame s i \<Longrightarrow> fw_pcs s ! i = Wrote r"
  shows "frames_inv (s\<lparr>fw_io := io\<rparr>) whole partial"
proof -
  let ?t = "s\<lparr>fw_io := io\<rparr>"
  have mutex: "inv_mutex (fw_io s)" "inv_mutex io"
    using assms(1) inv_mutex_step [OF _ assms(2)] by (simp_all add: frames_inv_def)
  have calls: "call_ok s whole j" if "j < length (ep_ops (fw_io s))" "dir_of (fw_io s) j = Writing" for j
    using assms(1) that by (simp add: frames_inv_def)
  note n = op_step_shape [OF assms(2)]
  have closed: "ep_closed (fw_io s) \<Longrightarrow> ep_closed io" by (rule op_step_closed [OF assms(2)])
  have "call_ok ?t whole j" if "j < length (ep_ops (fw_io s))" "dir_of (fw_io s) j = Writing" for j
    using assms(2)
    by (cases rule: op_step_cases)
      (use assms(3) calls [OF that] that in \<open>auto simp: call_ok_def in_frame_def return_op_def pc_of_def [symmetric] dir_of_def [symmetric] split: op_pc.splits sum.splits if_splits\<close>)
  moreover have torn: "torn ?t whole partial = torn s whole partial" by (simp add: torn_def n)
  have partial: "partial_ok s whole partial" using assms(1) by (simp add: frames_inv_def)
  have holder: "mutex_of Writing (fw_io s) = Some i"
    if "i < length (ep_ops (fw_io s))" "dir_of (fw_io s) i = Writing" "holding (pc_of (fw_io s) i)"
    using holder_of_frame [OF mutex(1)] that by blast
  have released: "partial = [] \<or> torn s whole partial"
    if "frame_ok (ep_max_frame (fw_io s)) (Wrote r') (fw_messages s ! i) (i \<in> set whole) partial" "i < length (ep_ops (fw_io s))" "dir_of (fw_io s) i = Writing" for r'
    using that by (cases r') (auto simp: torn_def)
  have "partial_ok ?t whole partial"
  proof (cases "dir_of (fw_io s) i = Writing")
    case False
    have "mutex_of Writing io = mutex_of Writing (fw_io s)" and "k \<noteq> i \<Longrightarrow> pc_of io k = pc_of (fw_io s) k" for k
      using assms(2) by (cases rule: op_step_cases; use False in \<open>auto simp: return_op_def\<close>)+
    moreover have "mutex_of Writing (fw_io s) \<noteq> Some i" using mutex(1) False by (simp add: inv_mutex_def)
    ultimately show ?thesis
      using partial closed by (auto simp: partial_ok_def torn n(3) split: option.splits if_splits)
  next
    case True
    show ?thesis
      using assms(2)
    proof (cases rule: op_step_cases)
      case 1
      then have "mutex_of Writing (fw_io s) \<noteq> Some i" using mutex(1) by (simp add: inv_mutex_def)
      with 1 partial torn show ?thesis by (auto simp: partial_ok_def split: option.splits if_splits)
    next
      case 4
      with True holder partial calls [of i] show ?thesis by (simp add: partial_ok_def call_ok_def)
    next
      case (9 e)
      with True holder partial calls [of i] have "ep_closed io \<and> mutex_of Writing io = None"
        and "frame_ok (ep_max_frame (fw_io s)) (Wrote (Inl e)) (fw_messages s ! i) (i \<in> set whole) partial"
        by (auto simp: partial_ok_def call_ok_def return_op_def)
      with released [of "Inl e"] 9 True torn show ?thesis by (auto simp: partial_ok_def)
    qed (use True holder partial calls [of i] released assms(3) torn in
        \<open>auto simp: partial_ok_def call_ok_def return_op_def in_frame_def pc_of_def [symmetric] dir_of_def [symmetric]\<close>)
  qed
  ultimately show ?thesis
    using assms(1) mutex n by (simp add: frames_inv_def)
qed

lemma frames_inv_step:
  assumes "frames_inv s whole partial" "frames_step s t"
  shows "\<exists>whole' partial'. frames_inv t whole' partial'"
  using assms(2)
proof (rule frames_stepE)
  fix d message assume "t = begin_call d message s"
  with frames_inv_begin [OF assms(1)] show ?thesis by blast
next
  fix i outcome answer assume act: "call_action i outcome answer s = Some t"
  show ?thesis
  proof (cases "in_frame s i")
    case False
    with act obtain io where "op_step i answer (fw_io s) = Some io" "t = s\<lparr>fw_io := io\<rparr>"
      by (auto simp: call_action_def)
    with frames_inv_io [OF assms(1)] False show ?thesis by blast
  next
    case True
    show ?thesis
    proof (cases "\<exists>r. fw_pcs s ! i = Wrote r")
      case True
      then obtain r where r: "fw_pcs s ! i = Wrote r" by blast
      with act \<open>in_frame s i\<close> obtain io where "op_step i r (fw_io s) = Some io" "t = s\<lparr>fw_io := io\<rparr>"
        by (auto simp: call_action_def)
      with frames_inv_io [OF assms(1) _ r] show ?thesis by blast
    next
      case False
      obtain pc' sent where step: "frame_step outcome (ep_max_frame (fw_io s)) (fw_messages s ! i) (fw_pcs s ! i) = (pc', sent)"
        by fastforce
      with act \<open>in_frame s i\<close> False have "t = s\<lparr>fw_pcs := (fw_pcs s)[i := pc'], fw_stream := fw_stream s @ sent\<rparr>"
        by (auto simp: call_action_def split: frame_pc.splits)
      with frames_inv_frame [OF assms(1) \<open>in_frame s i\<close> step] show ?thesis by simp
    qed
  qed
qed

lemma reachable_frames_inv:
  assumes "frames_reachable max_frame s"
  shows "\<exists>whole partial. frames_inv s whole partial"
  using assms unfolding frames_reachable_def
proof (induction rule: rtranclp_induct)
  case (step s t)
  then show ?case using frames_inv_step by blast
qed (use frames_inv_new in blast)

section \<open>Frames stay whole\<close>

text \<open>A call that wrote its message and was told so.\<close>

definition sent_ok :: "frame_writers \<Rightarrow> nat \<Rightarrow> bool" where
  "sent_ok s i \<longleftrightarrow> i < length (ep_ops (fw_io s)) \<and> dir_of (fw_io s) i = Writing \<and> pc_of (fw_io s) i = Done (Inr ())"

text \<open>A partial frame: the beginning of the message of a call that has the lock, or the connection is
  closed.\<close>

definition cut_short :: "frame_writers \<Rightarrow> nat list \<Rightarrow> bytes \<Rightarrow> bool" where
  "cut_short s whole partial \<longleftrightarrow> (\<exists>i payload. i < length (ep_ops (fw_io s)) \<and> dir_of (fw_io s) i = Writing \<and> i \<notin> set whole \<and>
     fw_messages s ! i = Inr payload \<and> prefix partial payload \<and> (ep_closed (fw_io s) \<or> mutex_of Writing (fw_io s) = Some i))"

lemma frame_ok_prefix:
  "frame_ok max_frame pc message whole partial \<Longrightarrow> partial = [] \<or> \<not> whole \<and> (\<exists>payload. message = Inr payload \<and> prefix partial payload)"
  by (cases pc; auto; cases "case pc of Wrote r \<Rightarrow> r"; auto)

lemma frames_inv_cut_short:
  assumes "frames_inv s whole partial"
  shows "partial = [] \<or> cut_short s whole partial"
proof (cases "mutex_of Writing (fw_io s)")
  case None
  with assms show ?thesis by (auto simp: frames_inv_def partial_ok_def cut_short_def torn_def)
next
  case (Some i)
  with assms have i: "i < length (ep_ops (fw_io s))" "dir_of (fw_io s) i = Writing"
    by (simp_all add: frames_inv_def inv_mutex_def)
  show ?thesis
  proof (cases "pc_of (fw_io s) i = Locked")
    case True
    with Some assms show ?thesis by (auto simp: frames_inv_def partial_ok_def cut_short_def torn_def)
  next
    case False
    with Some assms have "frame_ok (ep_max_frame (fw_io s)) (fw_pcs s ! i) (fw_messages s ! i) (i \<in> set whole) partial"
      by (simp add: frames_inv_def partial_ok_def)
    from frame_ok_prefix [OF this] i Some show ?thesis by (auto simp: cut_short_def)
  qed
qed

text \<open>A closed connection on which no call is inside its frame.\<close>

definition quiet :: "frame_writers \<Rightarrow> bool" where
  "quiet s \<longleftrightarrow> ep_closed (fw_io s) \<and> (\<forall>i. \<not> in_frame s i)"

lemma op_step_no_new_frame:
  assumes "op_step i r io = Some io'" "ep_closed io" "pc_of io' j = Performing" "j < length (ep_ops io')"
  shows "pc_of io j = Performing \<and> j < length (ep_ops io) \<and> dir_of io j = dir_of io' j"
  using assms(1) by (cases rule: op_step_cases) (use assms in \<open>auto simp: return_op_def split: if_splits\<close>)

lemma quiet_step:
  assumes "frames_step s t" "quiet s"
  shows "quiet t \<and> fw_stream t = fw_stream s"
  using assms(1)
proof (rule frames_stepE)
  fix d message assume "t = begin_call d message s"
  with assms(2) show ?thesis by (auto simp: quiet_def in_frame_def begin_call_def nth_append split: if_splits)
next
  fix i outcome answer assume "call_action i outcome answer s = Some t"
  with assms(2) obtain io where io: "op_step i answer (fw_io s) = Some io" "t = s\<lparr>fw_io := io\<rparr>"
    by (auto simp: quiet_def call_action_def)
  with assms(2) op_step_closed [OF io(1)] op_step_no_new_frame [OF io(1)] show ?thesis
    by (auto simp: quiet_def in_frame_def pc_of_def [symmetric] dir_of_def [symmetric]) metis
qed

interpretation quiet_latch: latch quiet frames_step
  by unfold_locales (use quiet_step in blast)

lemma quiet_run: "frames_step\<^sup>*\<^sup>* s t \<Longrightarrow> quiet s \<Longrightarrow> fw_stream t = fw_stream s"
proof (induction rule: rtranclp_induct)
  case (step t u)
  then show ?case using quiet_step [OF step(2)] quiet_latch.run_closed [OF step(1)] by simp
qed simp

text \<open>C24: Frames stay whole: whatever the interleaving of the calls of a connection and however the stream
  accepts the bytes, what has been written is a sequence of whole lines of distinct calls, each
  call that succeeded among them exactly once, and at most the beginning of one more message, whose
  call still has the lock unless the connection is closed. Once it is closed and no call is inside
  its frame, nothing is ever written again.\<close>

theorem frames_stay_whole:
  assumes "frames_reachable max_frame s"
  shows "(\<exists>whole partial. fw_stream s = concat (map (\<lambda>i. frame_of (fw_messages s ! i)) whole) @ partial \<and>
      distinct whole \<and> (\<forall>i. sent_ok s i \<longrightarrow> i \<in> set whole) \<and>
      (\<forall>i\<in>set whole. \<exists>payload. fw_messages s ! i = Inr payload) \<and>
      (partial = [] \<or> cut_short s whole partial)) \<and>
    (\<forall>t. quiet s \<and> frames_step\<^sup>*\<^sup>* s t \<longrightarrow> fw_stream t = fw_stream s)"
proof
  from reachable_frames_inv [OF assms] obtain whole partial where inv: "frames_inv s whole partial" by blast
  have sent: "\<forall>i. sent_ok s i \<longrightarrow> i \<in> set whole"
    using inv by (auto simp: frames_inv_def sent_ok_def call_ok_def)
  have payloads: "\<forall>i\<in>set whole. \<exists>payload. fw_messages s ! i = Inr payload"
    using inv by (auto simp: frames_inv_def)
  show "\<exists>whole partial. fw_stream s = concat (map (\<lambda>i. frame_of (fw_messages s ! i)) whole) @ partial \<and>
      distinct whole \<and> (\<forall>i. sent_ok s i \<longrightarrow> i \<in> set whole) \<and>
      (\<forall>i\<in>set whole. \<exists>payload. fw_messages s ! i = Inr payload) \<and>
      (partial = [] \<or> cut_short s whole partial)"
    by (rule exI [of _ whole], rule exI [of _ partial])
      (use inv sent payloads frames_inv_cut_short [OF inv] in \<open>simp add: frames_inv_def\<close>)
qed (use quiet_run in blast)

section \<open>A run\<close>

lemma call_events_reach:
  "frames_run evs s = Some t \<Longrightarrow> (\<forall>i. DropsCall i \<notin> set evs) \<Longrightarrow> frames_step\<^sup>*\<^sup>* s t"
proof (induction evs arbitrary: s)
  case (Cons ev evs)
  then show ?case
    by (cases ev) (auto simp: bind_eq_Some_conv intro: converse_rtranclp_into_rtranclp frames_step.intros)
qed simp

text \<open>Two writers, the stream takes the first message in pieces and breaks in the second.\<close>

definition go :: "nat \<Rightarrow> frames_event" where
  "go i = Acts i (Accepts 2) (Inr ())"

definition broken_pipe :: "nat \<Rightarrow> frames_event" where
  "broken_pipe i = Acts i (Breaks write_zero) (Inr ())"

definition two_writers :: "frames_event list" where
  "two_writers = [BeginsCall Writing (Inr [97, 98, 99]), BeginsCall Writing (Inr [100, 101, 102]), go 0, go 1, go 0, go 0,
     go 0, go 0, go 0, go 0, go 0, go 0, go 0, go 0, go 1, go 1, go 1, go 1, broken_pipe 1, go 1, go 1, go 1]"

lemma two_writers_run:
  "(case frames_run two_writers (new_writers 10) of None \<Rightarrow> False
    | Some s \<Rightarrow> fw_stream s = [97, 98, 99, 10, 100, 101] \<and>
        map eo_pc (ep_ops (fw_io s)) = [Done (Inr ()), Done (Inl (Io (asc ''write zero'')))] \<and> ep_closed (fw_io s))"
  by code_simp

theorem frames_stay_whole_witness:
  "\<exists>s. frames_run two_writers (new_writers 10) = Some s \<and> fw_stream s = [97, 98, 99, 10, 100, 101] \<and>
     (\<exists>whole partial. fw_stream s = concat (map (\<lambda>i. frame_of (fw_messages s ! i)) whole) @ partial \<and>
        distinct whole \<and> 0 \<in> set whole) \<and>
     fw_stream (begin_call Writing (Inr [103]) s) = fw_stream s"
proof -
  from two_writers_run obtain s where run: "frames_run two_writers (new_writers 10) = Some s"
    and stream: "fw_stream s = [97, 98, 99, 10, 100, 101]" and closed: "ep_closed (fw_io s)"
    and pcs: "map eo_pc (ep_ops (fw_io s)) = [Done (Inr ()), Done (Inl (Io (asc ''write zero'')))]"
    by (auto split: option.splits)
  have reach: "frames_reachable 10 s"
    unfolding frames_reachable_def
    by (rule call_events_reach [OF run]) (simp add: two_writers_def go_def broken_pipe_def)
  have n: "length (ep_ops (fw_io s)) = 2" using arg_cong [OF pcs, of length] by simp
  have pc: "pc_of (fw_io s) 0 = Done (Inr ())" "pc_of (fw_io s) 1 = Done (Inl (Io (asc ''write zero'')))"
    using arg_cong [OF pcs, of "\<lambda>xs. xs ! 0"] arg_cong [OF pcs, of "\<lambda>xs. xs ! 1"] n by (simp_all add: pc_of_def)
  have "\<not> in_frame s i" for i
  proof
    assume frame: "in_frame s i"
    with n have "i = 0 \<or> i = 1" by (auto simp: in_frame_def)
    with frame pc show False by (auto simp: in_frame_def pc_of_def)
  qed
  with closed have quiet: "quiet s" by (simp add: quiet_def)
  have "dir_of (fw_io s) 0 = Writing"
  proof -
    have "(case frames_run two_writers (new_writers 10) of None \<Rightarrow> False | Some s \<Rightarrow> dir_of (fw_io s) 0 = Writing)"
      by code_simp
    then show ?thesis by (simp add: run)
  qed
  then have "sent_ok s 0" using pc n by (simp add: sent_ok_def)
  moreover have "frames_step\<^sup>*\<^sup>* s (begin_call Writing (Inr [103]) s)" by (intro r_into_rtranclp frames_step.begin_call)
  ultimately show ?thesis
    using frames_stay_whole [OF reach] run stream quiet by blast
qed

section \<open>Concurrent sends are received\<close>

lemma frames_run_max:
  "frames_step\<^sup>*\<^sup>* s t \<Longrightarrow> ep_max_frame (fw_io t) = ep_max_frame (fw_io s)"
proof (induction rule: rtranclp_induct)
  case (step t u)
  from step(2) have "ep_max_frame (fw_io u) = ep_max_frame (fw_io t)"
    by (rule frames_stepE)
      (auto simp: begin_call_def call_action_def op_step_shape split: if_splits frame_pc.splits prod.splits)
  with step(3) show ?case by simp
qed simp

text \<open>The messages behind the calls: each writing call encodes its own.\<close>

definition calls_send :: "host_to_guest json_format \<Rightarrow> (nat \<Rightarrow> host_to_guest) \<Rightarrow> frame_writers \<Rightarrow> bool" where
  "calls_send format message s \<longleftrightarrow> (\<forall>i<length (fw_messages s). eo_direction (ep_ops (fw_io s) ! i) = Writing \<longrightarrow>
     fw_messages s ! i = jf_encode format (message i) \<and> json_reads_back format (message i))"

lemma sends_are_received:
  assumes "frames_reachable (jl_max_frame_bytes codec) s" "jl_max_frame_bytes codec + 1 < usize_max"
    and "calls_send (wf_host formats) message s" "proper_reader r" "stream r = fw_stream s"
  shows "\<exists>whole r'. distinct whole \<and> (\<forall>i. sent_ok s i \<longrightarrow> i \<in> set whole) \<and>
    (\<forall>i\<in>set whole. i < length (ep_ops (fw_io s)) \<and> dir_of (fw_io s) i = Writing) \<and>
    receive_n (read_host_to_guest formats codec) (length whole) r = Some (Inr (map message whole), r') \<and>
    10 \<notin> set (stream r') \<and> proper_reader r'"
proof -
  from reachable_frames_inv [OF assms(1)] obtain whole partial where inv: "frames_inv s whole partial" by blast
  have max1: "ep_max_frame (fw_io s) = jl_max_frame_bytes codec"
    using frames_run_max [OF assms(1) [unfolded frames_reachable_def]] by (simp add: new_writers_def new_endpoint_def)
  have sent: "i \<in> set whole" if "sent_ok s i" for i
    using inv that by (auto simp: frames_inv_def sent_ok_def call_ok_def)
  define payload where "payload i = (case fw_messages s ! i of Inr bs \<Rightarrow> bs | Inl e \<Rightarrow> [])" for i
  have each: "encodes_as (wf_host formats) codec (message i) (payload i) \<and> frame_of (fw_messages s ! i) = payload i @ [10]"
    if "i \<in> set whole" for i
    using inv that assms(3) max1
    by (fastforce simp: frames_inv_def calls_send_def dir_of_def encodes_as_def payload_def frame_of_def)
  have "list_all2 (encodes_as (wf_host formats) codec) (map message whole) (map payload whole)"
    using each by (simp add: list_all2_conv_all_nth)
  moreover have "fw_stream s = concat (map (\<lambda>bs. bs @ [10]) (map payload whole)) @ partial"
  proof -
    have "map (\<lambda>i. frame_of (fw_messages s ! i)) whole = map (\<lambda>bs. bs @ [10]) (map payload whole)" using each by simp
    with inv show ?thesis by (simp add: frames_inv_def)
  qed
  ultimately obtain r' where r': "receive_n (\<lambda>r. read_direction (wf_host formats) (wf_guest formats) codec r
      (asc ''host_to_guest'') (asc ''guest_to_host'')) (length whole) r = Some (Inr (map message whole), r')" "stream r' = partial" "proper_reader r'"
    using receive_frames [OF assms(2) _ assms(4), of "wf_host formats" "map message whole" "map payload whole" partial] assms(5)
    by fastforce
  have "10 \<notin> set partial"
    using frames_inv_cut_short [OF inv]
  proof
    assume "cut_short s whole partial"
    then obtain i bs where i: "i < length (ep_ops (fw_io s))" "dir_of (fw_io s) i = Writing" "fw_messages s ! i = Inr bs" "prefix partial bs"
      unfolding cut_short_def by blast
    with inv assms(3) have "jf_encode (wf_host formats) (message i) = Inr bs" "json_reads_back (wf_host formats) (message i)"
      by (auto simp: calls_send_def frames_inv_def dir_of_def)
    then have "10 \<notin> set bs" by (simp add: json_reads_back_def)
    with i(4) show ?thesis using set_mono_prefix by blast
  qed simp
  with r' sent inv show ?thesis
    by (intro exI [of _ whole] exI [of _ r']) (simp add: frames_inv_def read_host_to_guest_def [abs_def])
qed

text \<open>C22: Concurrent sends are received: whatever the interleaving of the sends on the host's side and in
  whatever chunks its bytes arrive, the guest reads whole requests, one per call and each call at most
  once, in one common order; every request whose send succeeded is among them, and what is left on
  the stream after them contains no further line.\<close>

theorem concurrent_sends_are_received:
  assumes "frames_reachable (jl_max_frame_bytes codec) s" "jl_max_frame_bytes codec + 1 < usize_max"
    and "calls_send (wf_host formats) message s" "proper_reader r" "stream r = fw_stream s"
  shows "\<exists>whole r'. distinct whole \<and> (\<forall>i. sent_ok s i \<longrightarrow> i \<in> set whole) \<and>
    (\<forall>i\<in>set whole. i < length (ep_ops (fw_io s)) \<and> dir_of (fw_io s) i = Writing) \<and>
    receive_n (read_host_to_guest formats codec) (length whole) r = Some (Inr (map message whole), r') \<and>
    10 \<notin> set (stream r')"
  using sends_are_received [OF assms] by blast

definition two_requests :: "frames_event list" where
  "two_requests = [BeginsCall Writing (Inr [114]), BeginsCall Writing (Inr [114]), go 1, go 0] @
     replicate 9 (go 1) @ replicate 9 (go 0)"

lemma two_requests_run:
  "case frames_run two_requests (new_writers 2) of None \<Rightarrow> False
   | Some s \<Rightarrow> fw_stream s = [114, 10, 114, 10] \<and> fw_messages s = [Inr [114], Inr [114]] \<and>
       ep_ops (fw_io s) = [\<lparr>eo_direction = Writing, eo_pc = Done (Inr ())\<rparr>, \<lparr>eo_direction = Writing, eo_pc = Done (Inr ())\<rparr>]"
  by code_simp

theorem concurrent_sends_are_received_witness:
  "\<exists>r'. receive_n (read_host_to_guest toy_formats \<lparr>jl_max_frame_bytes = 2\<rparr>) 2
      \<lparr>rd_buf = [114], rd_arrivals = [Chunk [10, 114], Chunk [10]]\<rparr> = Some (Inr [toy_request, toy_request], r')"
proof -
  let ?r = "\<lparr>rd_buf = [114], rd_arrivals = [Chunk [10, 114], Chunk [10]]\<rparr>" and ?codec = "\<lparr>jl_max_frame_bytes = 2\<rparr>"
  from two_requests_run obtain s where run: "frames_run two_requests (new_writers 2) = Some s"
    and s: "fw_stream s = [114, 10, 114, 10]" "fw_messages s = [Inr [114], Inr [114]]"
      "ep_ops (fw_io s) = [\<lparr>eo_direction = Writing, eo_pc = Done (Inr ())\<rparr>, \<lparr>eo_direction = Writing, eo_pc = Done (Inr ())\<rparr>]"
    by (auto split: option.splits)
  have "frames_reachable 2 s"
    unfolding frames_reachable_def by (rule call_events_reach [OF run]) (simp add: two_requests_def go_def)
  then have reach: "frames_reachable (jl_max_frame_bytes ?codec) s" by simp
  have calls: "calls_send (wf_host toy_formats) (\<lambda>i. toy_request) s"
    using toy_faithful(1) by (auto simp: calls_send_def s toy_formats_def json_faithful_def less_Suc_eq toy_host_def toy_request_def)
  have r: "proper_reader ?r" "stream ?r = fw_stream s" by (simp_all add: proper_reader_def stream_def s)
  from concurrent_sends_are_received [OF reach toy_codec calls r] obtain whole r' where w: "distinct whole"
    "\<forall>i. sent_ok s i \<longrightarrow> i \<in> set whole" "\<forall>i\<in>set whole. i < length (ep_ops (fw_io s))"
    "receive_n (read_host_to_guest toy_formats ?codec) (length whole) ?r = Some (Inr (map (\<lambda>i. toy_request) whole), r')"
    by blast
  have "sent_ok s 0" "sent_ok s 1" by (simp_all add: sent_ok_def pc_of_def dir_of_def s)
  with w(2,3) have "set whole = {0, 1}" by (fastforce simp: s)
  with w(1) have "length whole = 2" using distinct_card [of whole] by simp
  with w(4) show ?thesis by (auto simp: length_Suc_conv numeral_2_eq_2)
qed

section \<open>One frame alone\<close>

text \<open>A writer whose stream answers by a given sequence of outcomes.\<close>

function write_all_of :: "(nat \<Rightarrow> stream_outcome) \<Rightarrow> bytes \<Rightarrow> (nat \<times> bytes, io_error, unit) io" where
  "write_all_of outcomes rest (k, written) =
     (if rest = [] then (Inr (), (k, written))
      else case offer (outcomes k) rest of
        Inl e \<Rightarrow> (Inl e, (Suc k, written))
      | Inr (rest', sent) \<Rightarrow> write_all_of outcomes rest' (Suc k, written @ sent))"
  by pat_completeness auto
termination
  by (relation "measure (\<lambda>(outcomes, rest, w). length rest)") (auto dest!: offer_Inr)

declare write_all_of.simps [simp del]

definition outcome_writer :: "(nat \<Rightarrow> stream_outcome) \<Rightarrow> (nat \<times> bytes) writer_port" where
  "outcome_writer outcomes =
     \<lparr>wp_write_all = write_all_of outcomes,
      wp_flush = (\<lambda>(k, written). case outcomes k of
         Breaks e \<Rightarrow> (Inl e, (Suc k, written)) | Accepts n \<Rightarrow> (Inr (), (Suc k, written)))\<rparr>"

text \<open>The steps of one frame, each taking the next outcome if it asks the stream.\<close>

fun asks_stream :: "frame_pc \<Rightarrow> bool" where
  "asks_stream (SendingBody rest) = (rest \<noteq> [])"
| "asks_stream SendingNewline = True"
| "asks_stream Flushing = True"
| "asks_stream _ = False"

definition lone_step ::
  "(nat \<Rightarrow> stream_outcome) \<Rightarrow> nat \<Rightarrow> str + bytes \<Rightarrow> frame_pc \<times> nat \<times> bytes \<Rightarrow> frame_pc \<times> nat \<times> bytes" where
  "lone_step outcomes max_frame message = (\<lambda>(pc, k, written).
     (case frame_step (outcomes k) max_frame message pc of
        (pc', sent) \<Rightarrow> (pc', (if asks_stream pc then Suc k else k), written @ sent)))"

definition takes :: "(nat \<Rightarrow> stream_outcome) \<Rightarrow> nat \<Rightarrow> str + bytes \<Rightarrow> frame_pc \<times> nat \<times> bytes \<Rightarrow> frame_pc \<times> nat \<times> bytes \<Rightarrow> bool" where
  "takes outcomes max_frame message p q \<longleftrightarrow> (\<exists>n. (lone_step outcomes max_frame message ^^ n) p = q)"

lemma takes_refl: "takes outcomes max_frame message p p"
  by (auto simp: takes_def intro: exI [of _ 0])

lemma takes_first:
  assumes "takes outcomes max_frame message (lone_step outcomes max_frame message p) q"
  shows "takes outcomes max_frame message p q"
proof -
  from assms obtain n where "(lone_step outcomes max_frame message ^^ Suc n) p = q"
    by (auto simp: takes_def funpow_swap1)
  then show ?thesis unfolding takes_def by blast
qed

lemma takes_trans:
  assumes "takes outcomes max_frame message p q" "takes outcomes max_frame message q r"
  shows "takes outcomes max_frame message p r"
proof -
  from assms obtain m n where "(lone_step outcomes max_frame message ^^ (n + m)) p = r"
    by (auto simp: takes_def funpow_add)
  then show ?thesis unfolding takes_def by blast
qed

lemma lone_body:
  "case write_all_of outcomes rest (k, written) of
     (Inl e, (k', written')) \<Rightarrow> takes outcomes max_frame message (SendingBody rest, k, written) (Wrote (Inl (Io (ie_text e))), k', written')
   | (Inr u, (k', written')) \<Rightarrow> takes outcomes max_frame message (SendingBody rest, k, written) (SendingNewline, k', written')"
proof (induction outcomes rest "(k, written)" arbitrary: k written rule: write_all_of.induct)
  case (1 outcomes rest k written)
  let ?p = "(SendingBody rest, k, written)"
  have "write_all_of outcomes rest (k, written) = (if rest = [] then (Inr (), (k, written))
      else case offer (outcomes k) rest of
        Inl e \<Rightarrow> (Inl e, (Suc k, written))
      | Inr (rest', sent) \<Rightarrow> write_all_of outcomes rest' (Suc k, written @ sent))"
    by (rule write_all_of.simps)
  moreover have "lone_step outcomes max_frame message ?p = (if rest = [] then (SendingNewline, k, written)
      else case offer (outcomes k) rest of
        Inl e \<Rightarrow> (Wrote (Inl (Io (ie_text e))), Suc k, written)
      | Inr (rest', sent) \<Rightarrow> (SendingBody rest', Suc k, written @ sent))"
    by (simp add: lone_step_def split: sum.splits)
  ultimately have eqs: "write_all_of outcomes rest (k, written) = (if rest = [] then (Inr (), (k, written))
      else case offer (outcomes k) rest of
        Inl e \<Rightarrow> (Inl e, (Suc k, written))
      | Inr (rest', sent) \<Rightarrow> write_all_of outcomes rest' (Suc k, written @ sent))"
    "lone_step outcomes max_frame message ?p = (if rest = [] then (SendingNewline, k, written)
      else case offer (outcomes k) rest of
        Inl e \<Rightarrow> (Wrote (Inl (Io (ie_text e))), Suc k, written)
      | Inr (rest', sent) \<Rightarrow> (SendingBody rest', Suc k, written @ sent))" .
  note first = takes_first [of outcomes max_frame message ?p, unfolded eqs(2)]
  show ?case
  proof (cases "rest = []")
    case True
    with eqs(1) have "write_all_of outcomes rest (k, written) = (Inr (), (k, written))" by simp
    moreover from True first [OF takes_refl] have "takes outcomes max_frame message ?p (SendingNewline, k, written)" by simp
    ultimately show ?thesis by simp
  next
    case rest: False
    show ?thesis
    proof (cases "offer (outcomes k) rest")
      case (Inl e)
      with rest first [OF takes_refl] show ?thesis by (simp add: eqs(1))
    next
      case (Inr r)
      obtain rest' sent where r: "r = (rest', sent)" by fastforce
      with rest Inr first have next1: "takes outcomes max_frame message (SendingBody rest', Suc k, written @ sent) q \<Longrightarrow>
          takes outcomes max_frame message ?p q" for q
        by simp
      show ?thesis
        using 1 [OF rest Inr [unfolded r] refl] rest Inr r
        by (auto simp: eqs(1) split: sum.splits prod.splits intro: next1)
    qed
  qed
qed

lemma write_newline:
  "write_all_of outcomes [10] (k, written) =
     (case offer (outcomes k) [10] of Inl e \<Rightarrow> (Inl e, (Suc k, written)) | Inr p \<Rightarrow> (Inr (), (Suc k, written @ [10])))"
proof (cases "offer (outcomes k) [10]")
  case (Inr p)
  moreover obtain rest' sent where p: "p = (rest', sent)" by fastforce
  moreover from offer_Inr [OF Inr [unfolded p]] have "rest' = []" "sent = [10]" by (auto simp: Cons_eq_append_conv)
  ultimately show ?thesis by (simp add: write_all_of.simps)
qed (simp add: write_all_of.simps)

lemma lone_tail:
  "case io_bind (io_or_transport (wp_write_all (outcome_writer outcomes) [10]))
            (\<lambda>_. io_or_transport (wp_flush (outcome_writer outcomes))) (k, written) of
     (r, (k', written')) \<Rightarrow> takes outcomes max_frame message (SendingNewline, k, written) (Wrote r, k', written')"
proof (cases "offer (outcomes k) [10]")
  case (Inl e)
  then have "lone_step outcomes max_frame message (SendingNewline, k, written) = (Wrote (Inl (Io (ie_text e))), Suc k, written)"
    by (simp add: lone_step_def)
  with Inl takes_first [of outcomes max_frame message "(SendingNewline, k, written)", OF takes_refl] show ?thesis
    by (simp add: outcome_writer_def io_or_transport_def io_bind_def write_newline)
next
  case (Inr p)
  moreover obtain rest' sent where p: "p = (rest', sent)" by fastforce
  moreover from offer_Inr [OF Inr [unfolded p]] have "sent = [10]" by (auto simp: Cons_eq_append_conv)
  ultimately have first: "lone_step outcomes max_frame message (SendingNewline, k, written) = (Flushing, Suc k, written @ [10])"
    by (simp add: lone_step_def)
  have second: "lone_step outcomes max_frame message (Flushing, Suc k, written @ [10]) =
      (Wrote (case outcomes (Suc k) of Breaks e \<Rightarrow> Inl (Io (ie_text e)) | Accepts n \<Rightarrow> Inr ()), Suc (Suc k), written @ [10])"
    by (simp add: lone_step_def split: stream_outcome.split)
  have "takes outcomes max_frame message (SendingNewline, k, written)
      (lone_step outcomes max_frame message (Flushing, Suc k, written @ [10]))"
    by (rule takes_first, unfold first, rule takes_first, rule takes_refl)
  with Inr second show ?thesis
    by (simp add: outcome_writer_def io_or_transport_def io_bind_def write_newline split: stream_outcome.splits)
qed

text \<open>C28: Taken alone the steps of a frame are \<open>write_frame\<close>: from its beginning they reach, after finitely
  many, the answer of \<open>write_frame\<close> on a writer whose stream answers with the same outcomes, with the
  same bytes written, whatever the outcomes are: partial acceptances, errors and refusals included.\<close>

theorem lone_frame_is_write_frame:
  assumes "write_frame format codec (outcome_writer outcomes) message (k, written) = (r, (k', written'))"
  shows "takes outcomes (jl_max_frame_bytes codec) (jf_encode format message) (Encoding, k, written) (Wrote r, k', written')"
proof -
  let ?max = "jl_max_frame_bytes codec" and ?m = "jf_encode format message"
  let ?takes = "takes outcomes ?max ?m"
  have start: "?takes (Encoding, k, written) q" if "?takes (lone_step outcomes ?max ?m (Encoding, k, written)) q" for q
    by (rule takes_first [OF that])
  show ?thesis
  proof (cases ?m)
    case (Inl e)
    with assms start [OF takes_refl] show ?thesis by (simp add: write_frame_def io_bind_def lone_step_def)
  next
    case (Inr payload)
    show ?thesis
    proof (cases "?max < length payload")
      case True
      with Inr assms start [OF takes_refl] show ?thesis by (simp add: write_frame_def io_bind_def lone_step_def)
    next
      case False
      with Inr have begin1: "?takes (Encoding, k, written) q" if "?takes (SendingBody payload, k, written) q" for q
        using start [of q] that by (simp add: lone_step_def)
      obtain res k1 written1 where body: "write_all_of outcomes payload (k, written) = (res, (k1, written1))"
        by (metis surj_pair)
      show ?thesis
      proof (cases res)
        case (Inl e)
        with lone_body [where outcomes = outcomes and rest = payload and k = k and written = written and max_frame = ?max and message = ?m] body
        have "?takes (SendingBody payload, k, written) (Wrote (Inl (Io (ie_text e))), k1, written1)" by simp
        with begin1 Inl Inr False body assms show ?thesis
          by (simp add: write_frame_def io_bind_def io_or_transport_def outcome_writer_def)
      next
        case ok: (Inr u)
        with lone_body [where outcomes = outcomes and rest = payload and k = k and written = written and max_frame = ?max and message = ?m] body
        have "?takes (SendingBody payload, k, written) (SendingNewline, k1, written1)" by simp
        moreover from ok Inr False body assms
        have "io_bind (io_or_transport (wp_write_all (outcome_writer outcomes) [10]))
            (\<lambda>_. io_or_transport (wp_flush (outcome_writer outcomes))) (k1, written1) = (r, (k', written'))"
          by (simp add: write_frame_def io_bind_def io_or_transport_def outcome_writer_def)
        with lone_tail [where outcomes = outcomes and k = k1 and written = written1 and max_frame = ?max and message = ?m] have "?takes (SendingNewline, k1, written1) (Wrote r, k', written')"
          by simp
        ultimately show ?thesis using begin1 takes_trans by blast
      qed
    qed
  qed
qed

definition abc_format :: "unit json_format" where
  "abc_format = \<lparr>jf_encode = (\<lambda>m. Inr [97, 98, 99]), jf_decode = (\<lambda>bs. Inr ())\<rparr>"

text \<open>The stream takes two bytes at a time and breaks at the flush.\<close>

definition two_bytes_then_break :: "nat \<Rightarrow> stream_outcome" where
  "two_bytes_then_break k = (if k < 3 then Accepts 2 else Breaks write_zero)"

theorem lone_frame_is_write_frame_witness:
  "takes two_bytes_then_break 3 (Inr [97, 98, 99]) (Encoding, 0, [])
     (Wrote (Inl (Io (asc ''write zero''))), 4, [97, 98, 99, 10])"
proof -
  have "write_frame abc_format \<lparr>jl_max_frame_bytes = 3\<rparr> (outcome_writer two_bytes_then_break) () (0, []) =
      (Inl (Io (asc ''write zero'')), (4, [97, 98, 99, 10]))"
    by (simp add: write_frame_def abc_format_def io_bind_def io_or_transport_def outcome_writer_def write_all_of.simps
        offer_def two_bytes_then_break_def write_zero_def io_error_of_def)
  from lone_frame_is_write_frame [OF this] show ?thesis by (simp add: abc_format_def)
qed

section \<open>Dropped calls\<close>

text \<open>The limit of \<open>frames_stay_whole\<close>: when a caller drops a call in the middle of its frame, the lock is
  free again and the connection still open, so the next call writes behind the torn frame and is told
  that it succeeded; the line on the stream is no message of any call.\<close>

definition dropped_writer :: "frames_event list" where
  "dropped_writer = [BeginsCall Writing (Inr [97, 98, 99]), BeginsCall Writing (Inr [100, 101]), go 0, go 0, go 0, go 0, go 0,
     DropsCall 0, go 1, go 1, go 1, go 1, go 1, go 1, go 1, go 1, go 1, go 1]"

lemma dropped_call_tears_the_stream:
  "case frames_run dropped_writer (new_writers 10) of None \<Rightarrow> False
   | Some s \<Rightarrow> fw_stream s = [97, 98, 100, 101, 10] \<and> pc_of (fw_io s) 1 = Done (Inr ()) \<and> \<not> ep_closed (fw_io s)"
  by code_simp

end
