(* ===== verification/Wire_Receives_Facts.thy ===== *)
theory Wire_Receives_Facts
  imports Wire_Receives Wire_Frames_Facts
begin

text \<open>
  Receiving calls that interleave are serial: together they read the stream as one reader would,
  each message goes to one call, and after a failed read nobody reads again.
\<close>

lemma receive_action_io:
  assumes "receive_action read i answer s = Some t"
  shows "\<exists>r. op_step i r (rc_io s) = Some (rc_io t)"
  using assms by (auto simp: receive_action_def split: if_splits option.splits)

definition receivers_reachable ::
  "(json_lines_codec \<Rightarrow> reader \<Rightarrow> ((transport_error + 'm) \<times> reader) option) \<Rightarrow> nat \<Rightarrow> reader \<Rightarrow> 'm receivers \<Rightarrow> bool" where
  "receivers_reachable read max_frame reader s \<longleftrightarrow> (receivers_step read)\<^sup>*\<^sup>* (new_receivers max_frame reader) s"

lemma receivers_step_io: "receivers_step read s t \<Longrightarrow> endpoint_step (rc_io s) (rc_io t)"
  by (erule receivers_stepE) (auto intro: endpoint_step.intros dest: receive_action_io)

lemma receivers_run_io: "(receivers_step read)\<^sup>*\<^sup>* s t \<Longrightarrow> endpoint_step\<^sup>*\<^sup>* (rc_io s) (rc_io t)"
  by (induction rule: rtranclp_induct) (auto dest: receivers_step_io)

lemma receive_n_snoc:
  "receive_n receive n r = Some (Inr ms, r1) \<Longrightarrow> receive r1 = Some (Inr m, r2) \<Longrightarrow>
   receive_n receive (Suc n) r = Some (Inr (ms @ [m]), r2)"
proof (induction n arbitrary: r ms)
  case (Suc n)
  from Suc.prems(1) obtain m0 ms0 r0 where first: "receive r = Some (Inr m0, r0)"
    "receive_n receive n r0 = Some (Inr ms0, r1)" "ms = m0 # ms0"
    by (auto split: option.splits sum.splits prod.splits)
  from Suc.IH [OF first(2) Suc.prems(2)] first(1,3) show ?case by simp
qed simp

section \<open>The invariant\<close>

text \<open>The call got its message as the next of the stream.\<close>

definition took :: "nat list \<Rightarrow> 'm list \<Rightarrow> nat \<Rightarrow> 'm \<Rightarrow> bool" where
  "took takers ms i m \<longleftrightarrow> (i, m) \<in> set (zip takers ms)"

definition taker_ok :: "'m endpoint_io \<Rightarrow> nat list \<Rightarrow> 'm list \<Rightarrow> nat \<Rightarrow> bool" where
  "taker_ok io takers ms i \<longleftrightarrow> (case pc_of io i of
     Performed (Inr m) \<Rightarrow> took takers ms i m
   | Done (Inr m) \<Rightarrow> took takers ms i m
   | Performed (Inl e) \<Rightarrow> True | ShuttingDown e \<Rightarrow> True | Done (Inl e) \<Rightarrow> True
   | _ \<Rightarrow> i \<notin> set takers)"

text \<open>After a failed read: nobody reads, and the connection is closed or about to be.\<close>

definition read_failed :: "'m endpoint_io \<Rightarrow> bool" where
  "read_failed io \<longleftrightarrow> (\<forall>i<length (ep_ops io). dir_of io i = Reading \<longrightarrow> pc_of io i \<noteq> Performing) \<and>
     (ep_closed io \<or> (\<exists>i e. mutex_of Reading io = Some i \<and> pc_of io i = Performed (Inl e)))"

definition receivers_inv ::
  "(json_lines_codec \<Rightarrow> reader \<Rightarrow> ((transport_error + 'm) \<times> reader) option) \<Rightarrow> nat \<Rightarrow> reader \<Rightarrow> 'm receivers
    \<Rightarrow> nat list \<Rightarrow> 'm list \<Rightarrow> reader \<Rightarrow> bool" where
  "receivers_inv read max_frame r0 s takers ms rd \<longleftrightarrow>
     inv_mutex (rc_io s) \<and> ep_max_frame (rc_io s) = max_frame \<and> distinct takers \<and> length ms = length takers \<and>
     receive_n (read \<lparr>jl_max_frame_bytes = max_frame\<rparr>) (length takers) r0 = Some (Inr ms, rd) \<and>
     (\<forall>i\<in>set takers. i < length (ep_ops (rc_io s)) \<and> dir_of (rc_io s) i = Reading) \<and>
     (\<forall>i<length (ep_ops (rc_io s)). dir_of (rc_io s) i = Reading \<longrightarrow> taker_ok (rc_io s) takers ms i) \<and>
     (rc_reader s = rd \<or> read_failed (rc_io s))"

lemma receivers_inv_new: "receivers_inv read max_frame r0 (new_receivers max_frame r0) [] [] r0"
  by (auto simp: receivers_inv_def new_receivers_def new_endpoint_def inv_mutex_def mutex_of_def split: direction.splits)

lemma taker_ok_step:
  assumes "op_step i r io = Some io'" "pc_of io i = Performing \<Longrightarrow> dir_of io i = Writing"
    and "j < length (ep_ops io)" "dir_of io j = Reading" "taker_ok io takers ms j"
  shows "taker_ok io' takers ms j"
  using assms(1)
  by (cases rule: op_step_cases)
    (use assms(2-) in \<open>auto simp: taker_ok_def return_op_def split: op_pc.splits sum.splits if_splits\<close>)

lemma read_failed_step:
  assumes "inv_mutex io" "op_step i r io = Some io'" "read_failed io"
  shows "read_failed io'"
proof -
  have i: "i < length (ep_ops io)" using assms(2) by (cases rule: op_step_cases) auto
  have idle: "pc_of io j \<noteq> Performing" if "j < length (ep_ops io)" "dir_of io j = Reading" for j
    using assms(3) that by (simp add: read_failed_def)
  have locked: "ep_closed io" if "pc_of io i = Locked" "dir_of io i = Reading"
  proof -
    from assms(1) i that have "mutex_of Reading io = Some i" by (simp add: inv_mutex_def)
    with assms(3) that show ?thesis by (auto simp: read_failed_def)
  qed
  have idle': "pc_of io' j \<noteq> Performing" if "j < length (ep_ops io')" "dir_of io' j = Reading" for j
    using assms(2)
    by (cases rule: op_step_cases) (use that idle locked in \<open>auto simp: return_op_def split: if_splits\<close>)
  have "ep_closed io' \<or> (\<exists>i e. mutex_of Reading io' = Some i \<and> pc_of io' i = Performed (Inl e))"
  proof (cases "ep_closed io")
    case True
    then show ?thesis using op_step_closed [OF assms(2)] by blast
  next
    case False
    with assms(3) obtain j e where j: "mutex_of Reading io = Some j" "pc_of io j = Performed (Inl e)"
      by (auto simp: read_failed_def)
    with assms(1) have "dir_of io j = Reading" by (simp add: inv_mutex_def)
    show ?thesis
    proof (cases "j = i")
      case True
      with assms(2) j False show ?thesis by (cases rule: op_step_cases) auto
    next
      case False
      have other: "dir_of io i \<noteq> Reading" if "holding (pc_of io i)"
      proof
        assume "dir_of io i = Reading"
        with assms(1) i that have "mutex_of Reading io = Some i" by (simp add: inv_mutex_def)
        with j(1) False show False by simp
      qed
      have "mutex_of Reading io' = Some j \<and> pc_of io' j = Performed (Inl e)"
        using assms(2)
        by (cases rule: op_step_cases) (use False j other i in \<open>auto simp: return_op_def\<close>)
      then show ?thesis by blast
    qed
  qed
  with idle' show ?thesis by (simp add: read_failed_def)
qed

lemma receivers_inv_begin:
  assumes "receivers_inv read max_frame r0 s takers ms rd"
  shows "receivers_inv read max_frame r0
    (s\<lparr>rc_io := (rc_io s)\<lparr>ep_ops := ep_ops (rc_io s) @ [\<lparr>eo_direction = d, eo_pc = Arrived\<rparr>]\<rparr>\<rparr>) takers ms rd"
proof -
  let ?io = "(rc_io s)\<lparr>ep_ops := ep_ops (rc_io s) @ [\<lparr>eo_direction = d, eo_pc = Arrived\<rparr>]\<rparr>" and ?n = "length (ep_ops (rc_io s))"
  have old: "pc_of ?io i = pc_of (rc_io s) i" "dir_of ?io i = dir_of (rc_io s) i" if "i < ?n" for i
    using that by (simp_all add: pc_of_def dir_of_def nth_append)
  have new: "pc_of ?io ?n = Arrived" by (simp add: pc_of_def)
  have takers: "\<forall>i\<in>set takers. i < ?n" using assms by (simp add: receivers_inv_def)
  have failed: "read_failed ?io" if "read_failed (rc_io s)"
  proof -
    have "k < ?n" if "mutex_of Reading (rc_io s) = Some k" for k
      using assms that by (simp add: receivers_inv_def inv_mutex_def)
    with that old new show ?thesis by (fastforce simp: read_failed_def less_Suc_eq)
  qed
  have "taker_ok ?io takers ms i" if "i < Suc ?n" "dir_of ?io i = Reading" for i
  proof (cases "i = ?n")
    case True
    with new takers show ?thesis by (auto simp: taker_ok_def)
  next
    case False
    with that have "i < ?n" by simp
    with that(2) old assms show ?thesis by (auto simp: taker_ok_def receivers_inv_def)
  qed
  moreover have "\<forall>i\<in>set takers. i < Suc ?n \<and> dir_of ?io i = Reading"
    using assms old by (auto simp: receivers_inv_def)
  ultimately show ?thesis
    using assms inv_begin(1) [of "rc_io s" d] failed by (auto simp: receivers_inv_def)
qed

lemma receivers_inv_other:
  assumes "receivers_inv read max_frame r0 s takers ms rd" "op_step i r (rc_io s) = Some io" "\<not> in_read s i"
  shows "receivers_inv read max_frame r0 (s\<lparr>rc_io := io\<rparr>) takers ms rd"
proof -
  have i: "i < length (ep_ops (rc_io s))" using assms(2) by (cases rule: op_step_cases) auto
  have writing: "pc_of (rc_io s) i = Performing \<Longrightarrow> dir_of (rc_io s) i = Writing"
    using assms(3) i by (cases "dir_of (rc_io s) i") (auto simp: in_read_def pc_of_def dir_of_def)
  note n = op_step_shape [OF assms(2)]
  have "taker_ok io takers ms j" if "j < length (ep_ops (rc_io s))" "dir_of (rc_io s) j = Reading" for j
    using taker_ok_step [OF assms(2) writing that] assms(1) that by (simp add: receivers_inv_def)
  then show ?thesis
    using assms(1) inv_mutex_step [OF _ assms(2)] read_failed_step [OF _ assms(2)] n by (auto simp: receivers_inv_def)
qed

lemma took_snoc:
  assumes "length ms = length takers"
  shows "took (takers @ [i]) (ms @ [m]) j m' \<longleftrightarrow> took takers ms j m' \<or> j = i \<and> m' = m"
  using assms by (auto simp: took_def)

lemma receivers_inv_read:
  assumes "receivers_inv read max_frame r0 s takers ms rd" "in_read s i"
    and "read \<lparr>jl_max_frame_bytes = max_frame\<rparr> (rc_reader s) = Some (result, reader)"
    and "op_step i result (rc_io s) = Some io"
  shows "\<exists>takers' ms' rd'. receivers_inv read max_frame r0 (s\<lparr>rc_io := io, rc_reader := reader\<rparr>) takers' ms' rd'"
proof -
  have i: "i < length (ep_ops (rc_io s))" "dir_of (rc_io s) i = Reading" "pc_of (rc_io s) i = Performing"
    using assms(2) by (simp_all add: in_read_def pc_of_def dir_of_def)
  have io: "io = set_pc i (Performed result) (rc_io s)"
    using assms(4) by (cases rule: op_step_cases) (use i(3) in auto)
  note n = op_step_shape [OF assms(4)]
  have mutex: "inv_mutex (rc_io s)" "inv_mutex io"
    using assms(1) inv_mutex_step [OF _ assms(4)] by (simp_all add: receivers_inv_def)
  have rd: "rc_reader s = rd" using assms(1) i by (auto simp: receivers_inv_def read_failed_def)
  have fresh: "i \<notin> set takers" using assms(1) i by (auto simp: receivers_inv_def taker_ok_def)
  have ok: "taker_ok (rc_io s) takers ms j" if "j < length (ep_ops (rc_io s))" "dir_of (rc_io s) j = Reading" for j
    using assms(1) that by (simp add: receivers_inv_def)
  have len: "length ms = length takers" using assms(1) by (simp add: receivers_inv_def)
  show ?thesis
  proof (cases result)
    case (Inl e)
    have "pc_of io j \<noteq> Performing" if "j < length (ep_ops io)" "dir_of io j = Reading" for j
      using that i mutex_exclusive [OF mutex(1), of i j] io by (cases "j = i") auto
    moreover have "mutex_of Reading io = Some i" "pc_of io i = Performed (Inl e)"
      using mutex(2) i n by (auto simp: inv_mutex_def io Inl)
    ultimately have "read_failed io" unfolding read_failed_def by blast
    moreover have "taker_ok io takers ms j" if "j < length (ep_ops (rc_io s))" "dir_of (rc_io s) j = Reading" for j
      using ok [OF that] i by (auto simp: taker_ok_def io Inl)
    ultimately have "receivers_inv read max_frame r0 (s\<lparr>rc_io := io, rc_reader := reader\<rparr>) takers ms rd"
      using assms(1) mutex(2) n by (simp add: receivers_inv_def)
    then show ?thesis by blast
  next
    case (Inr m)
    have "receive_n (read \<lparr>jl_max_frame_bytes = max_frame\<rparr>) (Suc (length takers)) r0 = Some (Inr (ms @ [m]), reader)"
      using assms(1,3) by (intro receive_n_snoc) (simp_all add: receivers_inv_def rd [symmetric] Inr)
    moreover have "taker_ok io (takers @ [i]) (ms @ [m]) j" if "j < length (ep_ops (rc_io s))" "dir_of (rc_io s) j = Reading" for j
      using ok [OF that] i took_snoc [OF len] by (cases "j = i") (auto simp: taker_ok_def io Inr split: op_pc.splits sum.splits)
    ultimately have "receivers_inv read max_frame r0 (s\<lparr>rc_io := io, rc_reader := reader\<rparr>) (takers @ [i]) (ms @ [m]) reader"
      using assms(1) mutex(2) n i fresh len by (simp add: receivers_inv_def)
    then show ?thesis by blast
  qed
qed

lemma receivers_inv_step:
  assumes "receivers_inv read max_frame r0 s takers ms rd" "receivers_step read s t"
  shows "\<exists>takers' ms' rd'. receivers_inv read max_frame r0 t takers' ms' rd'"
  using assms(2)
proof (rule receivers_stepE)
  fix d assume "t = s\<lparr>rc_io := (rc_io s)\<lparr>ep_ops := ep_ops (rc_io s) @ [\<lparr>eo_direction = d, eo_pc = Arrived\<rparr>]\<rparr>\<rparr>"
  with receivers_inv_begin [OF assms(1)] show ?thesis by blast
next
  fix i answer assume act: "receive_action read i answer s = Some t"
  have max1: "ep_max_frame (rc_io s) = max_frame" using assms(1) by (simp add: receivers_inv_def)
  show ?thesis
  proof (cases "in_read s i")
    case True
    with act max1 obtain result reader io where "read \<lparr>jl_max_frame_bytes = max_frame\<rparr> (rc_reader s) = Some (result, reader)"
      "op_step i result (rc_io s) = Some io" "t = s\<lparr>rc_io := io, rc_reader := reader\<rparr>"
      by (auto simp: receive_action_def split: option.splits)
    with receivers_inv_read [OF assms(1) True] show ?thesis by blast
  next
    case False
    with act obtain io where "op_step i answer (rc_io s) = Some io" "t = s\<lparr>rc_io := io\<rparr>"
      by (auto simp: receive_action_def)
    with receivers_inv_other [OF assms(1) _ False] show ?thesis by blast
  qed
qed

lemma reachable_receivers_inv:
  assumes "receivers_reachable read max_frame r0 s"
  shows "\<exists>takers ms rd. receivers_inv read max_frame r0 s takers ms rd"
  using assms unfolding receivers_reachable_def
proof (induction rule: rtranclp_induct)
  case (step s t)
  then show ?case using receivers_inv_step by blast
qed (use receivers_inv_new in blast)

section \<open>Concurrent receives are serial\<close>

text \<open>A receiving call that returned the message \<open>m\<close>.\<close>

definition got :: "'m receivers \<Rightarrow> nat \<Rightarrow> 'm \<Rightarrow> bool" where
  "got s i m \<longleftrightarrow> i < length (ep_ops (rc_io s)) \<and> dir_of (rc_io s) i = Reading \<and> pc_of (rc_io s) i = Done (Inr m)"

text \<open>C25: Receives that interleave are serial: there is one order of receiving calls in which a single
  reader, reading one message after the other from the same bytes, gets exactly these messages;
  every call that returned a message is in it, at the place of its message, and no two calls share
  a place. Sends and failures of other calls at the same time do not disturb this. While the
  connection is open and no call is reading, what follows on the stream is still to be read.\<close>

theorem receives_are_serial:
  assumes "receivers_reachable read max_frame r0 s"
  shows "\<exists>takers ms rd. distinct takers \<and> length ms = length takers \<and>
    receive_n (read \<lparr>jl_max_frame_bytes = max_frame\<rparr>) (length takers) r0 = Some (Inr ms, rd) \<and>
    (\<forall>i m. got s i m \<longrightarrow> (i, m) \<in> set (zip takers ms)) \<and>
    (\<not> ep_closed (rc_io s) \<and> mutex_of Reading (rc_io s) = None \<longrightarrow> rc_reader s = rd)"
proof -
  from reachable_receivers_inv [OF assms] obtain takers ms rd where inv: "receivers_inv read max_frame r0 s takers ms rd" by blast
  have "(i, m) \<in> set (zip takers ms)" if "got s i m" for i m
    using inv that by (auto simp: receivers_inv_def got_def taker_ok_def took_def)
  moreover have "rc_reader s = rd" if "\<not> ep_closed (rc_io s)" "mutex_of Reading (rc_io s) = None"
    using inv that by (auto simp: receivers_inv_def read_failed_def)
  ultimately show ?thesis
    by (intro exI [of _ takers] exI [of _ ms] exI [of _ rd]) (use inv in \<open>simp add: receivers_inv_def\<close>)
qed

lemma ops_reach:
  "receivers_run read evs s = Some t \<Longrightarrow> (receivers_step read)\<^sup>*\<^sup>* s t"
proof (induction evs arbitrary: s)
  case (Cons ev evs)
  then show ?case
    by (cases ev) (auto simp: bind_eq_Some_conv intro: converse_rtranclp_into_rtranclp receivers_step.intros)
qed simp

text \<open>Two calls that receive, the second asks while the first reads.\<close>

definition two_receives :: "'m receive_event list" where
  "two_receives = BeginsOp Reading # BeginsOp Reading # map (\<lambda>i. ActsOp i (Inl PeerClosed)) [0, 1, 0, 0, 0, 0, 1, 1, 1, 1]"

lemma two_receives_run:
  assumes "read \<lparr>jl_max_frame_bytes = max_frame\<rparr> r0 = Some (Inr m0, r1)" "read \<lparr>jl_max_frame_bytes = max_frame\<rparr> r1 = Some (Inr m1, r2)"
  shows "\<exists>s. receivers_run read two_receives (new_receivers max_frame r0) = Some s \<and> got s 0 m0 \<and> got s 1 m1"
  using assms
  by (simp add: two_receives_def receive_action_def in_read_def new_receivers_def new_endpoint_def op_step_def ensure_open_def finish_def
      return_op_def set_pc_def set_mutex_def mutex_of_def got_def pc_of_def dir_of_def)

definition two_lines :: reader where
  "two_lines = \<lparr>rd_buf = [114], rd_arrivals = [Chunk [10, 114], Chunk [10]]\<rparr>"

lemma two_lines_reads:
  "\<exists>r1 r2. read_host_to_guest toy_formats \<lparr>jl_max_frame_bytes = 2\<rparr> two_lines = Some (Inr toy_request, r1) \<and>
     read_host_to_guest toy_formats \<lparr>jl_max_frame_bytes = 2\<rparr> r1 = Some (Inr toy_request, r2)"
proof -
  let ?codec = "\<lparr>jl_max_frame_bytes = 2\<rparr>"
  have each: "encodes_as (wf_host toy_formats) ?codec toy_request [114]"
    using toy_faithful(1) by (simp add: encodes_as_def toy_formats_def json_faithful_def toy_host_def toy_request_def)
  have "proper_reader two_lines" "stream two_lines = concat (map (\<lambda>bs. bs @ [10]) [[114], [114]]) @ []"
    by (simp_all add: two_lines_def proper_reader_def stream_def)
  from receive_frames [OF toy_codec _ this, where format = "wf_host toy_formats" and ms = "[toy_request, toy_request]"
      and opposite = "wf_guest toy_formats" and expected = "asc ''host_to_guest''" and received = "asc ''guest_to_host''"] each
  obtain r2 where "receive_n (read_host_to_guest toy_formats ?codec) 2 two_lines = Some (Inr [toy_request, toy_request], r2)"
    by (auto simp: read_host_to_guest_def [abs_def] numeral_2_eq_2)
  then show ?thesis by (auto simp: numeral_2_eq_2 split: option.splits sum.splits prod.splits)
qed

theorem receives_are_serial_witness:
  "\<exists>s (takers :: nat list) ms. got s 0 toy_request \<and> got s 1 toy_request \<and> distinct takers \<and>
     (0, toy_request) \<in> set (zip takers ms) \<and> (1, toy_request) \<in> set (zip takers ms) \<and>
     (\<exists>rd. receive_n (read_host_to_guest toy_formats \<lparr>jl_max_frame_bytes = 2\<rparr>) (length takers) two_lines = Some (Inr ms, rd))"
proof -
  let ?codec = "\<lparr>jl_max_frame_bytes = 2\<rparr>"
  from two_lines_reads obtain r1 r2 where reads: "read_host_to_guest toy_formats ?codec two_lines = Some (Inr toy_request, r1)"
    "read_host_to_guest toy_formats ?codec r1 = Some (Inr toy_request, r2)" by blast
  from two_receives_run [where read = "read_host_to_guest toy_formats", OF reads] obtain s where
    s: "receivers_run (read_host_to_guest toy_formats) two_receives (new_receivers 2 two_lines) = Some s"
      "got s 0 toy_request" "got s 1 toy_request" by blast
  have reach: "receivers_reachable (read_host_to_guest toy_formats) 2 two_lines s"
    unfolding receivers_reachable_def by (rule ops_reach [OF s(1)])
  from receives_are_serial [OF reach] obtain takers ms rd where t: "distinct takers" "receive_n (read_host_to_guest toy_formats ?codec) (length takers) two_lines = Some (Inr ms, rd)"
    "\<forall>i m. got s i m \<longrightarrow> (i, m) \<in> set (zip takers ms)" by blast
  then have "(0, toy_request) \<in> set (zip takers ms)" "(1, toy_request) \<in> set (zip takers ms)" using s(2,3) by simp_all
  with t s(2,3) show ?thesis by blast
qed

section \<open>Sends and receives together\<close>

lemma read_needs_newline:
  assumes "jl_max_frame_bytes codec + 1 < usize_max" "proper_reader r" "10 \<notin> set (stream r)"
  shows "read_direction format opposite codec r expected received \<noteq> Some (Inr m, r')"
proof -
  from read_frame_spec [OF assms(1,2)] obtain res r1 where r: "read_frame codec r = Some (res, r1)"
    "slice_result res = frame_spec (jl_max_frame_bytes codec) (stream r) (stream_failure r)" by blast
  with assms(3) obtain e where "res = Inl e" by (cases res) (auto simp: frame_spec_def Let_def split: if_splits)
  with r(1) show ?thesis by (simp add: read_direction_def)
qed

lemma receive_n_prefix:
  "receive_n receive n r = Some (Inr ms, r1) \<Longrightarrow> (\<And>m r'. receive r1 \<noteq> Some (Inr m, r')) \<Longrightarrow>
   receive_n receive k r = Some (Inr ms', r2) \<Longrightarrow> k \<le> n \<and> ms' = take k ms"
proof (induction n arbitrary: r ms k ms')
  case 0
  then show ?case by (cases k) (auto split: option.splits sum.splits prod.splits)
next
  case (Suc n)
  from Suc.prems(1) obtain m0 ms0 r0 where first: "receive r = Some (Inr m0, r0)"
    "receive_n receive n r0 = Some (Inr ms0, r1)" "ms = m0 # ms0"
    by (auto split: option.splits sum.splits prod.splits)
  show ?case
  proof (cases k)
    case 0
    with Suc.prems(3) show ?thesis by simp
  next
    case k: (Suc k')
    with Suc.prems(3) first(1) obtain ms1 where "receive_n receive k' r0 = Some (Inr ms1, r2)" "ms' = m0 # ms1"
      by (auto split: option.splits sum.splits prod.splits)
    with Suc.IH [OF first(2) Suc.prems(2) this(1)] k first(3) show ?thesis by simp
  qed
qed

text \<open>C21: End to end, with any number of senders on the host and of receivers on the guest, in any
  interleaving on both sides and any chunks between them: every request that a receiving call has
  returned is the request of a sending call, and no two receiving calls return the request of the
  same sending call.\<close>

theorem received_requests_were_sent:
  fixes codec :: json_lines_codec
  assumes "frames_reachable (jl_max_frame_bytes codec) s" "jl_max_frame_bytes codec + 1 < usize_max"
    and "calls_send (wf_host formats) message s" "proper_reader r0" "stream r0 = fw_stream s"
    and "receivers_reachable (read_host_to_guest formats) (jl_max_frame_bytes codec) r0 q"
  shows "\<exists>sender. (\<forall>i m. got q i m \<longrightarrow> sender i < length (ep_ops (fw_io s)) \<and> dir_of (fw_io s) (sender i) = Writing \<and> message (sender i) = m) \<and>
    inj_on sender {i. \<exists>m. got q i m}"
proof -
  have codec: "\<lparr>jl_max_frame_bytes = jl_max_frame_bytes codec\<rparr> = codec" by (cases codec) simp
  from sends_are_received [OF assms(1-5)] obtain whole r1 where w: "distinct whole"
    "\<forall>i\<in>set whole. i < length (ep_ops (fw_io s)) \<and> dir_of (fw_io s) i = Writing"
    "receive_n (read_host_to_guest formats codec) (length whole) r0 = Some (Inr (map message whole), r1)"
    "10 \<notin> set (stream r1)" "proper_reader r1" by blast
  from reachable_receivers_inv [OF assms(6)] obtain takers ms rd where
    inv: "receivers_inv (read_host_to_guest formats) (jl_max_frame_bytes codec) r0 q takers ms rd" by blast
  have stop: "read_host_to_guest formats codec r1 \<noteq> Some (Inr m, r')" for m r'
    unfolding read_host_to_guest_def by (rule read_needs_newline [OF assms(2) w(5,4)])
  have "receive_n (read_host_to_guest formats codec) (length takers) r0 = Some (Inr ms, rd)"
    using inv by (simp add: receivers_inv_def codec)
  from receive_n_prefix [OF w(3) stop this] have prefix: "length takers \<le> length whole" "ms = take (length takers) (map message whole)"
    by simp_all
  define sender where "sender i = the (map_of (zip takers (take (length takers) whole)) i)" for i
  have takers: "distinct takers" using inv by (simp add: receivers_inv_def)
  have at: "sender (takers ! k) = whole ! k" if "k < length takers" for k
    using that prefix(1) takers by (simp add: sender_def map_of_zip_nth)
  have place: "\<exists>k<length takers. i = takers ! k \<and> m = message (whole ! k)" if "got q i m" for i m
  proof -
    from inv that have "(i, m) \<in> set (zip takers ms)" by (auto simp: receivers_inv_def got_def taker_ok_def took_def)
    then show ?thesis using prefix by (auto simp: set_zip)
  qed
  have "sender i < length (ep_ops (fw_io s)) \<and> dir_of (fw_io s) (sender i) = Writing \<and> message (sender i) = m" if "got q i m" for i m
    using place [OF that] at w(2) prefix(1) by auto
  moreover have "inj_on sender {i. \<exists>m. got q i m}"
  proof (rule inj_onI)
    fix i j assume ij: "i \<in> {i. \<exists>m. got q i m}" "j \<in> {i. \<exists>m. got q i m}" "sender i = sender j"
    then obtain k l where "k < length takers" "i = takers ! k" "l < length takers" "j = takers ! l" using place by blast
    with ij(3) at w(1) prefix(1) show "i = j" by (simp add: nth_eq_iff_index_eq)
  qed
  ultimately show ?thesis by blast
qed

theorem received_requests_were_sent_witness:
  "\<exists>s q (sender :: nat \<Rightarrow> nat). frames_run two_requests (new_writers 2) = Some s \<and> got q 0 toy_request \<and> got q 1 toy_request \<and>
     sender 0 \<noteq> sender 1 \<and> sender 0 < length (ep_ops (fw_io s)) \<and> sender 1 < length (ep_ops (fw_io s))"
proof -
  let ?codec = "\<lparr>jl_max_frame_bytes = 2\<rparr>" and ?read = "read_host_to_guest toy_formats"
  from two_requests_run obtain s where run: "frames_run two_requests (new_writers 2) = Some s"
    and s: "fw_stream s = [114, 10, 114, 10]" "fw_messages s = [Inr [114], Inr [114]]"
    by (auto split: option.splits)
  have "frames_reachable 2 s"
    unfolding frames_reachable_def by (rule call_events_reach [OF run]) (simp add: two_requests_def go_def)
  then have sends: "frames_reachable (jl_max_frame_bytes ?codec) s" by simp
  have calls: "calls_send (wf_host toy_formats) (\<lambda>i. toy_request) s"
    using toy_faithful(1) by (auto simp: calls_send_def s toy_formats_def json_faithful_def less_Suc_eq toy_host_def toy_request_def)
  have lines: "proper_reader two_lines" "stream two_lines = fw_stream s" by (simp_all add: two_lines_def proper_reader_def stream_def s)
  from two_lines_reads obtain r1 r2 where "?read ?codec two_lines = Some (Inr toy_request, r1)" "?read ?codec r1 = Some (Inr toy_request, r2)"
    by blast
  from two_receives_run [where read = ?read, OF this] obtain q where
    q: "receivers_run ?read two_receives (new_receivers 2 two_lines) = Some q" "got q 0 toy_request" "got q 1 toy_request" by blast
  have receives: "receivers_reachable ?read (jl_max_frame_bytes ?codec) two_lines q"
    unfolding receivers_reachable_def using ops_reach [OF q(1)] by simp
  from received_requests_were_sent [OF sends toy_codec calls lines receives] obtain sender where
    sender: "\<forall>i m. got q i m \<longrightarrow> sender i < length (ep_ops (fw_io s))" "inj_on sender {i. \<exists>m. got q i m}" by blast
  have ends: "0 \<in> {i. \<exists>m. got q i m}" "1 \<in> {i. \<exists>m. got q i m}" using q(2,3) by blast+
  have "sender 0 \<noteq> sender 1"
  proof
    assume "sender 0 = sender 1"
    from inj_onD [OF sender(2) this ends] show False by simp
  qed
  moreover from sender(1) q(2,3) have "sender 0 < length (ep_ops (fw_io s))" "sender 1 < length (ep_ops (fw_io s))" by blast+
  ultimately show ?thesis using run q(2,3) by (intro exI [of _ s] exI [of _ q] exI [of _ sender] conjI)
qed

end
