(* ===== verification/Wire_Ping.thy ===== *)
theory Wire_Ping
  imports Wire_Connection Rust_Num
begin

text \<open>
  The two programs of \<open>crates/vsock/examples\<close>: the host sends one request and expects one response
  and one receipt for it, the guest answers a request with both. The arguments, the fresh request
  id, the two readings of the clock, the form of a \<open>Uuid\<close> and the connection are parameters.
  Printing is left out.
\<close>

section \<open>Arguments\<close>

datatype ping_error =
    PingIo io_error
  | PingParse int_error
  | PingTransport transport_error

definition invalid_data :: "str \<Rightarrow> ping_error" where
  "invalid_data message = PingIo (io_error_of InvalidData message)"

text \<open>\<open>args[0]\<close> panics when there are no arguments at all.\<close>

definition parse_endpoint :: "str list \<Rightarrow> (ping_error + vsock_endpoint) option" where
  "parse_endpoint args =
     (case args of
        [] \<Rightarrow> None
      | [program, cid_arg, port_arg] \<Rightarrow> Some
          (rbind (map_err PingParse (parse_u32 cid_arg)) (\<lambda>cid.
           rbind (map_err PingParse (parse_u32 port_arg)) (\<lambda>port.
           Inr \<lparr>ve_cid = cid, ve_port = port\<rparr>)))
      | program # rest \<Rightarrow>
          Some (Inl (PingIo (io_error_of InvalidInput (asc ''usage: '' @ program @ asc '' <cid> <port>'')))))"

definition correlation_mismatch :: "(uuid \<Rightarrow> str) \<Rightarrow> uuid \<Rightarrow> uuid \<Rightarrow> ping_error" where
  "correlation_mismatch show_uuid expected received =
     invalid_data (asc ''correlation mismatch: expected '' @ show_uuid expected @ asc '', received '' @ show_uuid received)"

section \<open>The host\<close>

text \<open>One round of the loop, on \<open>(saw_response, saw_receipt)\<close>.\<close>

definition accept_evidence ::
  "(uuid \<Rightarrow> str) \<Rightarrow> uuid \<Rightarrow> bool \<times> bool \<Rightarrow> guest_to_host \<Rightarrow> ping_error + bool \<times> bool" where
  "accept_evidence show_uuid req_id saw evidence =
     (if request_id evidence \<noteq> req_id then Inl (correlation_mismatch show_uuid req_id (request_id evidence))
      else case (evidence, saw) of
        (Response r, saw_response, saw_receipt) \<Rightarrow>
          if saw_response then Inl (invalid_data (asc ''received duplicate response'')) else Inr (True, saw_receipt)
      | (ExecutionReceipt r, saw_response, saw_receipt) \<Rightarrow>
          if saw_receipt then Inl (invalid_data (asc ''received duplicate execution receipt'')) else Inr (saw_response, True)
      | (EffectTelemetry t, saw_response, saw_receipt) \<Rightarrow>
          Inl (invalid_data (asc ''received unexpected effect telemetry'')))"

fun collect_evidence ::
  "(uuid \<Rightarrow> str) \<Rightarrow> 'w host_endpoint \<Rightarrow> uuid \<Rightarrow> nat \<Rightarrow> bool \<times> bool \<Rightarrow> ('w, ping_error, bool \<times> bool) act" where
  "collect_evidence show_uuid connection req_id 0 saw = act_lift (Inr saw)"
| "collect_evidence show_uuid connection req_id (Suc n) saw =
     act_bind (act_map_err PingTransport (he_recv connection)) (\<lambda>evidence.
     act_bind (act_lift (accept_evidence show_uuid req_id saw evidence)) (\<lambda>saw'.
     collect_evidence show_uuid connection req_id n saw'))"

definition ping_request :: "uuid \<Rightarrow> host_to_guest" where
  "ping_request req_id = Request \<lparr>wr_id = req_id, wr_body = Introspect 1\<rparr>"

definition incomplete_round_trip :: ping_error where
  "incomplete_round_trip = invalid_data (asc ''round trip did not include response and receipt'')"

definition host_exchange :: "(uuid \<Rightarrow> str) \<Rightarrow> uuid \<Rightarrow> 'w host_endpoint \<Rightarrow> ('w, ping_error, unit) act" where
  "host_exchange show_uuid req_id connection =
     act_bind (act_map_err PingTransport (he_send connection (ping_request req_id))) (\<lambda>_.
     act_bind (collect_evidence show_uuid connection req_id 2 (False, False)) (\<lambda>(saw_response, saw_receipt).
     act_lift (if \<not> saw_response \<or> \<not> saw_receipt then Inl incomplete_round_trip else Inr ())))"

definition host_ping ::
  "(uuid \<Rightarrow> str) \<Rightarrow> (vsock_endpoint \<Rightarrow> nat \<Rightarrow> ('w, transport_error, 'w host_endpoint) act) \<Rightarrow> str list \<Rightarrow> uuid
    \<Rightarrow> ('w, ping_error, unit) act" where
  "host_ping show_uuid connect args req_id =
     (case parse_endpoint args of
        None \<Rightarrow> (\<lambda>w. None)
      | Some endpoint \<Rightarrow>
          act_bind (act_lift endpoint) (\<lambda>endpoint.
          act_bind (act_map_err PingTransport (connect endpoint default_max_frame_bytes)) (\<lambda>connection.
          host_exchange show_uuid req_id connection)))"

section \<open>The guest\<close>

definition send_correlated :: "(uuid \<Rightarrow> str) \<Rightarrow> 'w guest_endpoint \<Rightarrow> uuid \<Rightarrow> guest_to_host \<Rightarrow> ('w, ping_error, unit) act" where
  "send_correlated show_uuid connection req_id message =
     (if request_id message \<noteq> req_id then act_lift (Inl (correlation_mismatch show_uuid req_id (request_id message)))
      else act_map_err PingTransport (ge_send connection message))"

definition ping_only :: error_report where
  "ping_only = new_error_report (asc ''vsock_ping_only'') (asc ''the transport ping example does not execute introspection'')"

definition ping_response :: "uuid \<Rightarrow> guest_to_host" where
  "ping_response req_id = Response (ResponseErr req_id ping_only)"

definition ping_receipt :: "uuid \<Rightarrow> timestamp \<Rightarrow> timestamp \<Rightarrow> guest_to_host" where
  "ping_receipt req_id started_at finished_at = ExecutionReceipt
     \<lparr>xr_request_id = req_id, xr_started_at = started_at, xr_finished_at = finished_at, xr_outcome = Failed ping_only\<rparr>"

fun request_of :: "host_to_guest \<Rightarrow> wire_request" where
  "request_of (Request request) = request"

definition guest_handle ::
  "(uuid \<Rightarrow> str) \<Rightarrow> timestamp \<Rightarrow> timestamp \<Rightarrow> 'w guest_endpoint \<Rightarrow> ('w, ping_error, unit) act" where
  "guest_handle show_uuid started_at finished_at connection =
     act_bind (act_map_err PingTransport (ge_recv connection)) (\<lambda>message.
     (let req_id = wr_id (request_of message) in
      act_bind (send_correlated show_uuid connection req_id (ping_response req_id)) (\<lambda>_.
      send_correlated show_uuid connection req_id (ping_receipt req_id started_at finished_at))))"

definition guest_ping ::
  "(uuid \<Rightarrow> str) \<Rightarrow> (vsock_endpoint \<Rightarrow> nat \<Rightarrow> ('w, transport_error, 'l) act) \<Rightarrow>
   ('l \<Rightarrow> ('w, transport_error, 'w guest_endpoint) act) \<Rightarrow> str list \<Rightarrow> timestamp \<Rightarrow> timestamp \<Rightarrow> ('w, ping_error, unit) act" where
  "guest_ping show_uuid bind accept args started_at finished_at =
     (case parse_endpoint args of
        None \<Rightarrow> (\<lambda>w. None)
      | Some endpoint \<Rightarrow>
          act_bind (act_lift endpoint) (\<lambda>endpoint.
          act_bind (act_map_err PingTransport (bind endpoint default_max_frame_bytes)) (\<lambda>listener.
          act_bind (act_map_err PingTransport (accept listener)) (\<lambda>connection.
          guest_handle show_uuid started_at finished_at connection))))"

end
