(* ===== verification/Wire_Ping_Facts.thy ===== *)
theory Wire_Ping_Facts
  imports Wire_Ping Wire_Connection_Facts
begin

text \<open>
  What the two example programs guarantee: which exchanges the host accepts over any endpoint, what
  the guest sends over any endpoint, and that over a connection that does not break, with bytes
  that arrive in any chunks, both end well.
\<close>

section \<open>The host\<close>

fun is_response :: "guest_to_host \<Rightarrow> bool" where
  "is_response (Response r) = True"
| "is_response _ = False"

fun is_receipt :: "guest_to_host \<Rightarrow> bool" where
  "is_receipt (ExecutionReceipt r) = True"
| "is_receipt _ = False"

lemma accept_first:
  "accept_evidence show_uuid req_id (False, False) e = Inr saw \<longleftrightarrow>
     request_id e = req_id \<and> (is_response e \<and> saw = (True, False) \<or> is_receipt e \<and> saw = (False, True))"
  by (cases e) (auto simp: accept_evidence_def)

lemma accept_second:
  "accept_evidence show_uuid req_id (True, False) e = Inr saw \<longleftrightarrow> request_id e = req_id \<and> is_receipt e \<and> saw = (True, True)"
  "accept_evidence show_uuid req_id (False, True) e = Inr saw \<longleftrightarrow> request_id e = req_id \<and> is_response e \<and> saw = (True, True)"
  by (cases e; auto simp: accept_evidence_def)+

text \<open>Both pieces of evidence are for the request, one a response and the other a receipt.\<close>

definition complete_evidence :: "uuid \<Rightarrow> guest_to_host \<Rightarrow> guest_to_host \<Rightarrow> bool" where
  "complete_evidence req_id e1 e2 \<longleftrightarrow> request_id e1 = req_id \<and> request_id e2 = req_id \<and>
     (is_response e1 \<and> is_receipt e2 \<or> is_receipt e1 \<and> is_response e2)"

lemma collect_Suc_Inr:
  "collect_evidence show_uuid connection req_id (Suc n) saw w = Some (Inr out, w') \<longleftrightarrow>
     (\<exists>e w1 saw1. he_recv connection w = Some (Inr e, w1) \<and> accept_evidence show_uuid req_id saw e = Inr saw1 \<and>
        collect_evidence show_uuid connection req_id n saw1 w1 = Some (Inr out, w'))"
  by (auto simp: act_bind_Inr_iff act_map_err_Inr_iff act_lift_def)

lemma collect_one_Inr:
  "collect_evidence show_uuid connection req_id (Suc 0) (True, False) w = Some (Inr out, w') \<longleftrightarrow>
     (\<exists>e. he_recv connection w = Some (Inr e, w') \<and> request_id e = req_id \<and> is_receipt e) \<and> out = (True, True)"
  "collect_evidence show_uuid connection req_id (Suc 0) (False, True) w = Some (Inr out, w') \<longleftrightarrow>
     (\<exists>e. he_recv connection w = Some (Inr e, w') \<and> request_id e = req_id \<and> is_response e) \<and> out = (True, True)"
  unfolding collect_Suc_Inr by (auto simp: accept_second)

declare collect_evidence.simps(2) [simp del]

lemma collect_two_Inr:
  "collect_evidence show_uuid connection req_id 2 (False, False) w = Some (Inr out, w') \<longleftrightarrow>
     (\<exists>e1 e2 w1. he_recv connection w = Some (Inr e1, w1) \<and> he_recv connection w1 = Some (Inr e2, w') \<and>
        complete_evidence req_id e1 e2) \<and> out = (True, True)"
  (is "?collect \<longleftrightarrow> ?complete")
proof -
  have two: "?collect \<longleftrightarrow> (\<exists>e1 w1. he_recv connection w = Some (Inr e1, w1) \<and> (\<exists>saw.
      accept_evidence show_uuid req_id (False, False) e1 = Inr saw \<and>
      collect_evidence show_uuid connection req_id (Suc 0) saw w1 = Some (Inr out, w')))"
    unfolding numeral_2_eq_2 by (subst collect_Suc_Inr) blast
  have "(\<exists>saw. accept_evidence show_uuid req_id (False, False) e1 = Inr saw \<and>
      collect_evidence show_uuid connection req_id (Suc 0) saw w1 = Some (Inr out, w')) \<longleftrightarrow>
    (\<exists>e2. he_recv connection w1 = Some (Inr e2, w') \<and> complete_evidence req_id e1 e2) \<and> out = (True, True)" (is "?l \<longleftrightarrow> ?r")
    for e1 w1
  proof -
    have "?l \<longleftrightarrow> request_id e1 = req_id \<and>
      (is_response e1 \<and> collect_evidence show_uuid connection req_id (Suc 0) (True, False) w1 = Some (Inr out, w') \<or>
       is_receipt e1 \<and> collect_evidence show_uuid connection req_id (Suc 0) (False, True) w1 = Some (Inr out, w'))"
      unfolding accept_first by blast
    then show ?thesis unfolding collect_one_Inr complete_evidence_def by blast
  qed
  with two show ?thesis by blast
qed

text \<open>The errors of the loop are others than that of the last check.\<close>

lemma accept_error: "accept_evidence show_uuid req_id saw e \<noteq> Inl incomplete_round_trip"
  by (cases e; cases saw)
    (auto simp: accept_evidence_def incomplete_round_trip_def invalid_data_def correlation_mismatch_def io_error_of_def asc_def)

lemma collect_error: "collect_evidence show_uuid connection req_id n saw w \<noteq> Some (Inl incomplete_round_trip, w')"
proof (induction n arbitrary: saw w)
  case (Suc n)
  have "(PingTransport e :: ping_error) \<noteq> incomplete_round_trip" for e
    by (simp add: incomplete_round_trip_def invalid_data_def)
  with Suc accept_error [of show_uuid req_id saw] show ?case
    by (auto simp: collect_evidence.simps(2) act_bind_def act_map_err_def map_err_def act_lift_def split: option.splits sum.splits)
qed simp

text \<open>The host accepts exactly the complete exchanges, over any endpoint: its request was sent, and
  the next two messages are a response and a receipt, in either order, both for its own request. A
  second response or receipt, telemetry, and evidence for another request are refused, and the
  last check of the program, for an incomplete round trip, never strikes.\<close>

theorem host_accepts_complete_exchanges:
  "(host_exchange show_uuid req_id connection w = Some (Inr (), w') \<longleftrightarrow>
     (\<exists>w1 e1 w2 e2. he_send connection (ping_request req_id) w = Some (Inr (), w1) \<and>
        he_recv connection w1 = Some (Inr e1, w2) \<and> he_recv connection w2 = Some (Inr e2, w') \<and>
        complete_evidence req_id e1 e2)) \<and>
   host_exchange show_uuid req_id connection w \<noteq> Some (Inl incomplete_round_trip, w')"
proof
  show "host_exchange show_uuid req_id connection w = Some (Inr (), w') \<longleftrightarrow>
     (\<exists>w1 e1 w2 e2. he_send connection (ping_request req_id) w = Some (Inr (), w1) \<and>
        he_recv connection w1 = Some (Inr e1, w2) \<and> he_recv connection w2 = Some (Inr e2, w') \<and>
        complete_evidence req_id e1 e2)"
    unfolding host_exchange_def act_bind_Inr_iff act_map_err_Inr_iff
    by (auto simp: collect_two_Inr act_lift_def)
next
  have "saw = (True, True)" if "collect_evidence show_uuid connection req_id 2 (False, False) v = Some (Inr saw, v')" for saw v v'
    using that by (simp add: collect_two_Inr)
  moreover have "(PingTransport e :: ping_error) \<noteq> incomplete_round_trip" for e
    by (simp add: incomplete_round_trip_def invalid_data_def)
  ultimately show "host_exchange show_uuid req_id connection w \<noteq> Some (Inl incomplete_round_trip, w')"
    using collect_error [of show_uuid connection req_id 2 "(False, False)"]
    by (auto simp: host_exchange_def act_bind_def act_map_err_def map_err_def act_lift_def
        split: option.splits sum.splits prod.splits if_splits; fastforce)
qed

section \<open>The guest\<close>

lemma correlated [simp]: "request_id (ping_response req_id) = req_id" "request_id (ping_receipt req_id t1 t2) = req_id"
  by (simp_all add: ping_response_def ping_receipt_def)

lemma complete_ping: "complete_evidence req_id (ping_response req_id) (ping_receipt req_id t1 t2)"
  by (simp add: complete_evidence_def ping_response_def ping_receipt_def)

text \<open>The guest over any endpoint: its success is one request received, then the response and the
  receipt sent for it, in this order; its own correlation check never fails.\<close>

lemma guest_handle_Inr:
  "guest_handle show_uuid t1 t2 connection w = Some (Inr (), w') \<longleftrightarrow>
     (\<exists>request w1 w2. ge_recv connection w = Some (Inr (Request request), w1) \<and>
        ge_send connection (ping_response (wr_id request)) w1 = Some (Inr (), w2) \<and>
        ge_send connection (ping_receipt (wr_id request) t1 t2) w2 = Some (Inr (), w'))"
  unfolding guest_handle_def act_bind_Inr_iff act_map_err_Inr_iff Let_def send_correlated_def correlated
  by (auto simp: act_map_err_Inr_iff) (metis request_of.cases request_of.simps)+

section \<open>Both together\<close>

text \<open>The bytes of the exchange, when the three messages are deliverable.\<close>

definition ping_wire :: "wire_formats \<Rightarrow> uuid \<Rightarrow> timestamp \<Rightarrow> timestamp \<Rightarrow> bytes \<Rightarrow> bytes \<Rightarrow> bool" where
  "ping_wire formats req_id t1 t2 down up \<longleftrightarrow>
     (\<exists>bs1 bs2 bs3. deliverable (wf_host formats) (ping_request req_id) bs1 \<and>
        deliverable (wf_guest formats) (ping_response req_id) bs2 \<and>
        deliverable (wf_guest formats) (ping_receipt req_id t1 t2) bs3 \<and>
        down = bs1 @ [10] \<and> up = bs2 @ [10] @ bs3 @ [10])"

text \<open>C20: The round trip completes. Over a connection that does not break, whatever the chunks in which
  the bytes arrive: the host writes exactly the line of its request; a guest that reads this line
  writes exactly the lines of the response and of the receipt; and the host that reads these accepts
  them. Both programs succeed and both connections are still open.\<close>

theorem ping_completes:
  assumes "ping_wire formats req_id t1 t2 down up" "reliable_writer host_writer host_written"
    and "reliable_writer guest_writer guest_written"
    and "proper_reader host_reader" "stream host_reader = up" "proper_reader guest_reader" "stream guest_reader = down"
  shows "\<exists>host guest.
    host_exchange show_uuid req_id (host_vsock_endpoint formats host_writer) (new_connection default_max_frame_bytes host_reader hw)
      = Some (Inr (), host) \<and>
    guest_handle show_uuid t1 t2 (guest_vsock_endpoint formats guest_writer) (new_connection default_max_frame_bytes guest_reader gw)
      = Some (Inr (), guest) \<and>
    host_written (cn_peer host) = host_written hw @ down \<and> guest_written (cn_peer guest) = guest_written gw @ up \<and>
    \<not> cn_closed host \<and> \<not> cn_closed guest"
proof -
  from assms(1) obtain bs1 bs2 bs3 where
    bs: "deliverable (wf_host formats) (ping_request req_id) bs1" "deliverable (wf_guest formats) (ping_response req_id) bs2"
      "deliverable (wf_guest formats) (ping_receipt req_id t1 t2) bs3" "down = bs1 @ [10]" "up = bs2 @ 10 # bs3 @ 10 # []"
    by (auto simp: ping_wire_def)
  let ?host = "new_connection default_max_frame_bytes host_reader hw"
  let ?guest = "new_connection default_max_frame_bytes guest_reader gw"
  let ?h = "host_vsock_endpoint formats host_writer" and ?g = "guest_vsock_endpoint formats guest_writer"
  have host: "ready ?host (bs2 @ 10 # bs3 @ 10 # [])" using ready_new [OF assms(4), of hw] assms(5) bs(5) by simp
  have guest: "ready ?guest (bs1 @ 10 # [])" using ready_new [OF assms(6), of gw] assms(7) bs(4) by simp
  from host_sends [OF bs(1) host assms(2)] obtain h1 where h1: "he_send ?h (ping_request req_id) ?host = Some (Inr (), h1)"
    "ready h1 (bs2 @ 10 # bs3 @ 10 # [])" "host_written (cn_peer h1) = host_written hw @ down"
    by (auto simp: new_connection_def bs(4))
  from host_receives [OF bs(2) h1(2)] obtain h2 where h2: "he_recv ?h h1 = Some (Inr (ping_response req_id), h2)"
    "ready h2 (bs3 @ 10 # [])" "cn_peer h2 = cn_peer h1" by blast
  from host_receives [OF bs(3) h2(2)] obtain h3 where h3: "he_recv ?h h2 = Some (Inr (ping_receipt req_id t1 t2), h3)"
    "ready h3 []" "cn_peer h3 = cn_peer h2" by blast
  from guest_receives [OF bs(1) guest] obtain g1 where g1: "ge_recv ?g ?guest = Some (Inr (ping_request req_id), g1)"
    "ready g1 []" "cn_peer g1 = gw" by (auto simp: new_connection_def)
  from guest_sends [OF bs(2) g1(2) assms(3)] obtain g2 where g2: "ge_send ?g (ping_response req_id) g1 = Some (Inr (), g2)"
    "ready g2 []" "guest_written (cn_peer g2) = guest_written gw @ bs2 @ [10]" by (auto simp: g1(3))
  from guest_sends [OF bs(3) g2(2) assms(3)] obtain g3 where g3: "ge_send ?g (ping_receipt req_id t1 t2) g2 = Some (Inr (), g3)"
    "ready g3 []" "guest_written (cn_peer g3) = guest_written gw @ up" by (auto simp: g2(3) bs(5))
  have "host_exchange show_uuid req_id ?h ?host = Some (Inr (), h3)"
    using h1(1) h2(1) h3(1) complete_ping
    unfolding host_exchange_def act_bind_Inr_iff act_map_err_Inr_iff by (auto simp: collect_two_Inr act_lift_def)
  moreover have "guest_handle show_uuid t1 t2 ?g ?guest = Some (Inr (), g3)"
    using g1(1) g2(1) g3(1) unfolding guest_handle_Inr ping_request_def by force
  ultimately show ?thesis using h1(3) h2(3) h3(2,3) g3(2,3) by (auto simp: ready_def)
qed

text \<open>A toy encoding of the three messages of one ping, each one letter.\<close>

definition ping_formats :: wire_formats where
  "ping_formats =
     \<lparr>wf_host = \<lparr>jf_encode = (\<lambda>m. if m = ping_request 0 then Inr [114] else Inl []),
        jf_decode = (\<lambda>t. if t = [114] then Inr (ping_request 0) else Inl [])\<rparr>,
      wf_guest = \<lparr>jf_encode = (\<lambda>m. if m = ping_response 0 then Inr [103] else if m = ping_receipt 0 1 2 then Inr [104] else Inl []),
        jf_decode = (\<lambda>t. if t = [103] then Inr (ping_response 0) else if t = [104] then Inr (ping_receipt 0 1 2) else Inl [])\<rparr>\<rparr>"

theorem ping_completes_witness:
  "\<exists>host guest.
    host_exchange (\<lambda>_. []) 0 (host_vsock_endpoint ping_formats buffer_writer)
      (new_connection default_max_frame_bytes \<lparr>rd_buf = [], rd_arrivals = [Chunk [103], Chunk [10, 104], Chunk [10]]\<rparr> [])
      = Some (Inr (), host) \<and>
    guest_handle (\<lambda>_. []) 1 2 (guest_vsock_endpoint ping_formats buffer_writer)
      (new_connection default_max_frame_bytes \<lparr>rd_buf = [114], rd_arrivals = [Chunk [10]]\<rparr> []) = Some (Inr (), guest) \<and>
    cn_peer host = [114, 10] \<and> cn_peer guest = [103, 10, 104, 10]"
proof -
  have u: "from_utf8 [114] = Some [114]" "from_utf8 [103] = Some [103]" "from_utf8 [104] = Some [104]" by code_simp+
  have differ: "ping_receipt 0 1 2 \<noteq> ping_response 0" by (simp add: ping_receipt_def ping_response_def)
  have d: "deliverable (wf_host ping_formats) (ping_request 0) [114]"
    "deliverable (wf_guest ping_formats) (ping_response 0) [103]"
    "deliverable (wf_guest ping_formats) (ping_receipt 0 1 2) [104]"
    using u differ by (auto simp: deliverable_def ping_formats_def json_reads_back_def default_max_frame_bytes_def)
  have wire: "ping_wire ping_formats 0 1 2 [114, 10] [103, 10, 104, 10]"
    unfolding ping_wire_def by (intro exI conjI, rule d(1), rule d(2), rule d(3)) simp_all
  have w: "reliable_writer buffer_writer (\<lambda>w. w)" by (simp add: reliable_writer_def buffer_writer_def)
  have r: "proper_reader \<lparr>rd_buf = [], rd_arrivals = [Chunk [103], Chunk [10, 104], Chunk [10]]\<rparr>"
    "stream \<lparr>rd_buf = [], rd_arrivals = [Chunk [103], Chunk [10, 104], Chunk [10]]\<rparr> = [103, 10, 104, 10]"
    "proper_reader \<lparr>rd_buf = [114], rd_arrivals = [Chunk [10]]\<rparr>" "stream \<lparr>rd_buf = [114], rd_arrivals = [Chunk [10]]\<rparr> = [114, 10]"
    by (simp_all add: proper_reader_def stream_def)
  show ?thesis using ping_completes [OF wire w w r, of "\<lambda>_. []" "[]" "[]"] by auto
qed

end
