(* ===== verification/Wire_Cancel.thy ===== *)
theory Wire_Cancel
  imports Wire_Endpoint_Facts Wire_Codec_Facts
begin

text \<open>
  Calls whose caller drops the future (a timeout, a \<open>select\<close>) on the endpoint of \<open>linux.rs\<close>. A future is
  dropped where it waits: before its first poll, for its lock, or in the codec. The guard of the lock
  goes with it, and neither \<open>finish\<close> nor any other code of the call runs. What stays true of the
  connection, and what a dropped receive takes with it.
\<close>

section \<open>Dropped calls\<close>

record 'm cancel_io =
  ca_io :: "'m endpoint_io"
  ca_dropped :: "nat list"

text \<open>The counter of a dropped call is that of a call that is over; its answer goes to nobody.\<close>

definition drop_op :: "nat \<Rightarrow> 'm endpoint_io \<Rightarrow> 'm endpoint_io option" where
  "drop_op i s =
     (if length (ep_ops s) \<le> i then None
      else (case eo_pc (ep_ops s ! i) of
          Arrived \<Rightarrow> Some (set_pc i (Done (Inl PeerClosed)) s)
        | Locking \<Rightarrow> Some (set_pc i (Done (Inl PeerClosed)) s)
        | Performing \<Rightarrow> Some (return_op i (eo_direction (ep_ops s ! i)) (Inl PeerClosed) s)
        | _ \<Rightarrow> None))"

text \<open>What the caller of the call \<open>i\<close> has been told.\<close>

definition answer_of :: "'m cancel_io \<Rightarrow> nat \<Rightarrow> (transport_error + 'm) option" where
  "answer_of s i =
     (if i \<in> set (ca_dropped s) \<or> length (ep_ops (ca_io s)) \<le> i then None
      else (case eo_pc (ep_ops (ca_io s) ! i) of Done r \<Rightarrow> Some r | _ \<Rightarrow> None))"

inductive cancel_step :: "'m cancel_io \<Rightarrow> 'm cancel_io \<Rightarrow> bool" where
  call_moves: "endpoint_step (ca_io s) io \<Longrightarrow> cancel_step s (s\<lparr>ca_io := io\<rparr>)"
| call_dropped: "drop_op i (ca_io s) = Some io \<Longrightarrow> cancel_step s (s\<lparr>ca_io := io, ca_dropped := i # ca_dropped s\<rparr>)"

inductive_cases cancel_stepE: "cancel_step s t"

definition cancel_reachable :: "nat \<Rightarrow> 'm cancel_io \<Rightarrow> bool" where
  "cancel_reachable max_frame s \<longleftrightarrow> cancel_step\<^sup>*\<^sup>* \<lparr>ca_io = new_endpoint max_frame, ca_dropped = []\<rparr> s"

text \<open>A drop is, for the state of the connection, the end of a call that reports no reason.\<close>

lemma drop_op_cases:
  assumes "drop_op i s = Some t"
  obtains "i < length (ep_ops s)" "\<not> holding (pc_of s i)" "\<not> reported (pc_of s i)" "\<not> shutting (pc_of s i)"
      "t = set_pc i (Done (Inl PeerClosed)) s"
  | "i < length (ep_ops s)" "pc_of s i = Performing" "t = return_op i (dir_of s i) (Inl PeerClosed) s"
  using assms
  by (cases "pc_of s i") (auto simp: drop_op_def pc_of_def dir_of_def split: if_splits)

lemma drop_op_invs:
  assumes "drop_op i s = Some t"
  shows "inv_mutex s \<Longrightarrow> inv_mutex t" "inv_close s \<Longrightarrow> inv_close t" "ep_closed t = ep_closed s"
proof -
  show "inv_mutex t" if inv: "inv_mutex s"
    using assms
  proof (cases rule: drop_op_cases)
    case 1
    with inv show ?thesis by (auto simp: inv_mutex_def)
  next
    case 2
    have "j = i" if "j < length (ep_ops s)" "holding (pc_of s j)" "dir_of s j = dir_of s i" for j
      using mutex_exclusive [OF inv, of j i] that 2 by simp
    with 2 inv show ?thesis by (auto simp: inv_mutex_def return_op_def)
  qed
  show "inv_close t" if "inv_close s"
    using assms that by (cases rule: drop_op_cases) (auto simp: inv_close_def return_op_def count_set_pc_eq)
  show "ep_closed t = ep_closed s" using assms by (cases rule: drop_op_cases) (simp_all add: return_op_def)
qed

lemma endpoint_step_invs:
  assumes "endpoint_step s t" "inv_mutex s" "inv_close s"
  shows "inv_mutex t" "inv_close t"
  using assms by (auto elim!: endpoint_stepE intro: inv_begin inv_mutex_step inv_close_step)

lemma cancel_invs:
  assumes "cancel_reachable max_frame s"
  shows "inv_mutex (ca_io s) \<and> inv_close (ca_io s)"
  using assms unfolding cancel_reachable_def
proof (induction rule: rtranclp_induct)
  case base
  show ?case by (auto simp: inv_mutex_def inv_close_def new_endpoint_def count_ops_def mutex_of_def split: direction.split)
next
  case (step s t)
  from step(2) show ?case
  proof cases
    case (call_moves io)
    with endpoint_step_invs [OF call_moves(2)] step(3) show ?thesis by simp
  next
    case (call_dropped i io)
    with drop_op_invs [OF call_dropped(2)] step(3) show ?thesis by simp
  qed
qed

interpretation cancel_latch: latch "\<lambda>s. ep_closed (ca_io s)" cancel_step
proof unfold_locales
  fix s t :: "'m cancel_io" assume st: "cancel_step s t" "ep_closed (ca_io s)"
  from st(1) show "ep_closed (ca_io t)"
  proof cases
    case (call_moves io)
    with st(2) endpoint_latch.step_closed show ?thesis by simp
  next
    case (call_dropped i io)
    with st(2) drop_op_invs(3) [OF call_dropped(2)] show ?thesis by simp
  qed
qed

section \<open>What stays true\<close>

lemma count_ops_unique:
  assumes "count_ops P s \<le> 1" "i < length (ep_ops s)" "j < length (ep_ops s)" "P (pc_of s i)" "P (pc_of s j)"
  shows "i = j"
proof -
  have "finite {k. k < length (ep_ops s) \<and> P (pc_of s k)}" by simp
  moreover have "card {k. k < length (ep_ops s) \<and> P (pc_of s k)} \<le> 1"
    using assms(1) by (simp add: count_ops_def length_filter_conv_card pc_of_def)
  ultimately show ?thesis using assms(2-5) by (auto simp: card_le_Suc0_iff_eq)
qed

lemma answer_of_reported:
  "answer_of s i = Some (Inl e) \<Longrightarrow> e \<noteq> PeerClosed \<Longrightarrow> i < length (ep_ops (ca_io s)) \<and> reported (pc_of (ca_io s) i)"
  by (auto simp: answer_of_def pc_of_def split: if_splits op_pc.splits)

lemma cancel_step_answer:
  assumes "cancel_step s t" "ep_closed (ca_io s)" "answer_of t i = Some (Inr m)"
  shows "answer_of s i = Some (Inr m)"
  using assms(1)
proof cases
  case (call_moves io)
  from call_moves(2) show ?thesis
  proof (rule endpoint_stepE)
    fix d assume "io = (ca_io s)\<lparr>ep_ops := ep_ops (ca_io s) @ [\<lparr>eo_direction = d, eo_pc = Arrived\<rparr>]\<rparr>"
    with call_moves(1) assms(3) show ?thesis
      by (auto simp: answer_of_def nth_append less_Suc_eq split: if_splits op_pc.splits)
  next
    fix j answer assume st: "op_step j answer (ca_io s) = Some io"
    from call_moves(1) assms(3) have t: "i \<notin> set (ca_dropped s)" "i < length (ep_ops io)" "pc_of io i = Done (Inr m)"
      by (auto simp: answer_of_def pc_of_def split: if_splits op_pc.splits)
    then have "succeeded (pc_of io i)" by simp
    from succeeded_step [OF st assms(2) t(2) this] t show ?thesis by (simp add: answer_of_def pc_of_def)
  qed
next
  case (call_dropped j io)
  from call_dropped(1) assms(3) have t: "i \<notin> set (ca_dropped s)" "i < length (ep_ops io)" "pc_of io i = Done (Inr m)"
    by (auto simp: answer_of_def pc_of_def split: if_splits op_pc.splits)
  from call_dropped(2) have "i < length (ep_ops (ca_io s)) \<and> pc_of (ca_io s) i = Done (Inr m)"
    using t(2,3) by (cases rule: drop_op_cases) (auto simp: return_op_def split: if_splits)
  with t(1) show ?thesis by (simp add: answer_of_def pc_of_def)
qed

lemma closed_is_silent:
  assumes "cancel_step\<^sup>*\<^sup>* s t" "ep_closed (ca_io s)" "answer_of t i = Some (Inr m)"
  shows "answer_of s i = Some (Inr m)"
  using assms
proof (induction rule: rtranclp_induct)
  case (step t u)
  have "ep_closed (ca_io t)" by (rule cancel_latch.run_closed [OF step.hyps(1) step.prems(1)])
  from cancel_step_answer [OF step.hyps(2) this step.prems(2)] step.IH step.prems(1) show ?case by blast
qed

text \<open>C26: However calls interleave, and wherever their callers drop them, the endpoint keeps its promises: at
  most one call of a direction is inside its lock, the stream is shut down at most once, and exactly
  once when a closed connection has no call in its shutdown; no two callers are told a reason; after
  the close no caller is told of a success that had not been told before; and there is no deadlock: as long as
  a call is not over, some call can make its next action, so no lock is lost with a dropped call.\<close>

theorem dropped_calls_keep_the_endpoint:
  assumes "cancel_reachable max_frame s"
  shows "ep_shutdowns (ca_io s) + count_ops shutting (ca_io s) = (if ep_closed (ca_io s) then 1 else 0) \<and>
    (\<forall>i j e e'. answer_of s i = Some (Inl e) \<and> answer_of s j = Some (Inl e') \<and> e \<noteq> PeerClosed \<and> e' \<noteq> PeerClosed \<longrightarrow> i = j) \<and>
    (\<forall>i<length (ep_ops (ca_io s)). \<forall>j<length (ep_ops (ca_io s)). holding (pc_of (ca_io s) i) \<and> holding (pc_of (ca_io s) j) \<and>
      dir_of (ca_io s) i = dir_of (ca_io s) j \<longrightarrow> i = j) \<and>
    (\<forall>t i m. cancel_step\<^sup>*\<^sup>* s t \<and> ep_closed (ca_io s) \<and> answer_of t i = Some (Inr m) \<longrightarrow>
      ep_closed (ca_io t) \<and> answer_of s i = Some (Inr m)) \<and>
    (\<forall>i<length (ep_ops (ca_io s)). (\<forall>r. pc_of (ca_io s) i \<noteq> Done r) \<longrightarrow> (\<exists>j t. op_step j answer (ca_io s) = Some t))"
proof (intro conjI allI impI)
  note inv = cancel_invs [OF assms]
  from inv show "ep_shutdowns (ca_io s) + count_ops shutting (ca_io s) = (if ep_closed (ca_io s) then 1 else 0)"
    by (simp add: inv_close_def)
  have one: "count_ops reported (ca_io s) \<le> 1" using inv by (auto simp: inv_close_def split: if_splits)
  show "i = j" if "answer_of s i = Some (Inl e) \<and> answer_of s j = Some (Inl e') \<and> e \<noteq> PeerClosed \<and> e' \<noteq> PeerClosed" for i j e e'
    using count_ops_unique [OF one] answer_of_reported that by blast
  show "i = j" if "i < length (ep_ops (ca_io s))" "j < length (ep_ops (ca_io s))"
    "holding (pc_of (ca_io s) i) \<and> holding (pc_of (ca_io s) j) \<and> dir_of (ca_io s) i = dir_of (ca_io s) j" for i j
    by (rule mutex_exclusive [of "ca_io s"]) (use inv that in simp_all)
  show "ep_closed (ca_io t)" "answer_of s i = Some (Inr m)"
    if "cancel_step\<^sup>*\<^sup>* s t \<and> ep_closed (ca_io s) \<and> answer_of t i = Some (Inr m)" for t i m
    using cancel_latch.run_closed [of s t] closed_is_silent [of s t i m] that by simp_all
  show "\<exists>j t. op_step j answer (ca_io s) = Some t"
    if "i < length (ep_ops (ca_io s))" "\<forall>r. pc_of (ca_io s) i \<noteq> Done r" for i
    using some_call_moves that inv by blast
qed

text \<open>A read that is dropped in the codec, so that the next read gets the lock.\<close>

fun cancel_play :: "(nat \<times> (transport_error + nat) option) list \<Rightarrow> nat cancel_io \<Rightarrow> nat cancel_io option" where
  "cancel_play [] s = Some s"
| "cancel_play ((i, Some a) # evs) s =
     (case op_step i a (ca_io s) of None \<Rightarrow> None | Some io \<Rightarrow> cancel_play evs (s\<lparr>ca_io := io\<rparr>))"
| "cancel_play ((i, None) # evs) s =
     (case drop_op i (ca_io s) of None \<Rightarrow> None
      | Some io \<Rightarrow> cancel_play evs (s\<lparr>ca_io := io, ca_dropped := i # ca_dropped s\<rparr>))"

lemma cancel_play_reaches: "cancel_play evs s = Some t \<Longrightarrow> cancel_step\<^sup>*\<^sup>* s t"
  by (induction evs s rule: cancel_play.induct)
    (auto split: option.splits intro: converse_rtranclp_into_rtranclp cancel_step.intros act_op)

lemma cancel_embeds: "endpoint_step\<^sup>*\<^sup>* s t \<Longrightarrow> cancel_step\<^sup>*\<^sup>* \<lparr>ca_io = s, ca_dropped = ds\<rparr> \<lparr>ca_io = t, ca_dropped = ds\<rparr>"
proof (induction rule: rtranclp_induct)
  case (step t u)
  from call_moves [of "\<lparr>ca_io = t, ca_dropped = ds\<rparr>" u] step(2)
  have "cancel_step \<lparr>ca_io = t, ca_dropped = ds\<rparr> \<lparr>ca_io = u, ca_dropped = ds\<rparr>" by simp
  with step.IH show ?case by simp
qed simp

definition dropping_steps :: "(nat \<times> (transport_error + nat) option) list" where
  "dropping_steps = [(0, Some (Inr 0)), (0, Some (Inr 0)), (0, Some (Inr 0)), (2, Some (Inr 0)), (0, None), (2, Some (Inr 0))]"

theorem dropped_calls_keep_the_endpoint_witness:
  "\<exists>s. cancel_play dropping_steps \<lparr>ca_io = three_calls, ca_dropped = []\<rparr> = Some s \<and> pc_of (ca_io s) 2 = Locked \<and>
     answer_of s 0 = None \<and> ep_shutdowns (ca_io s) = 0 \<and> (\<exists>j t. op_step j (Inr 7) (ca_io s) = Some t)"
proof -
  have "(case cancel_play dropping_steps \<lparr>ca_io = three_calls, ca_dropped = []\<rparr> of None \<Rightarrow> False
    | Some s \<Rightarrow> length (ep_ops (ca_io s)) = 3 \<and> pc_of (ca_io s) 2 = Locked \<and> answer_of s 0 = None \<and> \<not> ep_closed (ca_io s))"
    by code_simp
  then obtain s where s: "cancel_play dropping_steps \<lparr>ca_io = three_calls, ca_dropped = []\<rparr> = Some s"
    "length (ep_ops (ca_io s)) = 3" "pc_of (ca_io s) 2 = Locked" "answer_of s 0 = None" "\<not> ep_closed (ca_io s)"
    by (auto split: option.splits)
  have "cancel_reachable 10 s" unfolding cancel_reachable_def
    using cancel_embeds [OF three_calls_reachable] cancel_play_reaches [OF s(1)] by (rule rtranclp_trans)
  note keep = dropped_calls_keep_the_endpoint [OF this, of "Inr 7"]
  then have "ep_shutdowns (ca_io s) + count_ops shutting (ca_io s) = (if ep_closed (ca_io s) then 1 else 0)" by (elim conjE)
  with s(5) have "ep_shutdowns (ca_io s) = 0" by simp
  moreover from keep have "\<forall>i<length (ep_ops (ca_io s)). (\<forall>r. pc_of (ca_io s) i \<noteq> Done r) \<longrightarrow> (\<exists>j t. op_step j (Inr 7) (ca_io s) = Some t)"
    by (elim conjE)
  then have "2 < length (ep_ops (ca_io s)) \<longrightarrow> (\<forall>r. pc_of (ca_io s) 2 \<noteq> Done r) \<longrightarrow> (\<exists>j t. op_step j (Inr 7) (ca_io s) = Some t)"
    by (rule spec)
  then have "\<exists>j t. op_step j (Inr 7) (ca_io s) = Some t" using s(2,3) by simp
  ultimately show ?thesis using s(1,3,4) by blast
qed

section \<open>What a dropped receive takes with it\<close>

text \<open>One turn of the loop of \<open>read_frame\<close> that goes on: the frame and the reader after it. A receive is
  dropped while it waits in \<open>fill_buf\<close>, so after some such turns; its frame is dropped with it.\<close>

definition read_turn :: "nat \<Rightarrow> owned_frame \<times> reader \<Rightarrow> (owned_frame \<times> reader) option" where
  "read_turn owned_limit = (\<lambda>(frame, r).
     case fill_buf r of
       (Inl e, r1) \<Rightarrow> None
     | (Inr available, r1) \<Rightarrow>
         if available = [] \<or> newline_index available \<noteq> None \<or> length available > owned_limit - of_len frame then None
         else (case append_frame frame available of
             None \<Rightarrow> None
           | Some frame1 \<Rightarrow>
               if of_len frame1 = owned_limit \<and> \<not> ends_with_cr (as_slice frame1) then None
               else Some (frame1, consume (length available) r1)))"

fun read_turns :: "nat \<Rightarrow> nat \<Rightarrow> owned_frame \<times> reader \<Rightarrow> (owned_frame \<times> reader) option" where
  "read_turns owned_limit 0 fr = Some fr"
| "read_turns owned_limit (Suc n) fr =
     (case read_turn owned_limit fr of None \<Rightarrow> None | Some fr1 \<Rightarrow> read_turns owned_limit n fr1)"

definition dropped_receive :: "json_lines_codec \<Rightarrow> nat \<Rightarrow> reader \<Rightarrow> (owned_frame \<times> reader) option" where
  "dropped_receive codec n r =
     read_turns (jl_max_frame_bytes codec + 1) n (new_frame (jl_max_frame_bytes codec + 1), r)"

lemma read_turn_loop:
  assumes "read_turn owned_limit (frame, r) = Some (frame1, r1)"
  shows "read_loop max_frame owned_limit frame r = read_loop max_frame owned_limit frame1 r1"
  using assms by (subst read_loop.simps) (auto simp: read_turn_def split: prod.splits sum.splits option.splits if_splits)

lemma read_turn_takes:
  assumes "read_turn l (frame, r) = Some (frame1, r1)" "holds frame p l" "proper_reader r"
  shows "\<exists>q. q \<noteq> [] \<and> 10 \<notin> set q \<and> holds frame1 (p @ q) l \<and> length (p @ q) \<le> l \<and> stream r = q @ stream r1 \<and> proper_reader r1"
proof -
  from assms(1) obtain q r0 where fb: "fill_buf r = (Inr q, r0)" by (auto simp: read_turn_def split: prod.splits sum.splits)
  with assms(1) have q: "q \<noteq> []" "newline_index q = None" "length q \<le> l - of_len frame" "append_frame frame q = Some frame1"
    "r1 = consume (length q) r0" by (auto simp: read_turn_def not_less split: option.splits if_splits)
  from assms(2) have len: "of_len frame = length p" "length (of_storage frame) = l" by (simp_all add: holds_def)
  with q(4) have "length p + length q \<le> l" by (auto simp: append_frame_def Let_def split: if_splits)
  with holds_append [OF assms(2), of q] q(4) have h: "holds frame1 (p @ q) l" "length (p @ q) \<le> l" by auto
  note r0 = fill_buf_stream [OF fb assms(3)]
  from r0(1,3) have "stream r = q @ arrived_bytes (rd_arrivals r0)" by (simp add: stream_def)
  moreover have "stream r1 = arrived_bytes (rd_arrivals r0)" "proper_reader r1"
    using r0(3,4) by (simp_all add: q(5) consume_def stream_def proper_reader_def)
  ultimately show ?thesis using q(1,2) h newline_index_None by auto
qed

lemma read_turns_take:
  assumes "read_turns l n (frame, r) = Some (frame1, r1)" "holds frame p l" "proper_reader r" "length p \<le> l" "10 \<notin> set p"
  shows "\<exists>q. 10 \<notin> set q \<and> holds frame1 (p @ q) l \<and> length (p @ q) \<le> l \<and> stream r = q @ stream r1 \<and> proper_reader r1 \<and>
    n \<le> length q \<and> (\<forall>m. read_loop m l frame r = read_loop m l frame1 r1)"
  using assms
proof (induction n arbitrary: frame r p)
  case 0
  then show ?case by (intro exI [of _ "[]"]) auto
next
  case (Suc n)
  from Suc.prems(1) obtain f2 r2 where t: "read_turn l (frame, r) = Some (f2, r2)" "read_turns l n (f2, r2) = Some (frame1, r1)"
    by (auto split: option.splits)
  from read_turn_takes [OF t(1) Suc.prems(2,3)] obtain q where q: "q \<noteq> []" "10 \<notin> set q" "holds f2 (p @ q) l"
    "length (p @ q) \<le> l" "stream r = q @ stream r2" "proper_reader r2" by blast
  have "10 \<notin> set (p @ q)" using q(2) Suc.prems(5) by simp
  from Suc.IH [OF t(2) q(3,6,4) this] obtain q' where q': "10 \<notin> set q'" "holds frame1 ((p @ q) @ q') l"
    "length ((p @ q) @ q') \<le> l" "stream r2 = q' @ stream r1" "proper_reader r1" "n \<le> length q'"
    "\<forall>m. read_loop m l f2 r2 = read_loop m l frame1 r1" by blast
  have "Suc n \<le> length (q @ q')" using q(1) q'(6) by (cases q) simp_all
  with q q' read_turn_loop [OF t(1)] show ?case by (intro exI [of _ "q @ q'"]) auto
qed


definition half_arrived :: reader where
  "half_arrived = \<lparr>rd_buf = [], rd_arrivals = [Chunk [97, 98], Chunk [99, 10]]\<rparr>"


section \<open>The memory of a receive\<close>

text \<open>C33: Whatever a peer sends, the memory of a read is bounded. Every frame that the loop holds - after any
  number of turns that went on, accepted in the end or not - has storage for exactly the limit and one
  byte, allocated once, and no more bytes in it; each turn takes a byte at least, so there are at most
  the limit and one of them; an accepted frame still has this storage and its payload between 1 and the
  limit's number of bytes and no newline; and a codec whose limit leaves no room for the extra byte
  refuses at once and reads nothing.\<close>

theorem read_frame_is_bounded:
  assumes "jl_max_frame_bytes codec + 1 < usize_max \<and> proper_reader r \<or> jl_max_frame_bytes codec = usize_max"
  shows "\<exists>res r'. read_frame codec r = Some (res, r') \<and>
    (jl_max_frame_bytes codec = usize_max \<longrightarrow> res = Inl (FrameTooLarge usize_max) \<and> r' = r) \<and>
    (\<forall>n frame r1. jl_max_frame_bytes codec \<noteq> usize_max \<and> dropped_receive codec n r = Some (frame, r1) \<longrightarrow>
       n \<le> jl_max_frame_bytes codec + 1 \<and> length (of_storage frame) = jl_max_frame_bytes codec + 1 \<and>
       of_len frame \<le> length (of_storage frame)) \<and>
    (\<forall>frame. res = Inr frame \<longrightarrow> length (of_storage frame) = jl_max_frame_bytes codec + 1 \<and>
       0 < length (as_slice frame) \<and> length (as_slice frame) \<le> jl_max_frame_bytes codec \<and> 10 \<notin> set (as_slice frame))"
proof (cases "jl_max_frame_bytes codec = usize_max")
  case False
  let ?l = "jl_max_frame_bytes codec + 1"
  from False assms have ok: "?l < usize_max" "proper_reader r" by simp_all
  from read_frame_spec [OF ok] obtain res r' where r: "read_frame codec r = Some (res, r')"
    "slice_result res = frame_spec (jl_max_frame_bytes codec) (stream r) (stream_failure r)" by blast
  have "n \<le> ?l \<and> length (of_storage frame) = ?l \<and> of_len frame \<le> ?l" if "dropped_receive codec n r = Some (frame, r1)" for n frame r1
  proof -
    from that have t: "read_turns ?l n (new_frame ?l, r) = Some (frame, r1)" by (simp add: dropped_receive_def)
    from read_turns_take [OF t holds_new ok(2)] obtain q where "holds frame q ?l" "length q \<le> ?l" "n \<le> length q" by auto
    then show ?thesis by (simp add: holds_def)
  qed
  moreover have "frame_spec (jl_max_frame_bytes codec) (stream r) (stream_failure r) = Inr (as_slice frame) \<and>
    length (of_storage frame) = ?l" if "res = Inr frame" for frame
  proof
    show "frame_spec (jl_max_frame_bytes codec) (stream r) (stream_failure r) = Inr (as_slice frame)" using r(2) that by simp
    have "read_loop (jl_max_frame_bytes codec) ?l (new_frame ?l) r = Some (Inr frame, r')"
      using r(1) that False by (simp add: read_frame_def)
    from read_loop_storage [OF this] show "length (of_storage frame) = ?l" by (simp add: new_frame_def)
  qed
  ultimately show ?thesis using r(1) False frame_spec_bound
    by (intro exI [of _ res] exI [of _ r']) (simp, blast)
qed (simp add: read_frame_def)

theorem read_frame_is_bounded_witness:
  "\<exists>res r' frame r1. read_frame \<lparr>jl_max_frame_bytes = 4\<rparr> half_arrived = Some (res, r') \<and>
     dropped_receive \<lparr>jl_max_frame_bytes = 4\<rparr> 1 half_arrived = Some (frame, r1) \<and> length (of_storage frame) = 5"
proof -
  have "(case dropped_receive \<lparr>jl_max_frame_bytes = 4\<rparr> 1 half_arrived of None \<Rightarrow> False | Some p \<Rightarrow> True)" by code_simp
  then obtain frame r1 where d: "dropped_receive \<lparr>jl_max_frame_bytes = 4\<rparr> 1 half_arrived = Some (frame, r1)"
    by (auto split: option.splits)
  have "jl_max_frame_bytes \<lparr>jl_max_frame_bytes = 4\<rparr> + 1 < usize_max \<and> proper_reader half_arrived"
    "jl_max_frame_bytes \<lparr>jl_max_frame_bytes = 4\<rparr> \<noteq> usize_max"
    by (simp_all add: usize_max_def proper_reader_def half_arrived_def)
  with read_frame_is_bounded [of "\<lparr>jl_max_frame_bytes = 4\<rparr>" half_arrived] d show ?thesis by fastforce
qed

end
