(* ===== verification/Wire_Json.thy ===== *)
theory Wire_Json
  imports Wire_Codec
begin

text \<open>
  The JSON form of what crosses the wire, as the serde attributes of \<open>model.rs\<close> and of
  \<open>introspect-schema/src/lib.rs\<close> declare it and as the tests beside them spell it out: a struct is an
  object of its fields in order, a \<open>tag\<close> is one more member before the fields of the variant, a
  newtype variant and a flattened field add their members to the enclosing object, \<open>rename_all\<close> gives
  the names of the variants. The text of a \<open>Uuid\<close>, of a time and the number that stands for an \<open>f32\<close>
  are those of other crates: parameters.
\<close>

section \<open>Values\<close>

datatype json =
    JNull
  | JInt int
  | JReal rat
  | JStr str
  | JArr "json list"
  | JObj "(str \<times> json) list"

record json_library =
  lib_uuid :: "uuid \<Rightarrow> str"
  lib_time :: "timestamp \<Rightarrow> str"
  lib_f32 :: "f32 \<Rightarrow> json"

type_synonym members = "(str \<times> json) list"

definition member :: "string \<Rightarrow> json \<Rightarrow> str \<times> json" where
  "member name v = (asc name, v)"

definition name_json :: "string \<Rightarrow> json" where
  "name_json name = JStr (asc name)"

definition word_json :: "'a::len word \<Rightarrow> json" where
  "word_json w = JInt (uint w)"

definition nat_json :: "nat \<Rightarrow> json" where
  "nat_json n = JInt (int n)"

definition opt_json :: "('a \<Rightarrow> json) \<Rightarrow> 'a option \<Rightarrow> json" where
  "opt_json f x = (case x of None \<Rightarrow> JNull | Some y \<Rightarrow> f y)"

definition arr_json :: "('a \<Rightarrow> json) \<Rightarrow> 'a list \<Rightarrow> json" where
  "arr_json f xs = JArr (map f xs)"

section \<open>The schema\<close>

definition run_state_json :: "run_state \<Rightarrow> json" where
  "run_state_json s = JStr [as_char s]"

fun symbol_confidence_json :: "symbol_confidence \<Rightarrow> json" where
  "symbol_confidence_json Dwarf = name_json ''dwarf''"
| "symbol_confidence_json Kallsyms = name_json ''kallsyms''"
| "symbol_confidence_json Dynsym = name_json ''dynsym''"
| "symbol_confidence_json Disasm = name_json ''disasm''"
| "symbol_confidence_json NoConfidence = name_json ''none''"

fun map_kind_json :: "map_kind \<Rightarrow> json" where
  "map_kind_json Heap = name_json ''heap''"
| "map_kind_json Stack = name_json ''stack''"
| "map_kind_json Anon = name_json ''anon''"
| "map_kind_json File = name_json ''file''"
| "map_kind_json XLib = name_json ''x_lib''"

fun level1_view_json :: "level1_view \<Rightarrow> json" where
  "level1_view_json ViewMaps = name_json ''maps''"
| "level1_view_json ViewThreads = name_json ''threads''"
| "level1_view_json ViewStack = name_json ''stack''"
| "level1_view_json ViewFds = name_json ''fds''"
| "level1_view_json ViewCmdline = name_json ''cmdline''"
| "level1_view_json ViewEnv = name_json ''env''"
| "level1_view_json ViewSymbols = name_json ''symbols''"

definition symbolized_json :: "symbolized \<Rightarrow> json" where
  "symbolized_json s = JObj [member ''name'' (JStr (sy_name s)), member ''source'' (symbol_confidence_json (sy_source s))]"

definition cmdline_json :: "cmdline \<Rightarrow> json" where
  "cmdline_json c = JObj [member ''short'' (JStr (cl_short c)), member ''full_len'' (nat_json (cl_full_len c))]"

definition identity_json :: "identity \<Rightarrow> json" where
  "identity_json i = JObj
     [member ''pid'' (JInt (id_pid i)), member ''comm'' (JStr (id_comm i)), member ''exe'' (opt_json JStr (id_exe i)),
      member ''cmdline'' (cmdline_json (id_cmdline i)), member ''uid'' (word_json (id_uid i)),
      member ''cgroup'' (opt_json JStr (id_cgroup i))]"

definition proc_state_json :: "proc_state \<Rightarrow> json" where
  "proc_state_json p = JObj
     [member ''run_state'' (run_state_json (pr_run_state p)), member ''last_cpu'' (word_json (pr_last_cpu p)),
      member ''nr_threads'' (word_json (pr_nr_threads p)), member ''wchan'' (opt_json symbolized_json (pr_wchan p))]"

definition ctxt_switches_json :: "ctxt_switches \<Rightarrow> json" where
  "ctxt_switches_json c = JObj
     [member ''voluntary'' (word_json (cs_voluntary c)), member ''nonvoluntary'' (word_json (cs_nonvoluntary c))]"

definition resource_json :: "json_library \<Rightarrow> resource \<Rightarrow> json" where
  "resource_json lib r = JObj
     [member ''rss_bytes'' (word_json (re_rss_bytes r)), member ''vsz_bytes'' (word_json (re_vsz_bytes r)),
      member ''nr_fds'' (word_json (re_nr_fds r)), member ''pct_cpu'' (lib_f32 lib (re_pct_cpu r)),
      member ''ctxt_switches'' (ctxt_switches_json (re_ctxt_switches r))]"

definition map_kind_bucket_json :: "map_kind_bucket \<Rightarrow> json" where
  "map_kind_bucket_json b = JObj
     [member ''kind'' (map_kind_json (mb_kind b)), member ''count'' (word_json (mb_count b)),
      member ''total_size'' (word_json (mb_total_size b))]"

definition top_map_json :: "top_map \<Rightarrow> json" where
  "top_map_json t = JObj
     [member ''start'' (JStr (tm_start t)), member ''end'' (JStr (tm_end t)), member ''size'' (word_json (tm_size t)),
      member ''kind'' (map_kind_json (tm_kind t)), member ''backing'' (opt_json JStr (tm_backing t))]"

definition mem_shape_json :: "mem_shape \<Rightarrow> json" where
  "mem_shape_json m = JObj
     [member ''histogram'' (arr_json map_kind_bucket_json (ms_histogram m)), member ''top_n'' (arr_json top_map_json (ms_top_n m))]"

definition stack_frame_json :: "stack_frame \<Rightarrow> json" where
  "stack_frame_json f = JObj
     [member ''idx'' (nat_json (sf_idx f)), member ''addr'' (JStr (sf_addr f)),
      member ''symbol'' (opt_json symbolized_json (sf_symbol f)),
      member ''confidence'' (opt_json symbol_confidence_json (sf_confidence f))]"

fun hotspot_json :: "hotspot \<Rightarrow> json" where
  "hotspot_json NotBlocked = JObj [member ''kind'' (name_json ''not_blocked'')]"
| "hotspot_json (Blocked frames) = JObj
     [member ''kind'' (name_json ''blocked''), member ''frames'' (arr_json stack_frame_json frames)]"

definition recorder_event_json :: "json_library \<Rightarrow> recorder_event \<Rightarrow> json" where
  "recorder_event_json lib e = JObj [member ''ts'' (JStr (lib_time lib (ev_ts e))), member ''type'' (JStr (ev_type e))]"

fun recent_events_json :: "json_library \<Rightarrow> recent_events \<Rightarrow> json" where
  "recent_events_json lib RecorderOff = JObj [member ''kind'' (name_json ''recorder_off'')]"
| "recent_events_json lib EmptyEvents = JObj [member ''kind'' (name_json ''empty'')]"
| "recent_events_json lib (Sample events) = JObj
     [member ''kind'' (name_json ''sample''), member ''events'' (arr_json (recorder_event_json lib) events)]"

definition low_confidence_field_json :: "low_confidence_field \<Rightarrow> json" where
  "low_confidence_field_json f = JObj
     [member ''path'' (JStr (lf_path f)), member ''confidence'' (opt_json symbol_confidence_json (lf_confidence f)),
      member ''reason'' (JStr (lf_reason f))]"

definition confidence_summary_json :: "json_library \<Rightarrow> confidence_summary \<Rightarrow> json" where
  "confidence_summary_json lib c = JObj
     [member ''overall'' (lib_f32 lib (cf_overall c)), member ''low_fields'' (arr_json low_confidence_field_json (cf_low_fields c))]"

fun handle_json :: "handle \<Rightarrow> json" where
  "handle_json (Handle cursor) = JStr cursor"

definition handles_json :: "handles \<Rightarrow> json" where
  "handles_json h = JObj
     [member ''threads'' (opt_json handle_json (ha_threads h)), member ''maps'' (opt_json handle_json (ha_maps h)),
      member ''stack'' (opt_json handle_json (ha_stack h)), member ''fds'' (opt_json handle_json (ha_fds h)),
      member ''env'' (opt_json handle_json (ha_env h)), member ''symbols'' (opt_json handle_json (ha_symbols h))]"

definition cost_hint_json :: "json_library \<Rightarrow> cost_hint \<Rightarrow> json" where
  "cost_hint_json lib c = JObj
     [member ''token'' (word_json (ch_token c)), member ''api_cost'' (opt_json (lib_f32 lib) (ch_api_cost c)),
      member ''overhead_est_ns'' (word_json (ch_overhead_est_ns c))]"

text \<open>The members of a \<open>Level0\<close>: on its own they make an object, in a response they join others.\<close>

definition level0_members :: "json_library \<Rightarrow> level0 \<Rightarrow> members" where
  "level0_members lib l =
     [member ''identity'' (identity_json (l0_identity l)), member ''state'' (proc_state_json (l0_state l)),
      member ''resource'' (resource_json lib (l0_resource l)), member ''mem_shape'' (mem_shape_json (l0_mem_shape l)),
      member ''hotspot'' (hotspot_json (l0_hotspot l)), member ''snapshot_span_ms'' (word_json (l0_snapshot_span_ms l)),
      member ''recent'' (recent_events_json lib (l0_recent l)),
      member ''confidence'' (confidence_summary_json lib (l0_confidence l)),
      member ''handles'' (handles_json (l0_handles l)), member ''cost_hint'' (cost_hint_json lib (l0_cost_hint l))]"

definition level0_json :: "json_library \<Rightarrow> level0 \<Rightarrow> json" where
  "level0_json lib l = JObj (level0_members lib l)"

section \<open>The messages\<close>

definition uuid_json :: "json_library \<Rightarrow> uuid \<Rightarrow> json" where
  "uuid_json lib u = JStr (lib_uuid lib u)"

definition time_json :: "json_library \<Rightarrow> timestamp \<Rightarrow> json" where
  "time_json lib t = JStr (lib_time lib t)"

fun request_body_json :: "request_body \<Rightarrow> json" where
  "request_body_json (Introspect pid) = JObj [member ''verb'' (name_json ''introspect''), member ''pid'' (JInt pid)]"

definition request_members :: "json_library \<Rightarrow> wire_request \<Rightarrow> members" where
  "request_members lib r = [member ''id'' (uuid_json lib (wr_id r)), member ''body'' (request_body_json (wr_body r))]"

fun host_json :: "json_library \<Rightarrow> host_to_guest \<Rightarrow> json" where
  "host_json lib (Request r) = JObj (member ''kind'' (name_json ''request'') # request_members lib r)"

fun side_effect_json :: "side_effect \<Rightarrow> json" where
  "side_effect_json Read = name_json ''read''"
| "side_effect_json DryRunnableWrite = name_json ''dry_runnable_write''"
| "side_effect_json Intervention = name_json ''intervention''"
| "side_effect_json KernelWrite = name_json ''kernel_write''"
| "side_effect_json Irreversible = name_json ''irreversible''"

definition error_report_json :: "error_report \<Rightarrow> json" where
  "error_report_json e = JObj
     [member ''type'' (JStr (er_kind e)), member ''reason'' (JStr (er_reason e)),
      member ''next_step'' (opt_json JStr (er_next_step e))]"

fun response_body_members :: "json_library \<Rightarrow> response_body \<Rightarrow> members" where
  "response_body_members lib (IntrospectBody l) = member ''verb'' (name_json ''introspect'') # level0_members lib l"

fun response_members :: "json_library \<Rightarrow> wire_response \<Rightarrow> members" where
  "response_members lib (ResponseOk req_id body) =
     member ''status'' (name_json ''ok'') # member ''req_id'' (uuid_json lib req_id) # response_body_members lib body"
| "response_members lib (ResponseErr req_id e) =
     [member ''status'' (name_json ''err''), member ''req_id'' (uuid_json lib req_id), member ''error'' (error_report_json e)]"

fun execution_outcome_json :: "execution_outcome \<Rightarrow> json" where
  "execution_outcome_json Succeeded = JObj [member ''status'' (name_json ''succeeded'')]"
| "execution_outcome_json (Failed e) = JObj [member ''status'' (name_json ''failed''), member ''error'' (error_report_json e)]"

definition receipt_members :: "json_library \<Rightarrow> execution_receipt \<Rightarrow> members" where
  "receipt_members lib x =
     [member ''request_id'' (uuid_json lib (xr_request_id x)), member ''started_at'' (time_json lib (xr_started_at x)),
      member ''finished_at'' (time_json lib (xr_finished_at x)), member ''outcome'' (execution_outcome_json (xr_outcome x))]"

definition effect_sample_json :: "effect_sample \<Rightarrow> json" where
  "effect_sample_json s = JObj
     [member ''name'' (JStr (es_name s)), member ''value'' (word_json (es_value s)), member ''unit'' (JStr (es_unit s))]"

definition telemetry_members :: "json_library \<Rightarrow> effect_telemetry \<Rightarrow> members" where
  "telemetry_members lib t =
     [member ''request_id'' (uuid_json lib (et_request_id t)), member ''observed_at'' (time_json lib (et_observed_at t)),
      member ''samples'' (arr_json effect_sample_json (et_samples t)),
      member ''dropped_samples'' (word_json (et_dropped_samples t))]"

fun guest_json :: "json_library \<Rightarrow> guest_to_host \<Rightarrow> json" where
  "guest_json lib (Response r) = JObj (member ''kind'' (name_json ''response'') # response_members lib r)"
| "guest_json lib (ExecutionReceipt x) = JObj (member ''kind'' (name_json ''execution_receipt'') # receipt_members lib x)"
| "guest_json lib (EffectTelemetry t) = JObj (member ''kind'' (name_json ''effect_telemetry'') # telemetry_members lib t)"

section \<open>Texts\<close>

text \<open>\<open>serde_json::to_vec\<close> of a message: the UTF-8 bytes of the printed form. The decoders stay parameters.\<close>

definition json_formats ::
  "json_library \<Rightarrow> (json \<Rightarrow> str) \<Rightarrow> (str \<Rightarrow> str + host_to_guest) \<Rightarrow> (str \<Rightarrow> str + guest_to_host) \<Rightarrow> wire_formats" where
  "json_formats lib print decode_host decode_guest =
     \<lparr>wf_host = \<lparr>jf_encode = (\<lambda>m. Inr (encode_utf8 (print (host_json lib m)))), jf_decode = decode_host\<rparr>,
      wf_guest = \<lparr>jf_encode = (\<lambda>m. Inr (encode_utf8 (print (guest_json lib m)))), jf_decode = decode_guest\<rparr>\<rparr>"

end
