(* ===== verification/Wire_Json_Facts.thy ===== *)
theory Wire_Json_Facts
  imports Wire_Json Wire_Codec_Facts Rust_Num "HOL-Library.Countable"
begin

text \<open>
  The JSON form is a good wire format: no object names a member twice (the tags and the flattened
  \<open>Level0\<close> share one object with the fields around them), no information is lost, and no message of one
  direction has the form of one of the other. So decoders that read everything back exist, whatever
  the printer of JSON texts, and the hypotheses of \<open>Wire_Codec_Facts\<close> can be met.
\<close>

section \<open>Names\<close>

lemma asc_inj [simp]: "asc a = asc b \<longleftrightarrow> a = b"
proof -
  have "inj (of_char :: char \<Rightarrow> rchar)" by (rule injI) simp
  from inj_map_eq_map [OF this] show ?thesis by (simp add: asc_def)
qed

lemma member_simps [simp]:
  "member n v = member n' v' \<longleftrightarrow> n = n' \<and> v = v'" "fst (member n v) = asc n" "snd (member n v) = v"
  by (auto simp: member_def)

lemma name_json_inj [simp]: "name_json a = name_json b \<longleftrightarrow> a = b"
  by (simp add: name_json_def)

text \<open>No object names a member twice.\<close>

fun json_ok :: "json \<Rightarrow> bool" where
  "json_ok (JArr xs) = (\<forall>x\<in>set xs. json_ok x)"
| "json_ok (JObj ms) = (distinct (map fst ms) \<and> (\<forall>(k, v)\<in>set ms. json_ok v))"
| "json_ok _ = True"

lemma json_ok_simps [simp]:
  "json_ok (name_json n)" "json_ok (word_json w)" "json_ok (nat_json k)" "json_ok (uuid_json lib u)" "json_ok (time_json lib t)"
  "json_ok (opt_json f x) \<longleftrightarrow> (\<forall>y. x = Some y \<longrightarrow> json_ok (f y))"
  "json_ok (arr_json f xs) \<longleftrightarrow> (\<forall>y\<in>set xs. json_ok (f y))"
  "json_ok (JObj ms) \<longleftrightarrow> distinct (map fst ms) \<and> (\<forall>m\<in>set ms. json_ok (snd m))"
  by (auto simp: name_json_def word_json_def nat_json_def uuid_json_def time_json_def opt_json_def arr_json_def split: option.splits)

declare json_ok.simps(2) [simp del]

lemma enum_json_ok [simp]:
  "json_ok (symbol_confidence_json c)" "json_ok (map_kind_json k)" "json_ok (handle_json h)" "json_ok (request_body_json rb)"
proof -
  show "json_ok (symbol_confidence_json c)" by (cases c) simp_all
  show "json_ok (map_kind_json k)" by (cases k) simp_all
  show "json_ok (handle_json h)" by (cases h) simp
  show "json_ok (request_body_json rb)" by (cases rb) simp
qed

lemmas schema_json_defs = run_state_json_def symbolized_json_def cmdline_json_def ctxt_switches_json_def
  map_kind_bucket_json_def top_map_json_def stack_frame_json_def recorder_event_json_def low_confidence_field_json_def
  error_report_json_def effect_sample_json_def identity_json_def proc_state_json_def resource_json_def mem_shape_json_def
  confidence_summary_json_def handles_json_def cost_hint_json_def level0_json_def level0_members_def request_members_def
  receipt_members_def telemetry_members_def

lemma leaf_json_ok [simp]:
  "json_ok (run_state_json s)" "json_ok (symbolized_json y)" "json_ok (cmdline_json cl)" "json_ok (ctxt_switches_json cs)"
  "json_ok (map_kind_bucket_json b)" "json_ok (top_map_json t)" "json_ok (recorder_event_json lib ev)"
  "json_ok (low_confidence_field_json lf)" "json_ok (error_report_json e)" "json_ok (effect_sample_json es)"
  by (simp_all add: schema_json_defs)

lemma group_json_ok [simp]:
  "json_ok (identity_json i)" "json_ok (proc_state_json p)" "json_ok (mem_shape_json m)" "json_ok (handles_json h)" "json_ok (stack_frame_json f)"
  by (simp_all add: schema_json_defs)

lemma tagged_json_ok [simp]: "json_ok (hotspot_json h)" "json_ok (recent_events_json lib r)" "json_ok (execution_outcome_json x)"
proof -
  show "json_ok (hotspot_json h)" by (cases h) simp_all
  show "json_ok (recent_events_json lib r)" by (cases r) simp_all
  show "json_ok (execution_outcome_json x)" by (cases x) simp_all
qed

text \<open>The number that stands for an \<open>f32\<close> is no object; the other crates tell different values apart.\<close>

definition finite_f32 :: "f32 \<Rightarrow> bool" where
  "finite_f32 x \<longleftrightarrow> (\<exists>r. x = Fin r)"

definition json_library_ok :: "json_library \<Rightarrow> bool" where
  "json_library_ok lib \<longleftrightarrow> inj (lib_uuid lib) \<and> inj (lib_time lib) \<and> inj_on (lib_f32 lib) {x. finite_f32 x} \<and>
     (\<forall>x. finite_f32 x \<longrightarrow> lib_f32 lib x \<noteq> JNull) \<and> (\<forall>x. json_ok (lib_f32 lib x))"

lemma level0_members_ok:
  assumes "json_library_ok lib"
  shows "\<forall>m\<in>set (level0_members lib l). json_ok (snd m)"
  using assms by (simp add: level0_members_def resource_json_def confidence_summary_json_def cost_hint_json_def json_library_ok_def)

lemma wire_names_ok:
  assumes "json_library_ok lib"
  shows "json_ok (host_json lib request) \<and> json_ok (guest_json lib evidence)"
proof
  show "json_ok (host_json lib request)" by (cases request) (simp add: request_members_def)
  show "json_ok (guest_json lib evidence)"
  proof (cases evidence)
    case (Response r)
    show ?thesis
    proof (cases r)
      case (ResponseOk req_id body)
      obtain l where "body = IntrospectBody l" by (cases body)
      with level0_members_ok [OF assms, of l] show ?thesis
        by (auto simp: Response ResponseOk level0_members_def)
    qed (simp add: Response)
  qed (simp_all add: receipt_members_def telemetry_members_def)
qed

section \<open>No information is lost\<close>

lemma word_json_inj [simp]: "word_json v = word_json w \<longleftrightarrow> v = w"
  by (simp add: word_json_def word_uint_eq_iff [symmetric])

lemma nat_json_inj [simp]: "nat_json m = nat_json n \<longleftrightarrow> m = n"
  by (simp add: nat_json_def)

lemma arr_json_inj:
  assumes "\<And>x y. x \<in> set xs \<Longrightarrow> y \<in> set ys \<Longrightarrow> f x = f y \<Longrightarrow> x = y" "arr_json f xs = arr_json f ys"
  shows "xs = ys"
proof -
  from assms(2) have "map f xs = map f ys" by (simp add: arr_json_def)
  with assms(1) show ?thesis by (induction xs arbitrary: ys) (auto simp: Cons_eq_map_conv)
qed

lemma arr_json_inj_iff:
  assumes "\<And>x y. f x = f y \<longleftrightarrow> x = y"
  shows "arr_json f xs = arr_json f ys \<longleftrightarrow> xs = ys"
  using arr_json_inj [of xs ys f] assms by blast

lemma opt_json_inj:
  assumes "\<And>a b. x = Some a \<Longrightarrow> y = Some b \<Longrightarrow> f a = f b \<Longrightarrow> a = b"
    and "\<And>a. x = Some a \<or> y = Some a \<Longrightarrow> f a \<noteq> JNull" "opt_json f x = opt_json f y"
  shows "x = y"
proof (cases x)
  case None
  with assms(3) have "opt_json f y = JNull" by (simp add: opt_json_def)
  with assms(2) None show ?thesis by (cases y) (auto simp: opt_json_def)
next
  case (Some a)
  with assms(2) [of a] have "opt_json f y \<noteq> JNull" using assms(3) by (simp add: opt_json_def)
  then obtain b where "y = Some b" by (cases y) (auto simp: opt_json_def)
  with Some assms(1) [of a b] assms(3) show ?thesis by (simp add: opt_json_def)
qed

lemma enum_json_inj [simp]:
  "symbol_confidence_json c = symbol_confidence_json c' \<longleftrightarrow> c = c'" "map_kind_json k = map_kind_json k' \<longleftrightarrow> k = k'"
  "handle_json h = handle_json h' \<longleftrightarrow> h = h'"
proof -
  show "symbol_confidence_json c = symbol_confidence_json c' \<longleftrightarrow> c = c'" by (cases c; cases c') simp_all
  show "map_kind_json k = map_kind_json k' \<longleftrightarrow> k = k'" by (cases k; cases k') simp_all
  show "handle_json h = handle_json h' \<longleftrightarrow> h = h'" by (cases h; cases h') simp
qed

lemma not_null [simp]:
  "symbol_confidence_json c \<noteq> JNull" "handle_json h \<noteq> JNull" "symbolized_json s \<noteq> JNull"
proof -
  show "symbol_confidence_json c \<noteq> JNull" by (cases c) (simp_all add: name_json_def)
  show "handle_json h \<noteq> JNull" by (cases h) simp
  show "symbolized_json s \<noteq> JNull" by (simp add: symbolized_json_def)
qed

lemma opt_json_inj_simps [simp]:
  "opt_json JStr a = opt_json JStr b \<longleftrightarrow> a = b"
  "opt_json symbol_confidence_json c = opt_json symbol_confidence_json c' \<longleftrightarrow> c = c'"
  "opt_json handle_json h = opt_json handle_json h' \<longleftrightarrow> h = h'"
proof -
  show "opt_json JStr a = opt_json JStr b \<longleftrightarrow> a = b" by (auto intro: opt_json_inj [where f = JStr])
  show "opt_json symbol_confidence_json c = opt_json symbol_confidence_json c' \<longleftrightarrow> c = c'"
    by (auto intro: opt_json_inj [where f = symbol_confidence_json])
  show "opt_json handle_json h = opt_json handle_json h' \<longleftrightarrow> h = h'" by (auto intro: opt_json_inj [where f = handle_json])
qed

lemma record_json_inj [simp]:
  "symbolized_json s = symbolized_json s' \<longleftrightarrow> s = s'" "cmdline_json cl = cmdline_json cl' \<longleftrightarrow> cl = cl'"
  "ctxt_switches_json cs = ctxt_switches_json cs' \<longleftrightarrow> cs = cs'"
  "map_kind_bucket_json b = map_kind_bucket_json b' \<longleftrightarrow> b = b'" "top_map_json tm = top_map_json tm' \<longleftrightarrow> tm = tm'"
  "low_confidence_field_json lf = low_confidence_field_json lf' \<longleftrightarrow> lf = lf'"
  "error_report_json e = error_report_json e' \<longleftrightarrow> e = e'" "effect_sample_json es = effect_sample_json es' \<longleftrightarrow> es = es'"
  by (auto simp: schema_json_defs)

lemma opt_symbolized_inj [simp]: "opt_json symbolized_json a = opt_json symbolized_json b \<longleftrightarrow> a = b"
  by (auto intro: opt_json_inj [where f = symbolized_json])

lemma stack_frame_json_inj [simp]: "stack_frame_json f = stack_frame_json f' \<longleftrightarrow> f = f'"
  by (auto simp: stack_frame_json_def)

lemma arr_json_inj_simps [simp]:
  "arr_json map_kind_bucket_json bs = arr_json map_kind_bucket_json bs' \<longleftrightarrow> bs = bs'"
  "arr_json top_map_json ts = arr_json top_map_json ts' \<longleftrightarrow> ts = ts'"
  "arr_json stack_frame_json fs = arr_json stack_frame_json fs' \<longleftrightarrow> fs = fs'"
  "arr_json low_confidence_field_json ls = arr_json low_confidence_field_json ls' \<longleftrightarrow> ls = ls'"
  "arr_json effect_sample_json es = arr_json effect_sample_json es' \<longleftrightarrow> es = es'"
  by (rule arr_json_inj_iff, simp)+

lemma group_json_inj [simp]:
  "identity_json i = identity_json i' \<longleftrightarrow> i = i'" "mem_shape_json m = mem_shape_json m' \<longleftrightarrow> m = m'"
  "handles_json h = handles_json h' \<longleftrightarrow> h = h'" "hotspot_json x = hotspot_json x' \<longleftrightarrow> x = x'"
  "request_body_json r = request_body_json r' \<longleftrightarrow> r = r'" "execution_outcome_json o1 = execution_outcome_json o2 \<longleftrightarrow> o1 = o2"
proof -
  show "identity_json i = identity_json i' \<longleftrightarrow> i = i'" by (auto simp: identity_json_def)
  show "mem_shape_json m = mem_shape_json m' \<longleftrightarrow> m = m'" by (auto simp: mem_shape_json_def)
  show "handles_json h = handles_json h' \<longleftrightarrow> h = h'" by (auto simp: handles_json_def)
  show "hotspot_json x = hotspot_json x' \<longleftrightarrow> x = x'" by (cases x; cases x') simp_all
  show "request_body_json r = request_body_json r' \<longleftrightarrow> r = r'" by (cases r; cases r') simp
  show "execution_outcome_json o1 = execution_outcome_json o2 \<longleftrightarrow> o1 = o2" by (cases o1; cases o2) simp_all
qed

text \<open>What keeps its identity on the wire: a state that \<open>from_char\<close> gives, and finite numbers (the library
  writes \<open>null\<close> for others).\<close>

definition wire_level0 :: "level0 \<Rightarrow> bool" where
  "wire_level0 l \<longleftrightarrow> canonical_state (pr_run_state (l0_state l)) \<and> finite_f32 (re_pct_cpu (l0_resource l)) \<and>
     finite_f32 (cf_overall (l0_confidence l)) \<and> (\<forall>c. ch_api_cost (l0_cost_hint l) = Some c \<longrightarrow> finite_f32 c)"

fun wire_evidence :: "guest_to_host \<Rightarrow> bool" where
  "wire_evidence (Response (ResponseOk req_id (IntrospectBody l))) = wire_level0 l"
| "wire_evidence _ = True"

lemma f32_inj:
  assumes "json_library_ok lib" "finite_f32 x" "finite_f32 y"
  shows "lib_f32 lib x = lib_f32 lib y \<longleftrightarrow> x = y"
  using assms by (auto simp: json_library_ok_def inj_on_def)

lemma lib_text_inj:
  assumes "json_library_ok lib"
  shows "uuid_json lib u = uuid_json lib u' \<longleftrightarrow> u = u'" "time_json lib t = time_json lib t' \<longleftrightarrow> t = t'"
  using assms by (auto simp: json_library_ok_def uuid_json_def time_json_def dest: injD)

lemma recent_events_json_inj:
  assumes "json_library_ok lib"
  shows "recent_events_json lib r = recent_events_json lib r' \<longleftrightarrow> r = r'"
proof -
  have "recorder_event_json lib e = recorder_event_json lib e' \<longleftrightarrow> e = e'" for e e'
    using lib_text_inj(2) [OF assms, of "ev_ts e" "ev_ts e'"] by (auto simp: recorder_event_json_def time_json_def)
  then have "arr_json (recorder_event_json lib) es = arr_json (recorder_event_json lib) es' \<longleftrightarrow> es = es'" for es es'
    by (rule arr_json_inj_iff)
  then show ?thesis by (cases r; cases r') simp_all
qed

lemma level0_members_inj:
  assumes "json_library_ok lib" "wire_level0 l" "wire_level0 l'" "level0_members lib l = level0_members lib l'"
  shows "l = l'"
proof -
  from assms(4) have eqs: "l0_identity l = l0_identity l'" "proc_state_json (l0_state l) = proc_state_json (l0_state l')"
    "resource_json lib (l0_resource l) = resource_json lib (l0_resource l')" "l0_mem_shape l = l0_mem_shape l'"
    "l0_hotspot l = l0_hotspot l'" "l0_snapshot_span_ms l = l0_snapshot_span_ms l'"
    "recent_events_json lib (l0_recent l) = recent_events_json lib (l0_recent l')"
    "confidence_summary_json lib (l0_confidence l) = confidence_summary_json lib (l0_confidence l')"
    "l0_handles l = l0_handles l'" "cost_hint_json lib (l0_cost_hint l) = cost_hint_json lib (l0_cost_hint l')"
    by (simp_all add: level0_members_def)
  have "l0_state l = l0_state l'"
    using eqs(2) assms(2,3) by (auto simp: proc_state_json_def run_state_json_def wire_level0_def as_char_inj)
  moreover have "l0_resource l = l0_resource l'"
    using eqs(3) assms f32_inj [OF assms(1)] by (auto simp: resource_json_def wire_level0_def)
  moreover have "l0_recent l = l0_recent l'" using eqs(7) recent_events_json_inj [OF assms(1)] by blast
  moreover have "l0_confidence l = l0_confidence l'"
    using eqs(8) assms f32_inj [OF assms(1)] by (auto simp: confidence_summary_json_def wire_level0_def)
  moreover have "l0_cost_hint l = l0_cost_hint l'"
  proof -
    from eqs(10) have "opt_json (lib_f32 lib) (ch_api_cost (l0_cost_hint l)) = opt_json (lib_f32 lib) (ch_api_cost (l0_cost_hint l'))"
      by (simp add: cost_hint_json_def)
    then have "ch_api_cost (l0_cost_hint l) = ch_api_cost (l0_cost_hint l')"
      by (rule opt_json_inj [rotated 2]) (use assms f32_inj [OF assms(1)] in \<open>auto simp: wire_level0_def json_library_ok_def\<close>)
    with eqs(10) show ?thesis by (simp add: cost_hint_json_def)
  qed
  ultimately show ?thesis using eqs by simp
qed

lemma wire_form_injective:
  assumes "json_library_ok lib"
  shows "(host_json lib request = host_json lib request' \<longleftrightarrow> request = request') \<and>
    (wire_evidence evidence \<and> wire_evidence evidence' \<longrightarrow>
       (guest_json lib evidence = guest_json lib evidence' \<longleftrightarrow> evidence = evidence')) \<and>
    host_json lib request \<noteq> guest_json lib evidence"
proof (intro conjI impI)
  note texts = lib_text_inj [OF assms]
  show "host_json lib request = host_json lib request' \<longleftrightarrow> request = request'"
    by (cases request; cases request') (auto simp: request_members_def texts)
  show "host_json lib request \<noteq> guest_json lib evidence"
    by (cases request; cases evidence) simp_all
  assume wire: "wire_evidence evidence \<and> wire_evidence evidence'"
  have response: "response_members lib r = response_members lib r' \<longleftrightarrow> r = r'" if "evidence = Response r" "evidence' = Response r'" for r r'
  proof (cases "\<exists>a b c d. r = ResponseOk a b \<and> r' = ResponseOk c d")
    case True
    then obtain a l c l' where "r = ResponseOk a (IntrospectBody l)" "r' = ResponseOk c (IntrospectBody l')"
      by (metis response_body.exhaust)
    with wire that level0_members_inj [OF assms, of l l'] show ?thesis by (auto simp: texts)
  next
    case False
    then show ?thesis by (cases r; cases r') (simp_all add: texts)
  qed
  show "guest_json lib evidence = guest_json lib evidence' \<longleftrightarrow> evidence = evidence'"
    by (cases evidence; cases evidence') (auto simp: response receipt_members_def telemetry_members_def texts)
qed

text \<open>C19: The JSON form is an object that no decoder can confuse: no object in it names a member twice, at
  any depth, although the tags \<open>kind\<close>, \<open>status\<close> and \<open>verb\<close> and the request id share one object with the
  flattened observations of a \<open>Level0\<close>; two messages of one direction with the same form are the same
  message (states as \<open>from_char\<close> gives them, finite numbers); and no request has the form of any evidence.\<close>

theorem wire_form_is_injective:
  assumes "json_library_ok lib"
  shows "json_ok (host_json lib request) \<and> json_ok (guest_json lib evidence) \<and>
    (host_json lib request = host_json lib request' \<longleftrightarrow> request = request') \<and>
    (wire_evidence evidence \<and> wire_evidence evidence' \<longrightarrow>
       (guest_json lib evidence = guest_json lib evidence' \<longleftrightarrow> evidence = evidence')) \<and>
    host_json lib request \<noteq> guest_json lib evidence"
  using wire_names_ok [OF assms] wire_form_injective [OF assms] by simp

section \<open>Texts that are read back\<close>

text \<open>What a printer of compact JSON guarantees: text without control characters, and different texts for
  different values.\<close>

definition printer_ok :: "(json \<Rightarrow> str) \<Rightarrow> bool" where
  "printer_ok print \<longleftrightarrow> inj_on print {j. json_ok j} \<and>
     (\<forall>j. json_ok j \<longrightarrow> print j \<noteq> [] \<and> valid_str (print j) \<and> 10 \<notin> set (print j) \<and> 13 \<notin> set (print j))"

lemma ascii_byte_of_char:
  assumes "scalar c" "b \<in> set (encode_char c)" "uint b < 128"
  shows "c = uint b"
proof -
  have tail: "128 \<le> uint (byte_of (128 + n mod 64))" for n :: int
    by (subst uint_byte_of) (use pos_mod_bound [of 64 n] in auto)
  have lead: "128 \<le> uint (byte_of (192 + c div 64))" if "128 \<le> c" "c < 2048"
    by (subst uint_byte_of) (use that in auto)
  have lead3: "128 \<le> uint (byte_of (224 + c div 4096))" if "2048 \<le> c" "c < 65536"
    by (subst uint_byte_of) (use that in auto)
  have lead4: "128 \<le> uint (byte_of (240 + c div 262144))" if "65536 \<le> c" "c < 1114112"
    by (subst uint_byte_of) (use that in auto)
  from assms tail lead lead3 lead4 show ?thesis
    by (auto simp: encode_char_def scalar_def uint_byte_of not_less split: if_splits)
qed

lemma encode_utf8_no_control:
  assumes "valid_str s" "int n \<notin> set s" "n < 128"
  shows "(of_nat n :: u8) \<notin> set (encode_utf8 s)"
proof
  assume "(of_nat n :: u8) \<in> set (encode_utf8 s)"
  then obtain c where c: "c \<in> set s" "(of_nat n :: u8) \<in> set (encode_char c)" by (auto simp: encode_utf8_def)
  have "uint (of_nat n :: u8) = int n" using assms(3) by (simp add: uint_nat unat_of_nat)
  with ascii_byte_of_char [OF _ c(2)] c(1) assms show False by (auto simp: valid_str_def)
qed

lemma printed_bytes:
  assumes "printer_ok print" "json_ok j"
  shows "encode_utf8 (print j) \<noteq> []" "10 \<notin> set (encode_utf8 (print j))" "13 \<notin> set (encode_utf8 (print j))"
    "from_utf8 (encode_utf8 (print j)) = Some (print j)"
proof -
  from assms have p: "print j \<noteq> []" "valid_str (print j)" "int 10 \<notin> set (print j)" "int 13 \<notin> set (print j)"
    by (auto simp: printer_ok_def)
  from encode_utf8_no_control [OF p(2,3)] encode_utf8_no_control [OF p(2,4)]
  show "10 \<notin> set (encode_utf8 (print j))" "13 \<notin> set (encode_utf8 (print j))" by simp_all
  show "encode_utf8 (print j) \<noteq> []" using p(1) by (cases "print j") (simp_all add: encode_utf8_def)
  show "from_utf8 (encode_utf8 (print j)) = Some (print j)" using p(2) by simp
qed

lemma guest_reads_back:
  assumes "json_library_ok lib" "printer_ok print" "decode_guest (print (guest_json lib m)) = Inr m"
  shows "json_reads_back (wf_guest (json_formats lib print decode_host decode_guest)) m"
  using printed_bytes [OF assms(2)] wire_names_ok [OF assms(1)] assms(3)
  by (auto simp: json_reads_back_def json_formats_def)

lemma host_reads_back:
  assumes "json_library_ok lib" "printer_ok print" "decode_host (print (host_json lib m)) = Inr m"
  shows "json_reads_back (wf_host (json_formats lib print decode_host decode_guest)) m"
  using printed_bytes [OF assms(2)] wire_names_ok [OF assms(1)] assms(3)
  by (auto simp: json_reads_back_def json_formats_def)

text \<open>An inverse of an injective form, and nothing else.\<close>

lemma inverse_decoder:
  assumes "inj_on form {m. good m}"
  shows "\<exists>decode :: str \<Rightarrow> str + 'm. (\<forall>m. good m \<longrightarrow> decode (form m) = Inr m) \<and>
    (\<forall>s m. decode s = Inr m \<longrightarrow> good m \<and> s = form m)"
proof -
  define d :: "str \<Rightarrow> str + 'm" where
    "d s = (if \<exists>m. good m \<and> form m = s then Inr (SOME m. good m \<and> form m = s) else Inl [])" for s
  have some: "good (SOME m. good m \<and> form m = s) \<and> form (SOME m. good m \<and> form m = s) = s"
    if "\<exists>m. good m \<and> form m = s" for s using that by (rule someI_ex)
  have "d (form m) = Inr m" if "good m" for m
  proof -
    from that have ex: "\<exists>m'. good m' \<and> form m' = form m" by blast
    from some [OF this] assms that have "(SOME m'. good m' \<and> form m' = form m) = m" by (auto dest: inj_onD)
    with ex show ?thesis by (simp add: d_def)
  qed
  moreover have "good m \<and> s = form m" if "d s = Inr m" for s m
  proof -
    have "d s = Inl []" if "\<not> (\<exists>m. good m \<and> form m = s)" using that unfolding d_def by (rule if_not_P)
    with that have ex: "\<exists>m. good m \<and> form m = s" by auto
    then have "d s = Inr (SOME m. good m \<and> form m = s)" unfolding d_def by (rule if_P)
    with that have m: "(SOME m. good m \<and> form m = s) = m" by simp
    from some [OF ex, unfolded m] show ?thesis by simp
  qed
  ultimately show ?thesis by blast
qed

text \<open>The documented behaviour of a decoder that serde derives for an internally tagged enum: it reads the tag
  to choose the variant, so it accepts an object only when its tag member is the one that the form of
  the accepted message has.\<close>

definition tag_of :: "json \<Rightarrow> json option" where
  "tag_of j = (case j of JObj ms \<Rightarrow> map_of ms (asc ''kind'') | _ \<Rightarrow> None)"

definition tagged_decoder :: "('m \<Rightarrow> json) \<Rightarrow> (json \<Rightarrow> str) \<Rightarrow> (str \<Rightarrow> str + 'm) \<Rightarrow> bool" where
  "tagged_decoder form print decode \<longleftrightarrow> (\<forall>j m. json_ok j \<longrightarrow> decode (print j) = Inr m \<longrightarrow> tag_of j = tag_of (form m))"

lemma inverse_is_tagged:
  assumes "\<forall>m. good m \<longrightarrow> decode (print (form m)) = Inr m" "\<forall>s m. decode s = Inr m \<longrightarrow> good m \<and> s = print (form m)"
    and "inj_on print {j. json_ok j}" "\<And>m. json_ok (form m)"
  shows "tagged_decoder form print decode"
proof -
  have "tag_of j = tag_of (form m)" if "json_ok j" "decode (print j) = Inr m" for j m
  proof -
    from that(2) assms(2) have "print j = print (form m)" by blast
    with assms(3,4) that(1) have "j = form m" by (auto dest: inj_onD)
    then show ?thesis by simp
  qed
  then show ?thesis by (simp add: tagged_decoder_def)
qed

text \<open>Decoders with these laws exist: the hypotheses on them can be met.\<close>

lemma decoders_exist:
  assumes "json_library_ok lib" "printer_ok print"
  shows "\<exists>decode_host decode_guest. (\<forall>m. decode_host (print (host_json lib m)) = Inr m) \<and>
    (\<forall>m. wire_evidence m \<longrightarrow> decode_guest (print (guest_json lib m)) = Inr m) \<and>
    tagged_decoder (host_json lib) print decode_host \<and> tagged_decoder (guest_json lib) print decode_guest"
proof -
  note forms = wire_form_injective [OF assms(1)] and ok = wire_names_ok [OF assms(1)]
  have inj: "inj_on print {j. json_ok j}" using assms(2) by (simp add: printer_ok_def)
  then have print: "print j = print k \<longleftrightarrow> j = k" if "json_ok j" "json_ok k" for j k
    using that by (auto simp: inj_on_def)
  have "inj_on (\<lambda>m. print (host_json lib m)) {m. True}" using print ok forms by (auto simp: inj_on_def)
  from inverse_decoder [OF this] obtain decode_host :: "str \<Rightarrow> str + host_to_guest" where
    h: "\<forall>m. True \<longrightarrow> decode_host (print (host_json lib m)) = Inr m"
      "\<forall>s m. decode_host s = Inr m \<longrightarrow> True \<and> s = print (host_json lib m)" by blast
  have "inj_on (\<lambda>m. print (guest_json lib m)) {m. wire_evidence m}" using print ok forms by (auto simp: inj_on_def)
  from inverse_decoder [OF this] obtain decode_guest :: "str \<Rightarrow> str + guest_to_host" where
    g: "\<forall>m. wire_evidence m \<longrightarrow> decode_guest (print (guest_json lib m)) = Inr m"
      "\<forall>s m. decode_guest s = Inr m \<longrightarrow> wire_evidence m \<and> s = print (guest_json lib m)" by blast
  from inverse_is_tagged [OF h inj] inverse_is_tagged [OF g inj] ok h(1) g(1) show ?thesis by blast
qed

section \<open>A library and a printer\<close>

text \<open>For the witnesses: numbers in decimal, and as the text of a value its number in an enumeration.\<close>

instance json :: countable
  by countable_datatype

definition sample_library :: json_library where
  "sample_library = \<lparr>lib_uuid = (\<lambda>u. fmt_dec (int (unat u))), lib_time = (\<lambda>t. fmt_dec (int (to_nat t))),
     lib_f32 = (\<lambda>x. case x of Fin r \<Rightarrow> JReal r | _ \<Rightarrow> JNull)\<rparr>"

definition sample_print :: "json \<Rightarrow> str" where
  "sample_print j = fmt_dec (int (to_nat j))"

lemma sample_library_ok: "json_library_ok sample_library" "printer_ok sample_print"
proof -
  have "inj (lib_uuid sample_library)" "inj (lib_time sample_library)"
    by (auto simp: sample_library_def word_unat_eq_iff intro!: injI dest!: fmt_dec_inj simp del: int_nat_eq of_nat_unat)
  moreover have "inj_on (lib_f32 sample_library) {x. finite_f32 x}" by (rule inj_onI) (auto simp: sample_library_def finite_f32_def)
  ultimately show "json_library_ok sample_library"
    by (auto simp: json_library_ok_def sample_library_def finite_f32_def split: fl.splits)
  have "inj sample_print" by (auto simp: sample_print_def intro!: injI dest!: fmt_dec_inj)
  moreover have "sample_print j \<noteq> [] \<and> valid_str (sample_print j) \<and> 10 \<notin> set (sample_print j) \<and> 13 \<notin> set (sample_print j)" for j
    using fmt_dec_digits [where n = "to_nat j"] by (fastforce simp: sample_print_def valid_str_def scalar_def)
  ultimately show "printer_ok sample_print" by (auto simp: printer_ok_def intro: inj_on_subset)
qed

text \<open>The compact text of a value, as \<open>serde_json\<close> prints it when it has only integers and its strings need no
  escape but those of the quote and the backslash.\<close>

fun join_comma :: "str list \<Rightarrow> str" where
  "join_comma [] = []"
| "join_comma [x] = x"
| "join_comma (x # y # zs) = x @ asc '','' @ join_comma (y # zs)"

definition quoted :: "str \<Rightarrow> str" where
  "quoted s = [34] @ concat (map (\<lambda>c. if c = 34 \<or> c = 92 then [92, c] else [c]) s) @ [34]"

fun compact_json :: "json \<Rightarrow> str" where
  "compact_json JNull = asc ''null''"
| "compact_json (JInt n) = (if n < 0 then asc ''-'' @ fmt_dec (- n) else fmt_dec n)"
| "compact_json (JReal q) = fmt_dec (floor q)"
| "compact_json (JStr s) = quoted s"
| "compact_json (JArr xs) = asc ''['' @ join_comma (map compact_json xs) @ asc '']''"
| "compact_json (JObj ms) = asc ''{'' @ join_comma (map (\<lambda>(k, v). quoted k @ asc '':'' @ compact_json v) ms) @ asc ''}''"

text \<open>A printer that spells out one form; no other form has its text, since that has a character that
  neither is a digit nor a small letter.\<close>

definition spelled_print :: "json \<Rightarrow> str \<Rightarrow> json \<Rightarrow> str" where
  "spelled_print form t j = (if j = form then t else sample_print j)"

lemma spelled_print_ok:
  assumes "valid_str t" "10 \<notin> set t" "13 \<notin> set t" "c \<in> set t" "c < 48 \<or> 57 < c \<and> c < 97 \<or> 122 < c"
  shows "printer_ok (spelled_print form t)"
proof -
  have "c \<notin> set (sample_print j)" for j using fmt_dec_digits(2) [of c "to_nat j"] assms(5) by (auto simp: sample_print_def)
  with assms(4) have t: "t \<noteq> sample_print j" "sample_print j \<noteq> t" for j by metis+
  have inj: "inj_on sample_print {j. json_ok j}" using sample_library_ok(2) by (simp add: printer_ok_def)
  have "inj_on (spelled_print form t) {j. json_ok j}"
  proof (rule inj_onI)
    fix j k assume "j \<in> {j. json_ok j}" "k \<in> {j. json_ok j}" "spelled_print form t j = spelled_print form t k"
    with t inj show "j = k" by (auto simp: spelled_print_def dest: inj_onD split: if_splits)
  qed
  moreover have "t \<noteq> []" using assms(4) by auto
  ultimately show ?thesis using sample_library_ok(2) assms(1-3) by (auto simp: printer_ok_def spelled_print_def)
qed

definition short_print :: "json \<Rightarrow> json \<Rightarrow> str" where
  "short_print form = spelled_print form (asc ''A'')"

lemma short_print_ok: "printer_ok (short_print form)"
  unfolding short_print_def by (rule spelled_print_ok [where c = 65]) (simp_all add: asc_def valid_str_def scalar_def)

theorem wire_form_is_injective_witness:
  "host_json sample_library toy_request \<noteq> guest_json sample_library toy_evidence \<and>
   guest_json sample_library toy_evidence \<noteq> guest_json sample_library (Response (ResponseErr 1 (new_error_report (asc ''failed'') (asc ''test''))))"
proof -
  let ?other = "Response (ResponseErr 1 (new_error_report (asc ''failed'') (asc ''test'')))"
  have "wire_evidence toy_evidence \<and> wire_evidence ?other" "toy_evidence \<noteq> ?other" by (simp_all add: toy_evidence_def)
  with wire_form_is_injective [OF sample_library_ok(1), of toy_request toy_evidence toy_request ?other] show ?thesis by blast
qed

end
