(* ===== verification/Wire_Direction.thy ===== *)
theory Wire_Direction
  imports Wire_Json_Facts
begin

text \<open>
  The direction of a message. The two directions share one JSON vocabulary, and the peer on the other
  side is not trusted by the host; what keeps evidence from passing for a request are the names that
  the repository gives to the tag \<open>kind\<close> of each variant.
\<close>

section \<open>The tags of the two directions\<close>

lemma host_tag: "tag_of (host_json lib request) = Some (name_json ''request'')"
  by (cases request) (simp add: tag_of_def member_def)

lemma guest_tag:
  "tag_of (guest_json lib evidence) = Some (name_json (case evidence of
     Response r \<Rightarrow> ''response'' | ExecutionReceipt x \<Rightarrow> ''execution_receipt'' | EffectTelemetry t \<Rightarrow> ''effect_telemetry''))"
  by (cases evidence) (simp_all add: tag_of_def member_def)

lemma tags_differ: "tag_of (guest_json lib evidence) \<noteq> tag_of (host_json lib request)"
  unfolding host_tag guest_tag by (cases evidence) (simp_all add: name_json_def asc_def)

lemma evidence_is_no_request:
  assumes "json_library_ok lib" "tagged_decoder (host_json lib) print decode_host"
  shows "\<exists>e. decode_host (print (guest_json lib evidence)) = Inl e"
proof (cases "decode_host (print (guest_json lib evidence))")
  case (Inr request)
  with assms wire_names_ok [OF assms(1)] have "tag_of (guest_json lib evidence) = tag_of (host_json lib request)"
    by (auto simp: tagged_decoder_def)
  with tags_differ show ?thesis by blast
qed simp

text \<open>C34: Evidence of the guest never passes for a request of the host. Every line that the guest side wrote -
  a response, a receipt or telemetry in its JSON form - is refused by the reader of requests as a
  message of the wrong direction, and only this line is taken from the stream. Of the decoder of requests
  nothing is assumed but that it reads the tag as serde documents it; that the tags differ is the
  repository's own doing.\<close>

theorem guest_evidence_is_no_request:
  assumes "jl_max_frame_bytes codec + 1 < usize_max" "json_library_ok lib" "printer_ok print"
    and "tagged_decoder (host_json lib) print decode_host" "decode_guest (print (guest_json lib evidence)) = Inr evidence"
    and "appending_writer writer written" "proper_reader r" "written w' = written w @ sent" "stream r = sent @ rest"
    and "write_guest_to_host (json_formats lib print decode_host decode_guest) codec writer evidence w = (Inr (), w')"
  shows "\<exists>r'. read_host_to_guest (json_formats lib print decode_host decode_guest) codec r =
    Some (Inl (WrongDirection (asc ''host_to_guest'') (asc ''guest_to_host'')), r') \<and> stream r' = rest"
proof -
  let ?formats = "json_formats lib print decode_host decode_guest"
  have reads: "json_reads_back (wf_guest ?formats) evidence" by (rule guest_reads_back [OF assms(2,3), where decode_guest = decode_guest and m = evidence, OF assms(5)])
  have refused: "\<exists>e. jf_decode (wf_host ?formats) line = Inl e"
    if "jf_encode (wf_guest ?formats) evidence = Inr bs" "from_utf8 bs = Some line" for bs line
  proof -
    from that printed_bytes(4) [OF assms(3)] wire_names_ok [OF assms(2)] have "line = print (guest_json lib evidence)"
      by (auto simp: json_formats_def)
    with evidence_is_no_request [OF assms(2,4)] show ?thesis by (simp add: json_formats_def)
  qed
  show ?thesis by (rule guest_frame_refused [OF assms(1) reads refused assms(6,10,7,8,9)])
qed

text \<open>A failed response as it stands on the wire.\<close>

definition failed_line :: str where
  "failed_line = asc ''{\"kind\":\"response\",\"status\":\"err\",\"req_id\":\"0\",\"error\":{\"type\":\"failed\",\"reason\":\"test\",\"next_step\":null}}''"

lemma failed_line: "compact_json (guest_json sample_library toy_evidence) = failed_line"
proof -
  have "lib_uuid sample_library = (\<lambda>u. fmt_dec (int (unat u)))" by (simp add: sample_library_def)
  then have "compact_json (guest_json sample_library toy_evidence) =
      compact_json (guest_json \<lparr>lib_uuid = (\<lambda>u. fmt_dec (int (unat u))), lib_time = (\<lambda>t. []), lib_f32 = (\<lambda>x. JNull)\<rparr> toy_evidence)"
    by (simp add: toy_evidence_def uuid_json_def)
  also have "\<dots> = failed_line" by code_simp
  finally show ?thesis .
qed

lemma failed_line_printed: "printer_ok (spelled_print form failed_line)"
proof -
  have "valid_str failed_line \<and> 10 \<notin> set failed_line \<and> 13 \<notin> set failed_line \<and> 123 \<in> set failed_line" by code_simp
  then show ?thesis by (intro spelled_print_ok [where c = 123]) simp_all
qed

theorem guest_evidence_is_no_request_witness:
  "\<exists>print decode_host decode_guest r'.
     print (guest_json sample_library toy_evidence) = failed_line \<and>
     read_host_to_guest (json_formats sample_library print decode_host decode_guest) default_codec
       \<lparr>rd_buf = encode_utf8 failed_line @ [10], rd_arrivals = []\<rparr> =
       Some (Inl (WrongDirection (asc ''host_to_guest'') (asc ''guest_to_host'')), r') \<and>
     (\<forall>m. decode_host (print (host_json sample_library m)) = Inr m)"
proof -
  define form where "form = guest_json sample_library toy_evidence"
  define print where "print = spelled_print form failed_line"
  let ?line = "encode_utf8 failed_line @ [10]"
  have ok: "printer_ok print" unfolding print_def by (rule failed_line_printed)
  have form: "print form = failed_line" by (simp add: print_def spelled_print_def)
  from decoders_exist [OF sample_library_ok(1) ok]
  obtain decode_host :: "str \<Rightarrow> str + host_to_guest" and decode_guest :: "str \<Rightarrow> str + guest_to_host" where
    d: "\<forall>m. decode_host (print (host_json sample_library m)) = Inr m"
      "\<forall>m. wire_evidence m \<longrightarrow> decode_guest (print (guest_json sample_library m)) = Inr m"
      "tagged_decoder (host_json sample_library) print decode_host" by blast
  have "wire_evidence toy_evidence" by (simp add: toy_evidence_def)
  with d(2) have g: "decode_guest (print (guest_json sample_library toy_evidence)) = Inr toy_evidence" by blast
  have short: "length (encode_utf8 failed_line) \<le> 200" "encode_utf8 failed_line \<noteq> []" by code_simp+
  let ?formats = "json_formats sample_library print decode_host decode_guest"
  have limit: "jl_max_frame_bytes default_codec = 1048576" by (simp add: default_codec_def default_max_frame_bytes_def)
  have w: "write_guest_to_host ?formats default_codec buffer_writer toy_evidence [] = (Inr (), ?line)"
    using short limit form by (simp add: write_guest_to_host_def write_frame_def json_formats_def form_def [symmetric]
        buffer_writer_def io_bind_def io_or_transport_def)
  have r: "proper_reader \<lparr>rd_buf = ?line, rd_arrivals = []\<rparr>" "stream \<lparr>rd_buf = ?line, rd_arrivals = []\<rparr> = ?line @ []"
    by (simp_all add: proper_reader_def stream_def)
  have "jl_max_frame_bytes default_codec + 1 < usize_max" by (simp add: limit usize_max_def)
  from guest_evidence_is_no_request [OF this sample_library_ok(1) ok d(3) g toy_faithful(3) r(1) _ r(2) w]
  have "\<exists>r'. read_host_to_guest ?formats default_codec \<lparr>rd_buf = ?line, rd_arrivals = []\<rparr> =
      Some (Inl (WrongDirection (asc ''host_to_guest'') (asc ''guest_to_host'')), r')" by auto
  with d(1) form show ?thesis unfolding form_def by blast
qed

end
