(* ===== verification/Wire_Answer.thy ===== *)
theory Wire_Answer
  imports Wire_Json_Facts Wire_Connection_Facts Level0_Facts
begin

text \<open>
  From the guest's answer to the host: every answer of the use case has a form on the wire that
  identifies it, and the host that reads the line of the response gets exactly this answer. The
  printer of JSON texts is that of \<open>serde_json\<close>: a parameter with the laws it documents.
\<close>

section \<open>Every answer has a wire form\<close>

lemma parse_run_state_canonical: "parse_run_state s = Inr state \<Longrightarrow> canonical_state state"
  by (auto simp: parse_run_state_def from_char_canonical split: list.splits)

lemma parse_stat_canonical:
  assumes "parse_stat content = Inr st"
  shows "canonical_state (st_state st)"
proof -
  from assms obtain pid comm fs where "stat_fields pid comm fs = Inr st" by (auto simp: parse_stat_def result_iffs)
  then obtain s state where "parse_run_state s = Inr state" "st_state st = state"
    by (fastforce simp: stat_fields_def result_iffs)
  then show ?thesis using parse_run_state_canonical by blast
qed

lemma wire_set_token [simp]: "wire_level0 (set_token t l0) = wire_level0 l0"
  by (simp add: wire_level0_def set_token_def)

lemma build_level0_wire:
  assumes "build_level0 printable json_len pid snapshot st cpu span_ms symbolize w = (Inr l0, w')"
    and "canonical_state (st_state st)" "finite_f32 (cp_pct_cpu cpu)"
  shows "wire_level0 l0"
proof -
  from build_level0_InrD [OF assms(1)] obtain status1 maps1 h low where
    l0: "l0 = set_token (estimate_level0_tokens json_len (make_level0 pid snapshot st status1 maps1 cpu span_ms h low))
      (make_level0 pid snapshot st status1 maps1 cpu span_ms h low)" by blast
  let ?m = "make_level0 pid snapshot st status1 maps1 cpu span_ms h low"
  have "finite_f32 (cf_overall (l0_confidence ?m))"
    using overall_confidence_bounds by (auto simp: make_level0_def finite_f32_def Let_def)
  with assms(2,3) have "wire_level0 ?m" by (simp add: wire_level0_def make_level0_def Let_def)
  then show ?thesis unfolding l0 wire_set_token .
qed

lemma wire_with_failure:
  assumes "wire_level0 l0"
  shows "wire_level0 (with_failure json_len failure l0)"
proof (cases failure)
  case (Some reason)
  have "\<exists>r. cf_overall (l0_confidence (record_symbolizer_degradation json_len reason l0)) = Fin r"
    using overall_confidence_bounds by (fastforce simp: record_symbolizer_degradation_def set_token_def Let_def)
  with assms Some show ?thesis
    by (simp add: with_failure_def wire_level0_def finite_f32_def)
      (simp add: record_symbolizer_degradation_def set_token_def Let_def)
qed (use assms in \<open>simp add: with_failure_def\<close>)

lemma answer_is_wire_level0:
  assumes "assemble_default_introspection printable json_len pid source clock interval spawn_worker w = (Inr l0, w')"
  shows "wire_level0 l0"
proof -
  from assemble_InrD [OF assms] obtain spawned w1 base w2 where
    base: "introspect_from_ports printable json_len source (worker_symbolizer spawned) clock interval pid w1 = (Inr base, w2)"
    and l0: "l0 = with_failure json_len (worker_failure spawned w2) base" by blast
  from introspect_from_ports_InrD [OF base] obtain snapshot st cpu span_ms end1 u4 where
    st: "parse_stat (sn_stat snapshot) = Inr st"
    and cpu: "cpu = calculate_cpu_percent \<lparr>cc_process_ticks = st_process_ticks st, cc_system_ticks = sn_system_cpu_ticks snapshot,
      cc_process_start_time_ticks = st_process_start_time_ticks st\<rparr> end1 (sn_logical_cpus snapshot)"
    and b: "build_level0 printable json_len pid snapshot st cpu span_ms (worker_symbolizer spawned) u4 = (Inr base, w2)" by blast
  have "finite_f32 (cp_pct_cpu cpu)" using cpu_sample_value by (fastforce simp: cpu finite_f32_def)
  with build_level0_wire [OF b parse_stat_canonical [OF st]] wire_with_failure show ?thesis by (simp add: l0)
qed

section \<open>Every answer reaches the host\<close>

definition response_message :: "uuid \<Rightarrow> level0 \<Rightarrow> guest_to_host" where
  "response_message req_id l0 = Response (ResponseOk req_id (IntrospectBody l0))"

text \<open>C18: The guest's answer reaches the host unchanged. Whatever the use case assembles, the guest's
  send of its response puts one line on the stream - the JSON form of the response, within the frame
  limit - and leaves its connection open; and a host that has this line to read returns exactly this
  request id and this \<open>Level0\<close>, and keeps what follows the line for its next call.\<close>

theorem answers_reach_the_host:
  assumes "assemble_default_introspection printable json_len pid source clock interval spawn_worker w = (Inr l0, w')"
    and "json_library_ok lib" "printer_ok print"
    and "\<And>m. wire_evidence m \<Longrightarrow> decode_guest (print (guest_json lib m)) = Inr m"
    and "length (encode_utf8 (print (guest_json lib (response_message req_id l0)))) \<le> default_max_frame_bytes"
    and "reliable_writer writer written" "ready guest unread"
    and "ready host (encode_utf8 (print (guest_json lib (response_message req_id l0))) @ 10 # rest)"
  shows "\<exists>guest'. ge_send (guest_vsock_endpoint (json_formats lib print decode_host decode_guest) writer)
      (response_message req_id l0) guest = Some (Inr (), guest') \<and> ready guest' unread \<and>
    written (cn_peer guest') =
      written (cn_peer guest) @ encode_utf8 (print (guest_json lib (response_message req_id l0))) @ [10] \<and>
    (\<exists>host'. he_recv (host_vsock_endpoint (json_formats lib print decode_host decode_guest) writer) host =
      Some (Inr (response_message req_id l0), host') \<and> ready host' rest)"
proof -
  let ?m = "response_message req_id l0" and ?formats = "json_formats lib print decode_host decode_guest"
  have "wire_evidence ?m" using answer_is_wire_level0 [OF assms(1)] by (simp add: response_message_def)
  then have "decode_guest (print (guest_json lib ?m)) = Inr ?m" by (rule assms(4))
  from guest_reads_back [OF assms(2,3), where decode_guest = decode_guest and m = ?m, OF this] assms(5)
  have d: "deliverable (wf_guest ?formats) ?m (encode_utf8 (print (guest_json lib ?m)))"
    by (simp add: deliverable_def json_formats_def)
  from guest_sends [OF d assms(7,6)] host_receives [OF d assms(8)] show ?thesis by blast
qed

theorem answers_reach_the_host_witness:
  "\<exists>l0 n lib print decode_host decode_guest guest' host'. assembled_run = (Inr l0, n) \<and>
     ge_send (guest_vsock_endpoint (json_formats lib print decode_host decode_guest) buffer_writer) (response_message 7 l0)
       (new_connection default_max_frame_bytes \<lparr>rd_buf = [], rd_arrivals = []\<rparr> []) = Some (Inr (), guest') \<and>
     he_recv (host_vsock_endpoint (json_formats lib print decode_host decode_guest) buffer_writer)
       (new_connection default_max_frame_bytes \<lparr>rd_buf = cn_peer guest', rd_arrivals = []\<rparr> []) =
         Some (Inr (response_message 7 l0), host') \<and> stream (cn_reader host') = []"
proof -
  obtain l0 n where r: "assembled_run = (Inr l0, n)" using assembled_run_ok by blast
  define form where "form = guest_json sample_library (response_message 7 l0)"
  let ?line = "encode_utf8 (short_print form form)"
  let ?c = "\<lambda>bs. new_connection default_max_frame_bytes \<lparr>rd_buf = bs, rd_arrivals = []\<rparr> ([] :: bytes)"
  obtain decode_guest :: "str \<Rightarrow> str + guest_to_host" where
    "\<forall>m. wire_evidence m \<longrightarrow> decode_guest (short_print form (guest_json sample_library m)) = Inr m"
    using decoders_exist [OF sample_library_ok(1) short_print_ok [of form]]
    by blast
  then have decoders: "\<And>m. wire_evidence m \<Longrightarrow> decode_guest (short_print form (guest_json sample_library m)) = Inr m" by blast
  have line: "?line = [65]" by (simp add: short_print_def spelled_print_def encode_utf8_def encode_char_def asc_def byte_of_def)
  have w: "reliable_writer buffer_writer (\<lambda>w. w)" by (simp add: reliable_writer_def buffer_writer_def)
  have ready: "ready (?c bs) bs" for bs
    using ready_new [of "\<lparr>rd_buf = bs, rd_arrivals = []\<rparr>"] by (simp add: proper_reader_def stream_def)
  have "length ?line \<le> default_max_frame_bytes" by (simp add: line default_max_frame_bytes_def)
  with answers_reach_the_host [where lib = sample_library and print = "short_print form" and req_id = 7 and
      decode_host = "\<lambda>_. Inl []" and decode_guest = decode_guest and writer = buffer_writer and written = "\<lambda>w. w" and
      guest = "?c []" and unread = "[]" and host = "?c (?line @ [10])" and rest = "[]",
      OF r [unfolded assembled_run_def] sample_library_ok(1) short_print_ok decoders _ w ready, folded form_def] ready
  obtain guest' host' where "ge_send (guest_vsock_endpoint (json_formats sample_library (short_print form) (\<lambda>_. Inl []) decode_guest) buffer_writer)
      (response_message 7 l0) (?c []) = Some (Inr (), guest')" "cn_peer guest' = ?line @ [10]"
    "he_recv (host_vsock_endpoint (json_formats sample_library (short_print form) (\<lambda>_. Inl []) decode_guest) buffer_writer)
      (?c (?line @ [10])) = Some (Inr (response_message 7 l0), host')" "ready host' []"
    by (auto simp: new_connection_def)
  with r show ?thesis by (intro exI conjI) (auto simp: ready_def)
qed

end
