(* ===== verification/Worker_Start.thy ===== *)
theory Worker_Start
  imports Worker Fovea_Prelude
begin

text \<open>
  How the worker is started (\<open>spawn_worker_with_shutdown_probe\<close> of \<open>symbolize.rs\<close>): the caller and
  the new thread interleaved, with the one-place channel \<open>initialized\<close> between them. The thread builds
  its backend, says how that went and enters \<open>worker_loop\<close>, whose steps are those of \<open>Worker\<close>; the
  caller waits for what it says, and on a failure joins the thread before it returns.
\<close>

section \<open>The two threads\<close>

text \<open>\<open>Releasing u\<close>: the closure returns (or unwinds, \<open>u\<close>) and drops its sender; then the thread ends.\<close>

datatype start_pc =
    NotStarted
  | Building
  | MarkingStopped symbolize_error
  | ReportingError symbolize_error
  | MarkingPanicked
  | Announcing
  | Withdrawing
  | Looping
  | Releasing bool
  | Closing bool
  | Ended bool

datatype spawner_pc = Spawning | AwaitingInit | Joining symbolize_error | SpawnDone "symbolize_error + unit"

record start_sys =
  ss_thread :: start_pc
  ss_spawner :: spawner_pc
  ss_initialized :: "(symbolize_error + unit) option"
  ss_sender :: bool
  ss_worker :: worker_sys

definition initial_start :: start_sys where
  "initial_start = \<lparr>ss_thread = NotStarted, ss_spawner = Spawning, ss_initialized = None, ss_sender = True,
     ss_worker = initial_sys\<rparr>"

text \<open>The caller's receiver lives until the call returns.\<close>

definition spawn_done :: "start_sys \<Rightarrow> bool" where
  "spawn_done s = (case ss_spawner s of SpawnDone r \<Rightarrow> True | _ \<Rightarrow> False)"

definition set_lifecycle :: "(worker_state \<Rightarrow> worker_state) \<Rightarrow> start_sys \<Rightarrow> start_sys" where
  "set_lifecycle f s = s\<lparr>ss_worker := (ss_worker s)\<lparr>wk_state := f (wk_state (ss_worker s))\<rparr>\<rparr>"

text \<open>\<open>send\<close> on \<open>initialized\<close>: refused when the receiver is gone.\<close>

definition send_initialized :: "symbolize_error + unit \<Rightarrow> start_sys \<Rightarrow> start_sys option" where
  "send_initialized r s = (if spawn_done s then None else Some (s\<lparr>ss_initialized := Some r\<rparr>))"

definition loop_step :: "backend \<Rightarrow> start_sys \<Rightarrow> start_sys" where
  "loop_step backend s =
     (case wk_pc (ss_worker s) of
        Exited unwound \<Rightarrow> s\<lparr>ss_thread := Releasing unwound\<rparr>
      | _ \<Rightarrow> s\<lparr>ss_worker := worker_step backend (ss_worker s)\<rparr>)"

text \<open>A step of the thread; \<open>None\<close> before it exists and after it has ended.\<close>

fun thread_step_at :: "factory_outcome \<Rightarrow> backend \<Rightarrow> start_pc \<Rightarrow> start_sys \<Rightarrow> start_sys option" where
  "thread_step_at factory backend NotStarted s = None"
| "thread_step_at factory backend Building s = Some (s\<lparr>ss_thread :=
     (case factory of FactoryOk \<Rightarrow> Announcing | FactoryErr e \<Rightarrow> MarkingStopped e | FactoryPanic \<Rightarrow> MarkingPanicked)\<rparr>)"
| "thread_step_at factory backend (MarkingStopped e) s = Some ((set_lifecycle mark_stopped s)\<lparr>ss_thread := ReportingError e\<rparr>)"
| "thread_step_at factory backend (ReportingError e) s = Some (
     (case send_initialized (Inl e) s of None \<Rightarrow> s | Some s' \<Rightarrow> s')\<lparr>ss_thread := Releasing False\<rparr>)"
| "thread_step_at factory backend MarkingPanicked s = Some ((set_lifecycle mark_panicked s)\<lparr>ss_thread := Releasing True\<rparr>)"
| "thread_step_at factory backend Announcing s = Some (
     (case send_initialized (Inr ()) s of
        None \<Rightarrow> s\<lparr>ss_thread := Withdrawing\<rparr>
      | Some s' \<Rightarrow> s'\<lparr>ss_thread := Looping\<rparr>))"
| "thread_step_at factory backend Withdrawing s = Some ((set_lifecycle mark_stopped s)\<lparr>ss_thread := Releasing False\<rparr>)"
| "thread_step_at factory backend Looping s = Some (loop_step backend s)"
| "thread_step_at factory backend (Releasing unwound) s = Some (s\<lparr>ss_sender := False, ss_thread := Closing unwound\<rparr>)"
| "thread_step_at factory backend (Closing unwound) s = Some (s\<lparr>ss_thread := Ended unwound\<rparr>)"
| "thread_step_at factory backend (Ended unwound) s = None"

definition thread_step :: "factory_outcome \<Rightarrow> backend \<Rightarrow> start_sys \<Rightarrow> start_sys option" where
  "thread_step factory backend s = thread_step_at factory backend (ss_thread s) s"

text \<open>A step of the caller: it spawns, waits on \<open>initialized_rx.recv()\<close>, joins.\<close>

definition recv_initialized :: "start_sys \<Rightarrow> start_sys option" where
  "recv_initialized s =
     (case ss_initialized s of
        Some (Inr u) \<Rightarrow> Some (s\<lparr>ss_initialized := None, ss_spawner := SpawnDone (Inr u)\<rparr>)
      | Some (Inl e) \<Rightarrow> Some (s\<lparr>ss_initialized := None, ss_spawner := Joining e\<rparr>)
      | None \<Rightarrow> if ss_sender s then None else Some (s\<lparr>ss_spawner := Joining WorkerPanic\<rparr>))"

fun spawner_step_at :: "str + unit \<Rightarrow> spawner_pc \<Rightarrow> start_sys \<Rightarrow> start_sys option" where
  "spawner_step_at (Inl reason) Spawning s = Some (s\<lparr>ss_spawner := SpawnDone (Inl (Backend reason))\<rparr>)"
| "spawner_step_at (Inr u) Spawning s = Some (s\<lparr>ss_thread := Building, ss_spawner := AwaitingInit\<rparr>)"
| "spawner_step_at thread_spawn AwaitingInit s = recv_initialized s"
| "spawner_step_at thread_spawn (Joining e) s =
     (case ss_thread s of Ended unwound \<Rightarrow> Some (s\<lparr>ss_spawner := SpawnDone (Inl e)\<rparr>) | _ \<Rightarrow> None)"
| "spawner_step_at thread_spawn (SpawnDone r) s = None"

definition spawner_step :: "str + unit \<Rightarrow> start_sys \<Rightarrow> start_sys option" where
  "spawner_step thread_spawn s = spawner_step_at thread_spawn (ss_spawner s) s"

inductive start_step :: "str + unit \<Rightarrow> factory_outcome \<Rightarrow> backend \<Rightarrow> start_sys \<Rightarrow> start_sys \<Rightarrow> bool"
  for thread_spawn factory backend where
  thread_moves: "thread_step factory backend s = Some s' \<Longrightarrow> start_step thread_spawn factory backend s s'"
| spawner_moves: "spawner_step thread_spawn s = Some s' \<Longrightarrow> start_step thread_spawn factory backend s s'"

definition starting :: "str + unit \<Rightarrow> factory_outcome \<Rightarrow> backend \<Rightarrow> start_sys \<Rightarrow> bool" where
  "starting thread_spawn factory backend s \<longleftrightarrow> (start_step thread_spawn factory backend)\<^sup>*\<^sup>* initial_start s"

text \<open>A schedule that can be run: who moves next.\<close>

fun start_schedule :: "str + unit \<Rightarrow> factory_outcome \<Rightarrow> backend \<Rightarrow> bool list \<Rightarrow> start_sys \<Rightarrow> start_sys option" where
  "start_schedule thread_spawn factory backend [] s = Some s"
| "start_schedule thread_spawn factory backend (thread # moves) s =
     (case (if thread then thread_step factory backend s else spawner_step thread_spawn s) of
        None \<Rightarrow> None
      | Some s' \<Rightarrow> start_schedule thread_spawn factory backend moves s')"

end
