(* ===== verification/Worker_Start_Facts.thy ===== *)
theory Worker_Start_Facts
  imports Worker_Start Worker_Facts
begin

text \<open>
  The start of the worker does what \<open>spawn_worker\<close> of \<open>Worker\<close> says of it in one line: whatever the
  interleaving, the caller gets the client and the handle of a running worker, or the error with the
  thread already joined; and it always gets one of them.
\<close>

section \<open>The invariant\<close>

definition stopped_with :: "worker_state \<Rightarrow> worker_sys" where
  "stopped_with st = initial_sys\<lparr>wk_state := st\<rparr>"

definition only_looped :: "backend \<Rightarrow> worker_sys \<Rightarrow> bool" where
  "only_looped backend w \<longleftrightarrow> (\<exists>n. w = (worker_step backend ^^ n) initial_sys)"

text \<open>How far the caller is when the thread has announced itself, and when it has failed.\<close>

definition announced :: "start_sys \<Rightarrow> bool" where
  "announced s \<longleftrightarrow> ss_spawner s = AwaitingInit \<and> ss_initialized s = Some (Inr ()) \<or>
     ss_spawner s = SpawnDone (Inr ()) \<and> ss_initialized s = None"

definition awaited :: "start_sys \<Rightarrow> bool" where
  "awaited s \<longleftrightarrow> ss_spawner s = AwaitingInit \<and> ss_initialized s = None \<and> ss_sender s"

fun failed :: "factory_outcome \<Rightarrow> bool \<Rightarrow> bool \<Rightarrow> start_sys \<Rightarrow> bool" where
  "failed (FactoryErr e) unwound ended s \<longleftrightarrow>
     \<not> unwound \<and> ss_worker s = stopped_with Stopped \<and>
     (ss_spawner s = AwaitingInit \<and> ss_initialized s = Some (Inl e) \<or>
      ss_initialized s = None \<and> (ss_spawner s = Joining e \<or> ended \<and> ss_spawner s = SpawnDone (Inl e)))"
| "failed FactoryPanic unwound ended s \<longleftrightarrow>
     unwound \<and> ss_worker s = stopped_with Panicked \<and> ss_initialized s = None \<and>
     (ss_spawner s = AwaitingInit \<or> \<not> ss_sender s \<and> ss_spawner s = Joining WorkerPanic \<or>
      ended \<and> ss_spawner s = SpawnDone (Inl WorkerPanic))"
| "failed FactoryOk unwound ended s \<longleftrightarrow> announced s"

definition quiet_start :: "start_sys \<Rightarrow> bool" where
  "quiet_start s \<longleftrightarrow> awaited s \<and> ss_worker s = initial_sys"

fun phase_ok :: "str + unit \<Rightarrow> factory_outcome \<Rightarrow> backend \<Rightarrow> start_pc \<Rightarrow> start_sys \<Rightarrow> bool" where
  "phase_ok thread_spawn factory backend NotStarted s \<longleftrightarrow>
     ss_initialized s = None \<and> ss_sender s \<and> ss_worker s = initial_sys \<and>
     (ss_spawner s = Spawning \<or> (\<exists>reason. thread_spawn = Inl reason \<and> ss_spawner s = SpawnDone (Inl (Backend reason))))"
| "phase_ok thread_spawn factory backend Building s \<longleftrightarrow> thread_spawn = Inr () \<and> quiet_start s"
| "phase_ok thread_spawn factory backend (MarkingStopped e) s \<longleftrightarrow> thread_spawn = Inr () \<and> quiet_start s \<and> factory = FactoryErr e"
| "phase_ok thread_spawn factory backend (ReportingError e) s \<longleftrightarrow>
     thread_spawn = Inr () \<and> awaited s \<and> ss_worker s = stopped_with Stopped \<and> factory = FactoryErr e"
| "phase_ok thread_spawn factory backend MarkingPanicked s \<longleftrightarrow> thread_spawn = Inr () \<and> quiet_start s \<and> factory = FactoryPanic"
| "phase_ok thread_spawn factory backend Announcing s \<longleftrightarrow> thread_spawn = Inr () \<and> quiet_start s \<and> factory = FactoryOk"
| "phase_ok thread_spawn factory backend Withdrawing s \<longleftrightarrow> False"
| "phase_ok thread_spawn factory backend Looping s \<longleftrightarrow>
     thread_spawn = Inr () \<and> announced s \<and> ss_sender s \<and> only_looped backend (ss_worker s) \<and> factory = FactoryOk"
| "phase_ok thread_spawn factory backend (Releasing u) s \<longleftrightarrow>
     thread_spawn = Inr () \<and> ss_sender s \<and> failed factory u False s \<and> (factory = FactoryOk \<longrightarrow> only_looped backend (ss_worker s))"
| "phase_ok thread_spawn factory backend (Closing u) s \<longleftrightarrow>
     thread_spawn = Inr () \<and> \<not> ss_sender s \<and> failed factory u False s \<and> (factory = FactoryOk \<longrightarrow> only_looped backend (ss_worker s))"
| "phase_ok thread_spawn factory backend (Ended u) s \<longleftrightarrow>
     thread_spawn = Inr () \<and> \<not> ss_sender s \<and> failed factory u True s \<and> (factory = FactoryOk \<longrightarrow> only_looped backend (ss_worker s))"

definition start_ok :: "str + unit \<Rightarrow> factory_outcome \<Rightarrow> backend \<Rightarrow> start_sys \<Rightarrow> bool" where
  "start_ok thread_spawn factory backend s \<longleftrightarrow> phase_ok thread_spawn factory backend (ss_thread s) s"

lemmas start_defs = start_ok_def announced_def awaited_def quiet_start_def set_lifecycle_def send_initialized_def
  spawn_done_def stopped_with_def mark_stopped_def mark_panicked_def

lemma only_looped_step: "only_looped backend w \<Longrightarrow> only_looped backend (worker_step backend w)"
  unfolding only_looped_def by (elim exE, rule_tac x = "Suc n" in exI) simp

lemma only_looped_init [simp]: "only_looped backend initial_sys"
  unfolding only_looped_def by (rule exI [of _ 0]) simp

lemma initial_sys_state [simp]: "wk_state initial_sys = Running"
  by (simp add: initial_sys_def)

lemma start_ok_loop:
  "phase_ok thread_spawn factory backend Looping s \<Longrightarrow> ss_thread s = Looping \<Longrightarrow>
     start_ok thread_spawn factory backend (loop_step backend s)"
  by (cases "wk_pc (ss_worker s)") (auto simp: loop_step_def start_ok_def announced_def dest: only_looped_step)

lemma start_ok_thread:
  assumes "thread_step factory backend s = Some s'" "start_ok thread_spawn factory backend s"
  shows "start_ok thread_spawn factory backend s'"
proof (cases "ss_thread s")
  case Building
  with assms show ?thesis by (cases factory) (auto simp: thread_step_def start_defs)
next
  case (Releasing u)
  with assms show ?thesis by (cases factory) (auto simp: thread_step_def start_defs)
next
  case (Closing u)
  with assms show ?thesis by (cases factory) (auto simp: thread_step_def start_defs)
qed (use assms start_ok_loop in \<open>auto simp: thread_step_def start_defs split: option.splits\<close>)

lemma start_ok_spawner:
  assumes "spawner_step thread_spawn s = Some s'" "start_ok thread_spawn factory backend s"
  shows "start_ok thread_spawn factory backend s'"
proof (cases "ss_spawner s")
  case Spawning
  with assms show ?thesis
    by (cases "ss_thread s"; cases thread_spawn; cases factory) (auto simp: spawner_step_def start_defs)
next
  case AwaitingInit
  with assms show ?thesis
    by (cases "ss_thread s"; cases factory) (auto simp: spawner_step_def recv_initialized_def start_defs)
next
  case (Joining e)
  with assms show ?thesis
    by (cases "ss_thread s"; cases factory) (auto simp: spawner_step_def start_defs)
qed (use assms in \<open>simp add: spawner_step_def\<close>)

lemma starting_ok:
  assumes "starting thread_spawn factory backend s"
  shows "start_ok thread_spawn factory backend s"
proof -
  have "(start_step thread_spawn factory backend)\<^sup>*\<^sup>* initial_start s" using assms by (simp add: starting_def)
  then show ?thesis
  proof (induction rule: rtranclp_induct)
    case base
    show ?case by (simp add: start_ok_def initial_start_def)
  next
    case (step t u)
    from step.hyps(2) step.IH show ?case by cases (auto intro: start_ok_thread start_ok_spawner)
  qed
qed

lemma start_schedule_starting:
  "start_schedule thread_spawn factory backend moves s = Some s' \<Longrightarrow> starting thread_spawn factory backend s \<Longrightarrow>
     starting thread_spawn factory backend s'"
proof (induction moves arbitrary: s)
  case (Cons thread moves)
  from Cons.prems(1) obtain t where t: "(if thread then thread_step factory backend s else spawner_step thread_spawn s) = Some t"
    "start_schedule thread_spawn factory backend moves t = Some s'" by (auto split: option.splits)
  from t(1) have "start_step thread_spawn factory backend s t" by (auto intro: start_step.intros split: if_splits)
  with Cons.prems(2) have "starting thread_spawn factory backend t" by (simp add: starting_def)
  with Cons.IH t(2) show ?case by blast
qed simp

lemma starting_init [simp]: "starting thread_spawn factory backend initial_start"
  by (simp add: starting_def)

lemma only_looped_reachable:
  assumes "only_looped backend w"
  shows "reachable capacity backend w"
proof -
  have "reachable capacity backend ((worker_step backend ^^ n) initial_sys)" for n
    by (induction n) (auto simp: reachable_def intro: rtranclp.rtrancl_into_rtrancl sys_step.worker)
  with assms show ?thesis by (auto simp: only_looped_def)
qed

section \<open>Properties\<close>

text \<open>C11: The start is \<open>spawn_worker\<close>. When the call returns, it returns what the one-line definition says;
  with a client and a handle, the worker is in a state that the interleavings of \<open>Worker\<close> reach, so
  that everything proved of them holds of it; with an error, no thread was started or the thread has
  ended, and its lifecycle then is a final one.\<close>

theorem start_is_spawn_worker:
  assumes "starting thread_spawn factory backend s" "ss_spawner s = SpawnDone r"
  shows "case spawn_worker thread_spawn factory of
      Inr w \<Rightarrow> r = Inr () \<and> reachable capacity backend (ss_worker s)
    | Inl e \<Rightarrow> r = Inl e \<and> (ss_thread s = NotStarted \<or>
        (\<exists>unwound. ss_thread s = Ended unwound) \<and> terminal_error (wk_state (ss_worker s)) \<noteq> None)"
  using starting_ok [OF assms(1)] assms(2) only_looped_reachable
  by (cases "ss_thread s"; cases factory) (auto simp: start_defs spawn_worker_def rbind_def terminal_error_def)

text \<open>A factory that fails while the caller waits, and one that panics.\<close>

lemma failing_start:
  "\<exists>s. start_schedule (Inr ()) (FactoryErr NoSymbolFile) (\<lambda>_ _. None) [False, True, True, True, False, True, True, False] initial_start = Some s \<and>
     ss_spawner s = SpawnDone (Inl NoSymbolFile) \<and> ss_thread s = Ended False"
  by (simp add: start_schedule.simps spawner_step_def thread_step_def recv_initialized_def start_defs initial_start_def)

theorem start_is_spawn_worker_witness:
  "\<exists>s. ss_spawner s = SpawnDone (Inl NoSymbolFile) \<and> starting (Inr ()) (FactoryErr NoSymbolFile) (\<lambda>_ _. None) s \<and>
     (ss_thread s = NotStarted \<or> (\<exists>unwound. ss_thread s = Ended unwound) \<and> terminal_error (wk_state (ss_worker s)) \<noteq> None)"
proof -
  obtain s where s: "starting (Inr ()) (FactoryErr NoSymbolFile) (\<lambda>_ _. None) s" "ss_spawner s = SpawnDone (Inl NoSymbolFile)"
    using failing_start start_schedule_starting starting_init by blast
  from start_is_spawn_worker [OF this, where capacity = 1] s show ?thesis by (auto simp: spawn_worker_def)
qed

text \<open>What the thread says is always heard: it sends into an empty channel whose receiver is alive, so
  its send neither blocks nor fails, and it never withdraws.\<close>

theorem start_is_always_heard:
  assumes "starting thread_spawn factory backend s"
  shows "ss_thread s \<noteq> Withdrawing \<and>
    (ss_thread s = Announcing \<or> (\<exists>e. ss_thread s = ReportingError e) \<longrightarrow>
      ss_initialized s = None \<and> send_initialized r s = Some (s\<lparr>ss_initialized := Some r\<rparr>))"
  using starting_ok [OF assms] by (cases "ss_thread s") (auto simp: start_defs)

theorem start_is_always_heard_witness:
  "\<exists>s. starting (Inr ()) FactoryOk (\<lambda>_ _. None) s \<and> ss_thread s = Announcing \<and> ss_initialized s = None"
proof -
  have "\<exists>s. start_schedule (Inr ()) FactoryOk (\<lambda>_ _. None) [False, True] initial_start = Some s \<and> ss_thread s = Announcing"
    by (simp add: spawner_step_def thread_step_def initial_start_def)
  then obtain s where "starting (Inr ()) FactoryOk (\<lambda>_ _. None) s" "ss_thread s = Announcing"
    using start_schedule_starting starting_init by blast
  with start_is_always_heard [OF this(1)] show ?thesis by blast
qed

text \<open>How much is left of the start.\<close>

fun thread_work :: "start_pc \<Rightarrow> nat" where
  "thread_work NotStarted = 0"
| "thread_work Building = 6"
| "thread_work (MarkingStopped e) = 5"
| "thread_work (ReportingError e) = 4"
| "thread_work MarkingPanicked = 4"
| "thread_work Announcing = 4"
| "thread_work Withdrawing = 3"
| "thread_work Looping = 3"
| "thread_work (Releasing u) = 2"
| "thread_work (Closing u) = 1"
| "thread_work (Ended u) = 0"

fun spawner_work :: "spawner_pc \<Rightarrow> nat" where
  "spawner_work Spawning = 10"
| "spawner_work AwaitingInit = 2"
| "spawner_work (Joining e) = 1"
| "spawner_work (SpawnDone r) = 0"

definition start_work :: "start_sys \<Rightarrow> nat" where
  "start_work s = thread_work (ss_thread s) + spawner_work (ss_spawner s)"

lemma thread_step_work:
  assumes "thread_step factory backend s = Some s'"
  shows "start_work s' < start_work s \<or> ss_thread s = Looping"
  using assms by (cases "ss_thread s") (auto simp: thread_step_def start_work_def start_defs split: factory_outcome.splits if_splits)

lemma spawner_step_work:
  assumes "spawner_step thread_spawn s = Some s'" "start_ok thread_spawn factory backend s"
  shows "start_work s' < start_work s"
proof (cases "ss_spawner s")
  case Spawning
  with assms show ?thesis
    by (cases thread_spawn; cases "ss_thread s"; cases factory) (auto simp: spawner_step_def start_work_def start_defs)
next
  case AwaitingInit
  with assms(1) show ?thesis
    by (auto simp: spawner_step_def recv_initialized_def start_work_def split: option.splits sum.splits if_splits)
qed (use assms(1) in \<open>auto simp: spawner_step_def start_work_def split: start_pc.splits\<close>)

text \<open>C12: The start always returns: while it has not, the caller can move, or the thread can make a step of
  the start; every such step brings the end nearer, and the thread runs its loop while the caller has
  not returned only when the caller can take the announcement at once.\<close>

theorem start_always_returns:
  assumes "starting thread_spawn factory backend s" "\<not> spawn_done s"
  shows "(\<exists>s'. spawner_step thread_spawn s = Some s' \<or> thread_step factory backend s = Some s' \<and> ss_thread s \<noteq> Looping) \<and>
    (\<forall>s'. start_step thread_spawn factory backend s s' \<longrightarrow>
      start_work s' < start_work s \<or> ss_thread s = Looping \<and> spawner_step thread_spawn s \<noteq> None)"
proof -
  note ok = starting_ok [OF assms(1)]
  have can: "spawner_step thread_spawn s \<noteq> None \<or> thread_step factory backend s \<noteq> None \<and> ss_thread s \<noteq> Looping"
    using ok assms(2)
    by (cases "ss_thread s"; cases factory; cases thread_spawn)
      (auto simp: start_defs spawner_step_def thread_step_def recv_initialized_def)
  moreover have "start_work s' < start_work s \<or> ss_thread s = Looping \<and> spawner_step thread_spawn s \<noteq> None"
    if "start_step thread_spawn factory backend s s'" for s'
    using that
  proof cases
    case thread_moves
    from thread_step_work [OF this] can show ?thesis by blast
  next
    case spawner_moves
    from spawner_step_work [OF this ok] show ?thesis ..
  qed
  ultimately show ?thesis by blast
qed

theorem start_always_returns_witness:
  "\<exists>s'. spawner_step (Inr ()) initial_start = Some s' \<or> thread_step FactoryPanic (\<lambda>_ _. None) initial_start = Some s'"
proof -
  have "\<not> spawn_done initial_start" by (simp add: spawn_done_def initial_start_def)
  from start_always_returns [OF starting_init this, of "Inr ()" FactoryPanic "\<lambda>_ _. None"] show ?thesis by blast
qed

end
