(* ===== verification/Host_Audit.thy ===== *)
theory Host_Audit
  imports Wire_Model Interfaces "HOL-Library.Sublist"
begin

text \<open>
  The authority of the host (\<open>host-supervisor/src/audit.rs\<close> and \<open>gate.rs\<close>): the decision to
  dispatch, the intent and outcome records, and the in-memory audit sink with its two streams
  behind two mutexes. A lock is poisoned when a holder panicked; the time of an append is a
  parameter.
\<close>

section \<open>Gates and decisions\<close>

datatype gate_decision = GateAllow | PendingHuman | GateDeny str

datatype gate_kind = GateIntervention | GateLkmParam

definition lkm_param_gate :: "gate_kind \<Rightarrow> gate_decision" where
  "lkm_param_gate kind = GateAllow"

datatype budget_decision = BudgetAllow | BudgetDeny str

datatype dispatch_decision = Dispatch | DoNotDispatch

definition from_decisions :: "budget_decision \<Rightarrow> gate_decision \<Rightarrow> dispatch_decision" where
  "from_decisions budget gate = (if budget = BudgetAllow \<and> gate = GateAllow then Dispatch else DoNotDispatch)"

section \<open>Records\<close>

record new_intent_record =
  ni_request_id :: uuid
  ni_request :: request_body
  ni_side_effect :: side_effect
  ni_budget :: budget_decision
  ni_gate :: gate_decision
  ni_dispatch :: dispatch_decision

definition from_request :: "wire_request \<Rightarrow> budget_decision \<Rightarrow> gate_decision \<Rightarrow> new_intent_record" where
  "from_request request budget gate =
     \<lparr>ni_request_id = wr_id request, ni_request = wr_body request, ni_side_effect = side_effect_of (wr_body request),
      ni_budget = budget, ni_gate = gate, ni_dispatch = from_decisions budget gate\<rparr>"

record intent_audit_record =
  ia_seq :: u64
  ia_ts :: timestamp
  ia_request_id :: uuid
  ia_request :: request_body
  ia_side_effect :: side_effect
  ia_budget :: budget_decision
  ia_gate :: gate_decision
  ia_dispatch :: dispatch_decision

datatype host_outcome = TransportFailure transport_error | ProtocolCorrelationFailure uuid uuid

record host_outcome_record =
  ho_request_id :: uuid
  ho_ts :: timestamp
  ho_outcome :: host_outcome

section \<open>The in-memory sink\<close>

datatype audit_sink_error = WriteFailed str | Poisoned str | SequenceExhausted str

record audit_sink =
  as_intents :: "intent_audit_record list"
  as_intents_poisoned :: bool
  as_outcomes :: "(u64 \<times> host_outcome_record) list"
  as_outcomes_poisoned :: bool

definition new_sink :: audit_sink where
  "new_sink = \<lparr>as_intents = [], as_intents_poisoned = False, as_outcomes = [], as_outcomes_poisoned = False\<rparr>"

definition audit_lock :: "bool \<Rightarrow> string \<Rightarrow> audit_sink_error + unit" where
  "audit_lock poisoned stream_name = (if poisoned then Inl (Poisoned (asc stream_name)) else Inr ())"

definition intent_snapshot :: "audit_sink \<Rightarrow> audit_sink_error + intent_audit_record list" where
  "intent_snapshot s = rbind (audit_lock (as_intents_poisoned s) ''intent'') (\<lambda>_. Inr (as_intents s))"

definition outcome_snapshot :: "audit_sink \<Rightarrow> audit_sink_error + (u64 \<times> host_outcome_record) list" where
  "outcome_snapshot s = rbind (audit_lock (as_outcomes_poisoned s) ''outcome'') (\<lambda>_. Inr (as_outcomes s))"

definition next_sequence :: "nat \<Rightarrow> string \<Rightarrow> audit_sink_error + u64" where
  "next_sequence len stream_name =
     ok_or (SequenceExhausted (asc stream_name)) (if len < 2 ^ 64 then checked_add (of_nat len) 1 else None)"

definition sequence_intent :: "u64 \<Rightarrow> timestamp \<Rightarrow> new_intent_record \<Rightarrow> intent_audit_record" where
  "sequence_intent seq now r =
     \<lparr>ia_seq = seq, ia_ts = now, ia_request_id = ni_request_id r, ia_request = ni_request r,
      ia_side_effect = ni_side_effect r, ia_budget = ni_budget r, ia_gate = ni_gate r, ia_dispatch = ni_dispatch r\<rparr>"

definition append_intent ::
  "timestamp \<Rightarrow> new_intent_record \<Rightarrow> audit_sink \<Rightarrow> (audit_sink_error + intent_audit_record) \<times> audit_sink" where
  "append_intent now r s =
     (case rbind (audit_lock (as_intents_poisoned s) ''intent'') (\<lambda>_. next_sequence (length (as_intents s)) ''intent'') of
        Inl e \<Rightarrow> (Inl e, s)
      | Inr seq \<Rightarrow> (let record1 = sequence_intent seq now r
                    in (Inr record1, s\<lparr>as_intents := as_intents s @ [record1]\<rparr>)))"

definition append_outcome :: "host_outcome_record \<Rightarrow> audit_sink \<Rightarrow> (audit_sink_error + u64) \<times> audit_sink" where
  "append_outcome r s =
     (case rbind (audit_lock (as_outcomes_poisoned s) ''outcome'') (\<lambda>_. next_sequence (length (as_outcomes s)) ''outcome'') of
        Inl e \<Rightarrow> (Inl e, s)
      | Inr seq \<Rightarrow> (Inr seq, s\<lparr>as_outcomes := as_outcomes s @ [(seq, r)]\<rparr>))"

section \<open>The two streams are numbered logs\<close>

lemma next_sequence_Inr: "next_sequence n stream_name = Inr seq \<Longrightarrow> unat seq = Suc n"
proof -
  assume "next_sequence n stream_name = Inr seq"
  then have c: "checked_add (of_nat n) 1 = Some seq" "n < 2 ^ 64"
    by (auto simp: next_sequence_def ok_or_Inr_iff split: if_splits)
  from checked_add_SomeD [OF c(1)] c(2) show ?thesis by (simp add: unat_of_nat)
qed

definition numbered_intent :: "audit_sink \<Rightarrow> timestamp \<times> new_intent_record \<Rightarrow> (audit_sink_error + nat) \<times> audit_sink" where
  "numbered_intent s x = (case append_intent (fst x) (snd x) s of
     (Inl e, s') \<Rightarrow> (Inl e, s') | (Inr r, s') \<Rightarrow> (Inr (unat (ia_seq r)), s'))"

text \<open>What was asked to be recorded, without the number the sink adds.\<close>

definition intent_of :: "intent_audit_record \<Rightarrow> timestamp \<times> new_intent_record" where
  "intent_of r = (ia_ts r, \<lparr>ni_request_id = ia_request_id r, ni_request = ia_request r, ni_side_effect = ia_side_effect r,
     ni_budget = ia_budget r, ni_gate = ia_gate r, ni_dispatch = ia_dispatch r\<rparr>)"

lemma intent_of_sequence [simp]: "intent_of (sequence_intent seq now r) = (now, r)" "ia_seq (sequence_intent seq now r) = seq"
  by (simp_all add: intent_of_def sequence_intent_def)

definition numbered_outcome :: "audit_sink \<Rightarrow> host_outcome_record \<Rightarrow> (audit_sink_error + nat) \<times> audit_sink" where
  "numbered_outcome s x = (case append_outcome x s of
     (Inl e, s') \<Rightarrow> (Inl e, s') | (Inr n, s') \<Rightarrow> (Inr (unat n), s'))"

interpretation intent_log: numbered_log numbered_intent "\<lambda>s. map intent_of (as_intents s)" "\<lambda>s. map (unat \<circ> ia_seq) (as_intents s)"
  by unfold_locales
    (auto simp: numbered_intent_def append_intent_def Let_def rbind_Inr_iff next_sequence_Inr
      split: prod.splits sum.splits)

interpretation outcome_log: numbered_log numbered_outcome "\<lambda>s. map snd (as_outcomes s)" "\<lambda>s. map (unat \<circ> fst) (as_outcomes s)"
  by unfold_locales
    (auto simp: numbered_outcome_def append_outcome_def rbind_Inr_iff next_sequence_Inr
      split: prod.splits sum.splits)

end
