(* ===== verification/Host_Audit_Facts.thy ===== *)
theory Host_Audit_Facts
  imports Host_Audit
begin

text \<open>
  What the host's audit guarantees: a request is dispatched only with the consent of both the budget
  and the gate, and over any history of appends the two streams only grow, are numbered from 1
  without gaps, and do not disturb each other.
\<close>

section \<open>Dispatch\<close>

text \<open>A request is marked for dispatch exactly when the budget and the gate both allow it; a denial
  of either, or a gate that waits for a human, is never dispatched. The record is of the request:
  its id, its body and the side-effect grade of that body.\<close>

theorem dispatch_needs_budget_and_gate:
  "ni_dispatch (from_request request budget gate) = (if budget = BudgetAllow \<and> gate = GateAllow then Dispatch else DoNotDispatch) \<and>
   ni_request_id (from_request request budget gate) = wr_id request \<and>
   ni_request (from_request request budget gate) = wr_body request \<and>
   ni_side_effect (from_request request budget gate) = Read \<and>
   ni_budget (from_request request budget gate) = budget \<and> ni_gate (from_request request budget gate) = gate"
  by (cases "wr_body request") (simp add: from_request_def from_decisions_def)

section \<open>Histories of the sink\<close>

text \<open>Appends to either stream, and panics of a holder of either lock.\<close>

datatype sink_event =
    AppendIntent timestamp new_intent_record
  | AppendOutcome host_outcome_record
  | PoisonIntents
  | PoisonOutcomes

fun sink_step :: "sink_event \<Rightarrow> audit_sink \<Rightarrow> audit_sink" where
  "sink_step (AppendIntent now r) s = snd (append_intent now r s)"
| "sink_step (AppendOutcome r) s = snd (append_outcome r s)"
| "sink_step PoisonIntents s = s\<lparr>as_intents_poisoned := True\<rparr>"
| "sink_step PoisonOutcomes s = s\<lparr>as_outcomes_poisoned := True\<rparr>"

definition sink_after :: "sink_event list \<Rightarrow> audit_sink \<Rightarrow> audit_sink" where
  "sink_after evs s = fold sink_step evs s"

lemma sink_after_simps [simp]: "sink_after [] s = s" "sink_after (ev # evs) s = sink_after evs (sink_step ev s)"
  by (simp_all add: sink_after_def)

fun of_intents :: "sink_event \<Rightarrow> bool" where
  "of_intents (AppendIntent now r) = True"
| "of_intents PoisonIntents = True"
| "of_intents ev = False"

lemma numbered_snd: "snd (numbered_intent s x) = snd (append_intent (fst x) (snd x) s)"
  "snd (numbered_outcome s r) = snd (append_outcome r s)"
  by (auto simp: numbered_intent_def numbered_outcome_def split: prod.splits sum.splits)

text \<open>One step extends a stream by at most one record, whose number is the next.\<close>

lemma intents_step:
  "as_intents (sink_step ev s) = as_intents s \<or>
   (\<exists>now r rec. ev = AppendIntent now r \<and> as_intents (sink_step ev s) = as_intents s @ [rec] \<and>
      intent_of rec = (now, r) \<and> unat (ia_seq rec) = Suc (length (as_intents s)))"
  by (cases ev) (auto simp: append_intent_def append_outcome_def Let_def rbind_Inr_iff next_sequence_Inr split: sum.splits)

lemma outcomes_step:
  "as_outcomes (sink_step ev s) = as_outcomes s \<or>
   (\<exists>r n. ev = AppendOutcome r \<and> as_outcomes (sink_step ev s) = as_outcomes s @ [(n, r)] \<and>
      unat n = Suc (length (as_outcomes s)))"
  by (cases ev) (auto simp: append_intent_def append_outcome_def Let_def rbind_Inr_iff next_sequence_Inr split: sum.splits)

text \<open>The sink is append-only: whatever happens next, panics included, every record of both
  streams keeps its place, its number and its content, and a snapshot is the stream itself or the
  report of a poisoned lock, never a part of it.\<close>

theorem audit_is_append_only:
  "prefix (as_intents s) (as_intents (sink_after evs s)) \<and> prefix (as_outcomes s) (as_outcomes (sink_after evs s)) \<and>
   intent_snapshot s = (if as_intents_poisoned s then Inl (Poisoned (asc ''intent'')) else Inr (as_intents s)) \<and>
   outcome_snapshot s = (if as_outcomes_poisoned s then Inl (Poisoned (asc ''outcome'')) else Inr (as_outcomes s))"
proof -
  have step: "prefix (as_intents s) (as_intents (sink_step ev s)) \<and> prefix (as_outcomes s) (as_outcomes (sink_step ev s))" for ev s
    using intents_step [of ev s] outcomes_step [of ev s] by auto
  have "prefix (as_intents s) (as_intents (sink_after evs s)) \<and> prefix (as_outcomes s) (as_outcomes (sink_after evs s))"
  proof (induction evs arbitrary: s)
    case (Cons ev evs)
    from Cons [of "sink_step ev s"] step [where ev = ev and s = s] show ?case
      by (auto intro: prefix_order.trans)
  qed simp
  then show ?thesis by (simp add: intent_snapshot_def outcome_snapshot_def audit_lock_def)
qed

definition numbered_from_one :: "audit_sink \<Rightarrow> bool" where
  "numbered_from_one s \<longleftrightarrow>
     map (unat \<circ> ia_seq) (as_intents s) = [1..<Suc (length (as_intents s))] \<and>
     map (unat \<circ> fst) (as_outcomes s) = [1..<Suc (length (as_outcomes s))]"

lemma numbers_snoc:
  assumes "map f xs = [1..<Suc (length xs)]" "f x = Suc (length xs)"
  shows "map f (xs @ [x]) = [1..<Suc (length (xs @ [x]))]"
proof -
  have "[1..<Suc (Suc (length xs))] = [1..<Suc (length xs)] @ [Suc (length xs)]" by (rule upt_Suc_append) simp
  then show ?thesis by (simp only: map_append list.map assms length_append_singleton)
qed

lemma numbered_step:
  assumes "numbered_from_one s"
  shows "numbered_from_one (sink_step ev s)"
proof -
  have nums: "map (unat \<circ> ia_seq) (as_intents s) = [1..<Suc (length (as_intents s))]"
    "map (unat \<circ> fst) (as_outcomes s) = [1..<Suc (length (as_outcomes s))]"
    using assms unfolding numbered_from_one_def by blast+
  have "map (unat \<circ> ia_seq) (as_intents (sink_step ev s)) = [1..<Suc (length (as_intents (sink_step ev s)))]"
    using intents_step [of ev s]
  proof (elim disjE exE conjE)
    fix now r rec
    assume "as_intents (sink_step ev s) = as_intents s @ [rec]" "unat (ia_seq rec) = Suc (length (as_intents s))"
    with numbers_snoc [OF nums(1), of rec] show ?thesis by (simp only: comp_def)
  qed (simp only: nums)
  moreover have "map (unat \<circ> fst) (as_outcomes (sink_step ev s)) = [1..<Suc (length (as_outcomes (sink_step ev s)))]"
    using outcomes_step [of ev s]
  proof (elim disjE exE conjE)
    fix r n
    assume "as_outcomes (sink_step ev s) = as_outcomes s @ [(n, r)]" "unat n = Suc (length (as_outcomes s))"
    with numbers_snoc [OF nums(2), of "(n, r)"] show ?thesis by (simp only: comp_def fst_conv)
  qed (simp only: nums)
  ultimately show ?thesis unfolding numbered_from_one_def by blast
qed

lemma numbered_after: "numbered_from_one s \<Longrightarrow> numbered_from_one (sink_after evs s)"
  by (induction evs arbitrary: s) (auto intro: numbered_step)

lemma intents_only:
  "as_intents (sink_after evs s) = as_intents (sink_after (filter of_intents evs) t) \<and>
   as_intents_poisoned (sink_after evs s) = as_intents_poisoned (sink_after (filter of_intents evs) t)"
  if "as_intents s = as_intents t" "as_intents_poisoned s = as_intents_poisoned t"
  using that
proof (induction evs arbitrary: s t)
  case (Cons ev evs)
  show ?case
  proof (cases "of_intents ev")
    case True
    then have "as_intents (sink_step ev s) = as_intents (sink_step ev t)"
      "as_intents_poisoned (sink_step ev s) = as_intents_poisoned (sink_step ev t)"
      using Cons.prems by (cases ev; auto simp: append_intent_def Let_def split: sum.split)+
    with Cons.IH True show ?thesis by simp
  next
    case False
    then have "as_intents (sink_step ev s) = as_intents t" "as_intents_poisoned (sink_step ev s) = as_intents_poisoned t"
      using Cons.prems by (cases ev; auto simp: append_outcome_def split: sum.split)+
    with Cons.IH [of "sink_step ev s" t] False show ?thesis by simp
  qed
qed simp

text \<open>C35: From a new sink, the records of each stream are numbered 1, 2, 3 and so on in their order, and
  the intents do not depend on what happens to the outcomes: outcome appends and a poisoned
  outcome lock change neither the records nor the numbers of the authority stream.\<close>

theorem audit_streams_are_independent_sequences:
  "numbered_from_one (sink_after evs new_sink) \<and>
   as_intents (sink_after evs new_sink) = as_intents (sink_after (filter of_intents evs) new_sink)"
  using numbered_after [of new_sink evs] intents_only [of new_sink new_sink evs]
  by (simp add: numbered_from_one_def new_sink_def)

end
