(* ===== verification/Spec2Isabelle.thy ===== *)
theory Spec2Isabelle
  imports Proc_Fields_Facts Proc_Maps_Facts Proc_Source_Facts Level0_Facts Worker_Facts
    Worker_Client_Facts Hotspot_Worker Wire_Codec_Facts Wire_Endpoint_Facts Wire_Connection_Facts Wire_Receives_Facts
    Wire_Ping_Facts Wire_Cancel Wire_Direction Wire_Answer Worker_Start_Facts Host_Audit_Facts
begin

text \<open>
  Fovea lets a trusted host look into an untrusted guest machine. A request \<open>introspect(pid)\<close>
  crosses a virtio-vsock connection as a line of JSON; the guest agent reads \<open>/proc\<close>, projects what
  it finds into one \<open>Level0\<close> value with an explicit account of its confidence, and answers; the host
  supervisor decides whether a request may be dispatched and keeps two append-only audit streams.
  This library models the Rust crates of that path (\<open>crates/*/src\<close>), component by component.

  \<^bold>\<open>Rust.\<close> \<open>Fovea_Prelude\<close> has the result type (\<open>Inl\<close> the error), its combinators and the shared
  lemmas; machine integers are words of their width. \<open>Rust_Text\<close> and \<open>Rust_Utf8\<close> model \<open>str\<close> (a list
  of Unicode scalar values) with its splitting, trimming and its UTF-8 coding, lossy decoding
  included; \<open>Rust_Num\<close> parsing and printing of integers; \<open>Rust_Float\<close> \<open>f32\<close> and \<open>f64\<close> as exact
  rationals rounded half to even after each operation; \<open>Rust_Io\<close> effects as functions on a world,
  whose file system, clock and symbolizer are parameters.

  \<^bold>\<open>Guest agent.\<close> \<open>Schema\<close> has the types of \<open>introspect-schema/src/lib.rs\<close>; \<open>Proc_Error\<close> the errors of
  \<open>proc_source.rs\<close> and \<open>degradation.rs\<close>; \<open>Proc_Fields\<close> and \<open>Proc_Maps\<close> the parsers of \<open>proc_view.rs\<close>;
  \<open>Proc_Source\<close> the Linux adapter of \<open>proc_source.rs\<close> (\<open>Proc_Sample\<close> is a concrete guest for the
  witnesses); \<open>Symbolizer\<close> and \<open>Worker\<close> the parts of \<open>symbolize.rs\<close>; \<open>Confidence\<close> and \<open>Introspect\<close>
  those of \<open>introspect.rs\<close>. The theories named \<open>_Facts\<close> hold the properties:
  \<^item> the parsers read back what the kernel prints, the histogram of the maps is a group-by, the top
    list is the largest, and each skipped or shortened line is reported;
  \<^item> a snapshot and an answer are of one process generation, whatever happens to the pid meanwhile;
  \<^item> merging a doubtful field refines the update of a finite map, and the score is a number between
    0 and 1 that never rises with more doubt;
  \<^item> every answer is consistent with itself, everything degraded or missing is noted, and a
    symbolizer that fails costs confidence and no observation.

  \<^bold>\<open>Symbolizer worker.\<close> \<open>Worker\<close> interleaves the worker thread, any number of client calls and the
  handle; each step is one action on the lifecycle mutex or on a channel. \<open>Worker_Facts\<close> shows by
  rule induction that no \<open>unreachable!\<close> is reached, that no request is lost or answered twice, that
  symbols are the backend's own, and that a shutdown is final, is reported truly and ends the thread
  in at most (queued requests) + 6 of its own steps. \<open>Worker_Start\<close> opens up the start of the thread:
  the caller of \<open>spawn_worker_with_shutdown_probe\<close> and the new thread step by step, with the channel
  \<open>initialized\<close> between them. \<open>Worker_Start_Facts\<close> shows that it refines the one-line \<open>spawn_worker\<close>,
  always returns, and returns no error while the thread still runs.
  \<open>Worker_Client\<close> is the worker as \<open>introspect\<close> uses it: a client call and a shutdown made of the same
  steps, run to their end while only the worker moves, with waiting times counted in its steps.
  \<open>Worker_Client_Facts\<close> shows that every submitted call can return within \<open>8 * capacity + 15\<close> steps
  whatever the interleaving, and that a request served through spawn, queue and shutdown
  answers as one that calls the backend directly, or as one with raw symbols when the thread does not
  start, as long as no wait times out; what a panic of the backend changes is stated with it.
  \<open>Hotspot_Worker\<close> needs no such condition: whatever starts, panics or times out, each frame of an answer
  has the symbol of a backend call that was made for its own address, or the raw symbol with its failure listed.

  \<^bold>\<open>Transport.\<close> \<open>Wire_Model\<close>, \<open>Wire_Codec\<close> and \<open>Wire_Endpoint\<close> are \<open>model.rs\<close>, \<open>codec.rs\<close>, and \<open>linux.rs\<close>
  with the mock of \<open>lib.rs\<close>. \<open>Wire_Codec_Facts\<close> shows that reading refines a specification on the
  plain byte stream, that its storage grows with what was read, and that written messages are read back.
  \<open>Wire_Endpoint_Facts\<close> shows for all interleavings of calls that a connection is shut down exactly
  once, that the close is terminal and that no call is stuck. \<open>Wire_Connection\<close> has the calls of an
  endpoint from beginning to end, with their codec, as operations of the two endpoint traits; its
  facts connect them to the interleaved steps. \<open>Wire_Frames\<close> opens up \<open>write_frame\<close> inside these steps,
  one acceptance of the stream at a time: what many senders put on a connection is whole lines, one
  per successful send, with at most one line cut short and nothing after it, and the peer reads them
  back as messages. \<open>Wire_Receives\<close> is the other end: receiving calls that share a reader are serial, and
  every request a receiver returns was sent, by a send of its own. All this holds as long as no caller
  drops the future of a call inside its frame; \<open>dropped_call_tears_the_stream\<close> is the run in which a
  sender does. \<open>Wire_Cancel\<close> adds dropped calls to the endpoint: the locks, the single shutdown and the
  terminal close survive them, and a dropped receive takes from the stream exactly the bytes it had read.
  It also has the memory bound of \<open>read_frame\<close>, since a dropped receive is the frame that a reading stands at:
  at no point is the storage larger than the limit and one byte.
  \<open>Wire_Json\<close> is the JSON form of the messages as the serde attributes of \<open>model.rs\<close> and
  \<open>introspect-schema\<close> declare it and the tests beside them spell it out; its facts show that no object
  of it repeats a name in spite of tags and flattened fields, and that it loses nothing, so that
  decoders with the laws assumed elsewhere exist. \<open>Wire_Direction\<close> shows that evidence of the guest never
  passes for a request, because of the names the repository gives to the tags. \<open>Wire_Answer\<close> joins the two halves: every answer of
  the use case has such a form, and the host that reads its line gets exactly this answer. \<open>Wire_Ping\<close> is the two programs of
  \<open>vsock/examples\<close> over these traits: which exchanges the host accepts, and that the round trip
  completes over a connection that does not break.

  \<^bold>\<open>Host.\<close> \<open>Host_Audit\<close> is \<open>gate.rs\<close> and \<open>audit.rs\<close> of \<open>host-supervisor\<close>; its facts are the append-only
  discipline and the independence of the two streams.

  \<^bold>\<open>Interfaces.\<close> The locales \<open>latch\<close>, \<open>bounded_channel\<close> and \<open>numbered_log\<close> of \<open>Interfaces\<close> and \<open>proc_port\<close> of
  \<open>Proc_Source_Facts\<close> are interpreted on the code's definitions: the lifecycle, the close and the
  silence after it are latches, the request queue and the mock channels bounded channels, the two audit streams
  numbered logs, the Linux adapter a procfs port. This theory composes the parts: the request on
  Linux from the pid to the answer.

  \<^bold>\<open>Bounds and fuel.\<close> No definition runs on fuel. The loop of \<open>read_frame\<close> terminates by the measure
  \<open>reader_work\<close> (the bytes and arrivals not yet consumed) on a finite stream; \<open>None\<close> there is a panic
  of the storage, which is shown not to happen while the limit is below \<open>usize::MAX - 1\<close> (an allocation that fails, or is
  refused as larger than \<open>isize::MAX\<close>, is outside the model). The
  worker loop is a step relation, so that it may run forever; its end is stated in steps. The client
  and the handle are given \<open>patience\<close>, a number of steps of the worker (a timeout of the source is a
  choice of it): 8 are enough for a call on an idle worker and for a shutdown, and only \<open>worker_is_transparent\<close> asks for them. \<open>usize\<close> is 64 bits wide.

  \<^bold>\<open>Not modelled.\<close> \<open>serde_json\<close> and the decoders that serde derives: the printer of a JSON value and
  the decoders are parameters; that a message is read back and that the tag of an accepted
  object is that of its message (\<open>tagged_decoder\<close>) are named hypotheses, which can be met (\<open>decoders_exist\<close>). The texts of \<open>uuid\<close> and \<open>chrono\<close> and
  the number that stands for an \<open>f32\<close> are parameters of the JSON form; a time is taken to be printable. \<open>blazesym\<close>,
  \<open>tokio\<close> and \<open>tokio_vsock\<close> (their streams and channels are parameters or the contracts of
  \<open>Interfaces\<close>; a waiting call is \<open>None\<close> or a disabled step), \<open>tracing\<close> (no effect on results), time
  (a timeout may strike whenever no answer is there), the queue of capacity 0, the shutdown probe
  and \<open>wait_for_state\<close> (test hooks), \<open>ThreadSampleClock\<close> (two library calls), the entry points of
  platforms other than Linux, printing (the binaries print a line and end), tests, scripts and \<open>bpf\<close>.
\<close>

section \<open>The use case on Linux\<close>

lemma same_observations_identity:
  "same_observations l0 base \<Longrightarrow> l0_identity l0 = l0_identity base \<and> l0_resource l0 = l0_resource base"
  unfolding same_observations_def by (metis level0.select_convs(1,3) level0.surjective level0.update_convs(8,10))

lemma with_failure_same: "same_observations (with_failure json_len f l0) l0"
  by (simp add: with_failure_def record_degradation_same split: option.split) (simp add: same_observations_def)

lemma linux_answer:
  assumes "assemble_default_introspection printable json_len pid (linux_source printable os) clock interval spawn w
    = (Inr l0, w')"
  shows "level0_consistent json_len l0 \<and> gaps_noted l0 \<and> id_pid (l0_identity l0) = pid \<and>
    (\<exists>snapshot st w0 w1. linux_snapshot printable os pid w0 = (Inr snapshot, w1) \<and> parse_stat (sn_stat snapshot) = Inr st \<and>
      st_pid st = pid \<and> sn_logical_cpus snapshot \<noteq> 0 \<and> sn_page_size_bytes snapshot \<noteq> 0 \<and>
      re_rss_bytes (l0_resource l0) = saturating_mul (st_rss st) (sn_page_size_bytes snapshot))"
proof -
  from assemble_InrD [OF assms] obtain spawned w1 base w2 where
    base: "introspect_from_ports printable json_len (linux_source printable os) (worker_symbolizer spawned) clock interval pid w1
      = (Inr base, w2)"
    and l0: "l0 = with_failure json_len (worker_failure spawned w2) base" by blast
  from introspect_from_ports_InrD [OF base] obtain snapshot st cpu span_ms u0 u1 u4 where
    s: "linux_snapshot printable os pid u0 = (Inr snapshot, u1)" "parse_stat (sn_stat snapshot) = Inr st"
    and b: "build_level0 printable json_len pid snapshot st cpu span_ms (worker_symbolizer spawned) u4 = (Inr base, w2)"
    by (auto simp: linux_source_def)
  have "re_rss_bytes (l0_resource base) = saturating_mul (st_rss st) (sn_page_size_bytes snapshot)"
    using build_level0_InrD [OF b] by (auto simp: make_level0_def set_token_def Let_def)
  moreover have "id_pid (l0_identity base) = pid" by (rule level0_of_parts(1) [OF b])
  moreover have "l0_identity l0 = l0_identity base" "l0_resource l0 = l0_resource base"
    using same_observations_identity [OF with_failure_same] l0 by blast+
  moreover have "level0_consistent json_len l0" "gaps_noted l0"
    using from_ports_consistent [OF base] from_ports_gaps_noted [OF base] with_failure_consistent with_failure_gaps_noted l0
    by blast+
  ultimately show ?thesis
    using s linux_port.snapshot_stat [OF s] linux_port.snapshot_cpus [OF s(1)] linux_port.snapshot_pages [OF s(1)] by auto
qed

text \<open>C1: The whole request on Linux, from the pid to the answer, with whatever worker: a pid below 1 is
  refused without touching the world; an answer is consistent, notes its gaps, is of the requested
  pid, and comes from a snapshot the adapter made of that process, whose CPU count and page size
  can be used, so the resident size is the kernel's page count times the page size, saturated.\<close>

theorem linux_introspection_is_sound:
  "if pid < 1 then introspect printable json_len os clock spawn pid w = (Inl (InvalidPid pid), w)
   else (case fst (introspect printable json_len os clock spawn pid w) of
       Inl e \<Rightarrow> True
     | Inr l0 \<Rightarrow> level0_consistent json_len l0 \<and> gaps_noted l0 \<and> id_pid (l0_identity l0) = pid \<and>
         (\<exists>snapshot st w0 w1. linux_snapshot printable os pid w0 = (Inr snapshot, w1) \<and>
            parse_stat (sn_stat snapshot) = Inr st \<and> st_pid st = pid \<and>
            sn_logical_cpus snapshot \<noteq> 0 \<and> sn_page_size_bytes snapshot \<noteq> 0 \<and>
            re_rss_bytes (l0_resource l0) = saturating_mul (st_rss st) (sn_page_size_bytes snapshot)))"
proof (cases "pid < 1")
  case True
  then show ?thesis by (simp add: introspect_def io_bind_def validate_invalid)
next
  case False
  obtain r w' where r: "assemble_default_introspection printable json_len pid (linux_source printable os) clock
      default_sample_interval spawn w = (r, w')" by fastforce
  with False have i: "introspect printable json_len os clock spawn pid w = (r, w')"
    by (simp add: introspect_def io_bind_def validate_requested_pid_def)
  show ?thesis
  proof (cases r)
    case (Inr l0)
    with False i linux_answer [OF r [unfolded Inr]] show ?thesis by simp
  qed (use False i in simp)
qed

end
